(* ===== verification/Sg_Prelude.thy ===== *)
theory Sg_Prelude
  imports Main "HOL-Library.Word"
begin

text \<open>
  Shared vocabulary of the development: bytes and C strings, the libc routines
  the daemons call on them (\<open>strlen\<close>, \<open>strncmp\<close>, \<open>snprintf\<close>, \<open>strtoul\<close>,
  \<open>strtok_r\<close>, \<open>strstr\<close>), 32-bit integers on the wire, the account database, and
  the generic lemmas the component theories use through the collections
  \<open>cstr_simps\<close>, \<open>wire_simps\<close> and \<open>num_simps\<close>.

  A byte is a HOL \<open>char\<close> (eight bits), a memory buffer or a byte stream is a list
  of them, and a C string is the part of a buffer before its first NUL.  Log lines
  (\<open>logmsg\<close>, \<open>syslog\<close>) are not modelled anywhere.
\<close>

unbundle bit_operations_syntax

named_theorems cstr_simps \<open>C strings in buffers\<close>
named_theorems wire_simps \<open>integers and fields on a byte stream\<close>
named_theorems num_simps \<open>printing and reading numbers\<close>

type_synonym byte = char
type_synonym bytes = "char list"
type_synonym u8 = "8 word"
type_synonym u32 = "32 word"
type_synonym uid_t = "32 word"
type_synonym time_t = int

abbreviation NUL :: char where "NUL \<equiv> CHR 0x00"
abbreviation LF :: char where "LF \<equiv> CHR 0x0A"
abbreviation CR :: char where "CR \<equiv> CHR 0x0D"
abbreviation TAB :: char where "TAB \<equiv> CHR 0x09"
abbreviation DQ :: char where "DQ \<equiv> CHR 0x22"
abbreviation BSL :: char where "BSL \<equiv> CHR 0x5C"

abbreviation code :: "char \<Rightarrow> nat" where "code c \<equiv> of_char c"

section \<open>C strings\<close>

definition nul_free :: "string \<Rightarrow> bool" where
  "nul_free s \<longleftrightarrow> NUL \<notin> set s"

text \<open>The string that starts at a buffer position, and the position after its NUL.\<close>

definition cstr :: "bytes \<Rightarrow> string" where
  "cstr b = takeWhile (\<lambda>c. c \<noteq> NUL) b"

definition cskip :: "bytes \<Rightarrow> bytes" where
  "cskip b = drop (length (cstr b) + 1) b"

text \<open>A string written with its terminator, as \<open>memcpy (p, s, strlen (s) + 1)\<close> does.\<close>

definition cput :: "string \<Rightarrow> bytes" where
  "cput s = s @ [NUL]"

lemma nul_free_Nil [simp]: "nul_free []"
  by (simp add: nul_free_def)

lemma nul_free_Cons [simp]: "nul_free (c # s) \<longleftrightarrow> c \<noteq> NUL \<and> nul_free s"
  by (auto simp: nul_free_def)

lemma nul_free_append [simp]: "nul_free (s @ t) \<longleftrightarrow> nul_free s \<and> nul_free t"
  by (auto simp: nul_free_def)

lemma nul_free_cstr [simp]: "nul_free (cstr b)"
  by (auto simp: nul_free_def cstr_def dest: set_takeWhileD)

lemma nul_free_take [simp]: "nul_free s \<Longrightarrow> nul_free (take n s)"
  by (auto simp: nul_free_def dest: in_set_takeD)

lemma cstr_Nil [cstr_simps, simp]: "cstr [] = []"
  by (simp add: cstr_def)

lemma cstr_cput [cstr_simps]: "nul_free s \<Longrightarrow> cstr (cput s @ rest) = s"
  by (induction s) (auto simp: cstr_def cput_def)

lemma cskip_cput [cstr_simps]: "nul_free s \<Longrightarrow> cskip (cput s @ rest) = rest"
  by (simp add: cskip_def cstr_cput) (simp add: cput_def)

lemma cstr_whole [cstr_simps]: "nul_free s \<Longrightarrow> cstr s = s"
  by (induction s) (auto simp: cstr_def)

lemma cstr_id [cstr_simps, simp]: "cstr (cstr b) = cstr b"
  by (rule cstr_whole) simp

lemma length_cskip_less: "b \<noteq> [] \<Longrightarrow> length (cskip b) < length b"
  by (cases b) (simp_all add: cskip_def)

lemma length_cput [simp]: "length (cput s) = length s + 1"
  by (simp add: cput_def)

lemma cput_not_Nil [simp]: "cput s \<noteq> []"
  by (simp add: cput_def)

text \<open>\<open>strncmp (s, lit, strlen (lit)) == 0\<close>: the string starts with the literal.\<close>

definition starts :: "string \<Rightarrow> string \<Rightarrow> bool" where
  "starts p s \<longleftrightarrow> take (length p) s = p"

lemma starts_append [simp]: "starts p (p @ s)"
  by (simp add: starts_def)

lemma starts_self [simp]: "starts p p"
  by (simp add: starts_def)

lemma starts_Nil [simp]: "starts [] s"
  by (simp add: starts_def)

lemma starts_iff: "starts p s \<longleftrightarrow> (\<exists>t. s = p @ t)"
proof
  assume "starts p s"
  then have "s = p @ drop (length p) s"
    using append_take_drop_id[of "length p" s] by (simp add: starts_def)
  then show "\<exists>t. s = p @ t" ..
qed auto

text \<open>\<open>snprintf (buf, size, "%s", s)\<close>: what does not fit is cut off.\<close>

definition snprintf_s :: "nat \<Rightarrow> string \<Rightarrow> string" where
  "snprintf_s sz s = take (sz - 1) s"

lemma snprintf_s_fits [simp]: "length s < sz \<Longrightarrow> snprintf_s sz s = s"
  by (simp add: snprintf_s_def)

lemma length_snprintf_s: "0 < sz \<Longrightarrow> length (snprintf_s sz s) < sz"
  by (simp add: snprintf_s_def)

text \<open>\<open>strchr\<close>: the rest of the string from the first occurrence of a character on.\<close>

definition strchr :: "string \<Rightarrow> char \<Rightarrow> string option" where
  "strchr s c = (case dropWhile (\<lambda>x. x \<noteq> c) s of [] \<Rightarrow> None | t \<Rightarrow> Some t)"

text \<open>The part of a string before the first of the characters given (\<open>strcspn\<close>).\<close>

definition before :: "string \<Rightarrow> char set \<Rightarrow> string" where
  "before s cs = takeWhile (\<lambda>x. x \<notin> cs) s"

lemma strchr_None: "strchr s c = None \<longleftrightarrow> c \<notin> set s"
  by (induction s) (auto simp: strchr_def)

lemma strchr_split: "c \<notin> set s \<Longrightarrow> strchr (s @ c # t) c = Some (c # t)"
  by (induction s) (auto simp: strchr_def)

lemma before_split: "set s \<inter> cs = {} \<Longrightarrow> c \<in> cs \<Longrightarrow> before (s @ c # t) cs = s"
  by (induction s) (auto simp: before_def)

lemma before_all: "set s \<inter> cs = {} \<Longrightarrow> before s cs = s"
  by (induction s) (auto simp: before_def)

text \<open>\<open>strstr\<close>: the rest of the string from the first occurrence of a substring on.\<close>

fun strstr :: "string \<Rightarrow> string \<Rightarrow> string option" where
  "strstr [] pat = (if pat = [] then Some [] else None)"
| "strstr (c # s) pat = (if starts pat (c # s) then Some (c # s) else strstr s pat)"

lemma strstr_starts: "starts pat s \<Longrightarrow> strstr s pat = Some s"
  by (cases s) (auto simp: starts_def)

lemma strstr_Some: "strstr s pat = Some t \<Longrightarrow> starts pat t \<and> (\<exists>u. s = u @ t)"
proof (induction s)
  case Nil
  then show ?case by (auto split: if_splits)
next
  case (Cons c s)
  show ?case
  proof (cases "starts pat (c # s)")
    case True
    then show ?thesis using Cons.prems by auto
  next
    case False
    then obtain u where "s = u @ t" "starts pat t" using Cons by auto
    then show ?thesis by (auto intro: exI[of _ "c # u"])
  qed
qed

text \<open>
  \<open>strtok_r (s, seps)\<close> until it returns NULL: the maximal non-empty runs of
  characters that are not separators.
\<close>

function strtok_all :: "char set \<Rightarrow> string \<Rightarrow> string list" where
  "strtok_all seps s =
     (case dropWhile (\<lambda>c. c \<in> seps) s of
        [] \<Rightarrow> []
      | t \<Rightarrow> takeWhile (\<lambda>c. c \<notin> seps) t # strtok_all seps (dropWhile (\<lambda>c. c \<notin> seps) t))"
  by pat_completeness auto
termination
proof (relation "measure (length \<circ> snd)", goal_cases)
  case (2 seps s c t)
  have "length (dropWhile (\<lambda>c. c \<notin> seps) (c # t)) \<le> length t"
    using 2 length_dropWhile_le[of "\<lambda>c. c \<notin> seps" t] by (auto simp: dropWhile_eq_Cons_conv)
  moreover have "length (c # t) \<le> length s"
    using 2 length_dropWhile_le[of "\<lambda>c. c \<in> seps" s] by simp
  ultimately show ?case using 2 by simp
qed simp

declare strtok_all.simps [simp del]

section \<open>Character classes\<close>

definition isdigit :: "char \<Rightarrow> bool" where
  "isdigit c \<longleftrightarrow> 48 \<le> code c \<and> code c \<le> 57"

definition islower :: "char \<Rightarrow> bool" where
  "islower c \<longleftrightarrow> 97 \<le> code c \<and> code c \<le> 122"

definition isupper :: "char \<Rightarrow> bool" where
  "isupper c \<longleftrightarrow> 65 \<le> code c \<and> code c \<le> 90"

definition isalpha :: "char \<Rightarrow> bool" where
  "isalpha c \<longleftrightarrow> islower c \<or> isupper c"

definition isalnum :: "char \<Rightarrow> bool" where
  "isalnum c \<longleftrightarrow> isalpha c \<or> isdigit c"

definition isspace :: "char \<Rightarrow> bool" where
  "isspace c \<longleftrightarrow> code c = 32 \<or> 9 \<le> code c \<and> code c \<le> 13"

definition tolower :: "char \<Rightarrow> char" where
  "tolower c = (if isupper c then char_of (code c + 32) else c)"

definition toupper :: "char \<Rightarrow> char" where
  "toupper c = (if islower c then char_of (code c - 32) else c)"

lemmas char_class_defs =
  isdigit_def islower_def isupper_def isalpha_def isalnum_def isspace_def

lemma of_char_less_256 [simp]: "code c < 256"
  by (metis of_char_of char_of_char mod_less_divisor zero_less_numeral)

section \<open>Integers on the wire\<close>

text \<open>A \<open>uint32_t\<close> in memory: four bytes, least significant first (the host's order).\<close>

definition le32 :: "u32 \<Rightarrow> bytes" where
  "le32 w = [char_of (unat w), char_of (unat w div 256),
             char_of (unat w div 65536), char_of (unat w div 16777216)]"

fun un_le32 :: "bytes \<Rightarrow> u32" where
  "un_le32 (a # b # c # d # _) =
     word_of_nat (code a + 256 * code b + 65536 * code c + 16777216 * code d)"
| "un_le32 _ = 0"

lemma unat_u32_less [simp]: "unat (w :: u32) < 4294967296"
  using unsigned_less[of w] by simp

lemma length_le32 [simp]: "length (le32 w) = 4"
  by (simp add: le32_def)

lemma un_le32_le32 [wire_simps]: "un_le32 (le32 w @ rest) = w"
proof -
  define n where "n = unat w"
  have "n < 4294967296" using unsigned_less[of w] by (simp add: n_def)
  then have "n div 16777216 < 256" by (simp add: less_mult_imp_div_less)
  moreover have "n mod 65536 = 256 * (n div 256 mod 256) + n mod 256"
    using mod_mult2_eq[of n 256 256] by simp
  moreover have "n mod 16777216 = 65536 * (n div 65536 mod 256) + n mod 65536"
    using mod_mult2_eq[of n 65536 256] by simp
  moreover have "n = 16777216 * (n div 16777216) + n mod 16777216" by simp
  ultimately have "n mod 256 + 256 * (n div 256 mod 256) + 65536 * (n div 65536 mod 256)
      + 16777216 * (n div 16777216 mod 256) = n"
    by simp
  then have "word_of_nat (n mod 256 + 256 * (n div 256 mod 256) + 65536 * (n div 65536 mod 256)
      + 16777216 * (n div 16777216 mod 256)) = (word_of_nat n :: u32)"
    by (simp only:)
  then show ?thesis by (simp add: le32_def n_def)
qed

text \<open>\<open>read_full (fd, buf, n)\<close> on a stream that ends after the bytes given.\<close>

definition read_full :: "nat \<Rightarrow> bytes \<Rightarrow> (bytes \<times> bytes) option" where
  "read_full n bs = (if n \<le> length bs then Some (take n bs, drop n bs) else None)"

definition read_u32 :: "bytes \<Rightarrow> (u32 \<times> bytes) option" where
  "read_u32 bs = (case read_full 4 bs of None \<Rightarrow> None | Some (b, r) \<Rightarrow> Some (un_le32 b, r))"

lemma read_full_append [wire_simps]: "length b = n \<Longrightarrow> read_full n (b @ rest) = Some (b, rest)"
  by (simp add: read_full_def)

lemma read_u32_le32 [wire_simps]: "read_u32 (le32 w @ rest) = Some (w, rest)"
  unfolding read_u32_def read_full_append[OF length_le32]
  using un_le32_le32[of w "[]"] by simp

lemma read_full_Some: "read_full n bs = Some (b, r) \<longleftrightarrow> length b = n \<and> bs = b @ r"
  by (auto simp: read_full_def)

lemma read_u32_shrinks: "read_u32 bs = Some (w, r) \<Longrightarrow> length r + 4 = length bs"
  by (auto simp: read_u32_def read_full_Some split: option.splits)

section \<open>Printing and reading numbers\<close>

definition digit :: "nat \<Rightarrow> char" where
  "digit n = char_of (48 + n)"

text \<open>\<open>%u\<close>\<close>

fun show_nat :: "nat \<Rightarrow> string" where
  "show_nat n = (if n < 10 then [digit n] else show_nat (n div 10) @ [digit (n mod 10)])"

declare show_nat.simps [simp del]

definition show_u32 :: "u32 \<Rightarrow> string" where
  "show_u32 w = show_nat (unat w)"

text \<open>\<open>%lld\<close>\<close>

definition show_int :: "int \<Rightarrow> string" where
  "show_int i = (if i < 0 then CHR ''-'' # show_nat (nat (- i)) else show_nat (nat i))"

definition digits_val :: "string \<Rightarrow> nat" where
  "digits_val ds = foldl (\<lambda>a c. 10 * a + (code c - 48)) 0 ds"

text \<open>
  The pieces \<open>strtoul\<close> and \<open>strtol\<close> read in base 10: white space, a sign, digits.
  \<open>num_split\<close> gives the sign, the digits and what follows them.
\<close>

definition num_split :: "string \<Rightarrow> bool \<times> string \<times> string" where
  "num_split s =
     (let t = dropWhile isspace s;
          neg = (t \<noteq> [] \<and> hd t = CHR ''-'');
          u = (if t \<noteq> [] \<and> (hd t = CHR ''-'' \<or> hd t = CHR ''+'') then tl t else t)
      in (neg, takeWhile isdigit u, dropWhile isdigit u))"

text \<open>\<open>strtoul (s, NULL, 10)\<close> for a 64-bit \<open>unsigned long\<close>.\<close>

definition strtoul10 :: "string \<Rightarrow> nat" where
  "strtoul10 s =
     (case num_split s of (neg, ds, _) \<Rightarrow>
        let v = digits_val ds
        in if v \<ge> 2 ^ 64 then 2 ^ 64 - 1 else if neg then (2 ^ 64 - v) mod 2 ^ 64 else v)"

text \<open>\<open>strtol (s, NULL, 10)\<close> for a 64-bit \<open>long\<close>.\<close>

definition strtol10 :: "string \<Rightarrow> int" where
  "strtol10 s =
     (case num_split s of (neg, ds, _) \<Rightarrow>
        let v = int (digits_val ds)
        in if neg then max (- (2 ^ 63)) (- v) else min (2 ^ 63 - 1) v)"

text \<open>Where \<open>strtol\<close> stopped (\<open>endptr\<close>): at the start when it read no digits.\<close>

definition strtol_end :: "string \<Rightarrow> string" where
  "strtol_end s = (case num_split s of (_, ds, r) \<Rightarrow> if ds = [] then s else r)"

text \<open>\<open>atoi\<close>: \<open>strtol\<close> cut to a 32-bit \<open>int\<close>.\<close>

definition atoi :: "string \<Rightarrow> int" where
  "atoi s = sint (word_of_int (strtol10 s) :: 32 word)"

abbreviation strtou32 :: "string \<Rightarrow> u32" where
  "strtou32 s \<equiv> word_of_nat (strtoul10 s)"

lemma isdigit_digit [num_simps]: "n < 10 \<Longrightarrow> isdigit (digit n)"
  by (simp add: isdigit_def digit_def)

lemma code_digit [num_simps]: "n < 10 \<Longrightarrow> code (digit n) = 48 + n"
  by (simp add: digit_def)

lemma show_nat_not_Nil [simp]: "show_nat n \<noteq> []"
  by (subst show_nat.simps) simp

lemma show_nat_digits: "c \<in> set (show_nat n) \<Longrightarrow> isdigit c"
proof (induction n rule: show_nat.induct)
  case (1 n)
  then show ?case by (subst (asm) (2) show_nat.simps) (auto simp: num_simps split: if_splits)
qed

lemma digits_val_snoc [num_simps]: "digits_val (ds @ [c]) = 10 * digits_val ds + (code c - 48)"
  by (simp add: digits_val_def)

lemma digits_val_show [num_simps]: "digits_val (show_nat n) = n"
proof (induction n rule: show_nat.induct)
  case (1 n)
  show ?case
  proof (cases "n < 10")
    case True
    then show ?thesis by (subst show_nat.simps) (simp add: digits_val_def num_simps)
  next
    case False
    then show ?thesis using 1 by (subst show_nat.simps) (simp add: num_simps)
  qed
qed

lemma show_nat_nul_free [simp]: "nul_free (show_nat n)"
  using show_nat_digits[of NUL n] by (auto simp: nul_free_def isdigit_def)

lemma show_nat_length: "0 < k \<Longrightarrow> n < 10 ^ k \<Longrightarrow> length (show_nat n) \<le> k"
proof (induction n arbitrary: k rule: show_nat.induct)
  case (1 n)
  show ?case
  proof (cases "n < 10")
    case True
    then show ?thesis using 1 by (simp add: show_nat.simps)
  next
    case False
    then obtain j where j: "k = Suc j" "0 < j" using 1 by (cases k; cases "k - 1") auto
    then have "n div 10 < 10 ^ j" using 1(3) by (simp add: less_mult_imp_div_less mult.commute)
    then have "length (show_nat (n div 10)) \<le> j" using 1(1)[OF False] j by simp
    then show ?thesis using False j by (simp add: show_nat.simps[of n])
  qed
qed

lemma show_nat_avoids: "\<not> isdigit c \<Longrightarrow> c \<notin> set (show_nat n)"
  using show_nat_digits by blast

lemma num_split_show:
  assumes "rest = [] \<or> \<not> isdigit (hd rest)"
  shows "num_split (show_nat n @ rest) = (False, show_nat n, rest)"
proof -
  obtain c ds where s: "show_nat n = c # ds" by (cases "show_nat n") auto
  have c: "isdigit c" and ds: "\<forall>x\<in>set ds. isdigit x"
    using show_nat_digits[of _ n] by (auto simp: s)
  then have "\<not> isspace c" "c \<noteq> CHR ''-''" "c \<noteq> CHR ''+''" by (auto simp: char_class_defs)
  moreover have "takeWhile isdigit (ds @ rest) = ds" "dropWhile isdigit (ds @ rest) = rest"
    using ds assms by (auto simp: takeWhile_append dropWhile_append takeWhile_eq_Nil_iff)
      (cases rest; simp)+
  ultimately show ?thesis using c by (simp add: num_split_def s)
qed

lemma digits_split:
  assumes "rest = [] \<or> \<not> isdigit (hd rest)"
  shows "takeWhile isdigit (show_nat n @ rest) = show_nat n" "dropWhile isdigit (show_nat n @ rest) = rest"
  using assms show_nat_digits[of _ n]
  by (auto simp: takeWhile_append dropWhile_append takeWhile_eq_Nil_iff) (cases rest; simp)+

lemma num_split_minus:
  "rest = [] \<or> \<not> isdigit (hd rest) \<Longrightarrow>
     num_split (CHR ''-'' # show_nat n @ rest) = (True, show_nat n, rest)"
  by (simp add: num_split_def digits_split isspace_def)

lemma strtoul10_show [num_simps]:
  "n < 2 ^ 64 \<Longrightarrow> rest = [] \<or> \<not> isdigit (hd rest) \<Longrightarrow> strtoul10 (show_nat n @ rest) = n"
  by (simp add: strtoul10_def num_split_show num_simps)

lemma strtou32_show [num_simps]:
  "rest = [] \<or> \<not> isdigit (hd rest) \<Longrightarrow> strtou32 (show_u32 w @ rest) = w"
  using strtoul10_show[of "unat w" rest] unat_u32_less[of w] by (simp add: show_u32_def)

lemma strtol10_show [num_simps]:
  "n < 2 ^ 63 \<Longrightarrow> rest = [] \<or> \<not> isdigit (hd rest) \<Longrightarrow> strtol10 (show_nat n @ rest) = int n"
  by (simp add: strtol10_def num_split_show num_simps)

lemma strtol10_show_int [num_simps]:
  assumes "- (2 ^ 63) \<le> i" and "i < 2 ^ 63" and "rest = [] \<or> \<not> isdigit (hd rest)"
  shows "strtol10 (show_int i @ rest) = i"
proof (cases "i < 0")
  case True
  have "num_split (CHR ''-'' # show_nat (nat (- i)) @ rest) = (True, show_nat (nat (- i)), rest)"
    using num_split_minus[OF assms(3)] .
  then show ?thesis using True assms(1) by (simp add: show_int_def strtol10_def num_simps)
next
  case False
  then show ?thesis using strtol10_show[of "nat i" rest] assms(2,3) by (simp add: show_int_def)
qed

lemma show_int_avoids: "\<not> isdigit c \<Longrightarrow> c \<noteq> CHR ''-'' \<Longrightarrow> c \<notin> set (show_int i)"
  by (auto simp: show_int_def dest: show_nat_avoids)

lemma nul_free_show_u32 [simp]: "nul_free (show_u32 w)"
  by (simp add: show_u32_def)

section \<open>Accounts\<close>

text \<open>The account and group databases (\<open>getpwnam\<close>, \<open>getpwuid\<close>, \<open>getgrnam\<close>).\<close>

record passwd =
  pw_name :: string
  pw_uid :: uid_t
  pw_gid :: u32
  pw_dir :: string
  pw_shell :: string

record group_entry =
  gr_gid :: u32
  gr_mem :: "string list"

record accounts =
  getpwnam :: "string \<Rightarrow> passwd option"
  getpwuid :: "uid_t \<Rightarrow> passwd option"
  getgrnam :: "string \<Rightarrow> group_entry option"

text \<open>An example database: an administrator, an ordinary user, the SYSTEM account and root.\<close>

definition ex_account :: "string \<Rightarrow> uid_t \<Rightarrow> passwd" where
  "ex_account name uid =
     \<lparr>pw_name = name, pw_uid = uid, pw_gid = uid, pw_dir = ''/home/'' @ name, pw_shell = ''/bin/bash''\<rparr>"

definition ex_users :: "(string \<times> uid_t) list" where
  "ex_users = [(''alice'', 1001), (''bob'', 1002), (''sgsystem'', 990), (''root'', 0)]"

definition ex_accounts :: accounts where
  "ex_accounts = \<lparr>
     getpwnam = (\<lambda>n. map_option (ex_account n) (map_of ex_users n)),
     getpwuid = (\<lambda>u. map_option (\<lambda>n. ex_account n u) (map_of (map prod.swap ex_users) u)),
     getgrnam = (\<lambda>g. if g = ''sg-admins'' then Some \<lparr>gr_gid = 500, gr_mem = [''alice'']\<rparr> else None)\<rparr>"

lemmas ex_defs = ex_account_def ex_users_def ex_accounts_def

section \<open>Lines and fields\<close>

text \<open>The fields of a text around a separator.\<close>

fun split_on :: "char \<Rightarrow> string \<Rightarrow> string list" where
  "split_on c [] = [[]]"
| "split_on c (d # s) = (if d = c then [] # split_on c s
                         else case split_on c s of [] \<Rightarrow> [[d]] | w # ws \<Rightarrow> (d # w) # ws)"

lemma split_on_last: "c \<notin> set w \<Longrightarrow> split_on c w = [w]"
  by (induction w) auto

lemma split_on_field: "c \<notin> set w \<Longrightarrow> split_on c (w @ c # s) = w # split_on c s"
  by (induction w) auto

text \<open>The lines of a text in which every line ends in a newline.\<close>

fun lines_of :: "string \<Rightarrow> string list" where
  "lines_of [] = []"
| "lines_of (c # s) =
     (if c = LF then [] # lines_of s
      else case lines_of s of [] \<Rightarrow> [[c]] | l # ls \<Rightarrow> (c # l) # ls)"

lemma lines_of_line: "LF \<notin> set l \<Longrightarrow> lines_of (l @ LF # s) = l # lines_of s"
  by (induction l) auto

lemma lines_of_concat:
  "\<forall>l\<in>set ls. LF \<notin> set l \<Longrightarrow> lines_of (concat (map (\<lambda>l. l @ [LF]) ls)) = ls"
  by (induction ls) (simp_all add: lines_of_line)

section \<open>Processes and environments\<close>

text \<open>How a child ended (\<open>waitpid\<close>): its exit code, or the signal that killed it.\<close>

datatype wait_status = Exited nat | Signaled nat

type_synonym env = "string \<rightharpoonup> string"

abbreviation setenv :: "string \<Rightarrow> string \<Rightarrow> env \<Rightarrow> env" where
  "setenv k v e \<equiv> e(k \<mapsto> v)"

text \<open>\<open>putenv ("K=V")\<close>: the part before the first \<open>=\<close> names the variable.\<close>

definition putenv :: "string \<Rightarrow> env \<Rightarrow> env" where
  "putenv kv e = (case strchr kv CHR ''='' of None \<Rightarrow> e | Some r \<Rightarrow> setenv (before kv {CHR ''=''}) (tl r) e)"

text \<open>\<open>argv\<close>-style strings one after another in a buffer, at most \<open>n\<close> of them.\<close>

function cstrings :: "nat \<Rightarrow> bytes \<Rightarrow> string list" where
  "cstrings n b = (if n = 0 \<or> b = [] then [] else cstr b # cstrings (n - 1) (cskip b))"
  by pat_completeness auto
termination by (relation "measure fst") auto

declare cstrings.simps [simp del]

lemma cstrings_Nil [cstr_simps, simp]: "cstrings n [] = []"
  by (simp add: cstrings.simps)

lemma cstrings_cput [cstr_simps]:
  "\<forall>s\<in>set ss. nul_free s \<Longrightarrow> cstrings n (concat (map cput ss)) = take n ss"
proof (induction ss arbitrary: n)
  case (Cons s ss)
  show ?case
  proof (cases n)
    case 0
    then show ?thesis by (simp add: cstrings.simps)
  next
    case (Suc m)
    have "cstrings n (cput s @ concat (map cput ss)) = s # cstrings m (concat (map cput ss))"
      using Cons.prems Suc by (subst cstrings.simps) (simp add: cstr_cput cskip_cput)
    then show ?thesis using Cons Suc by simp
  qed
qed simp

lemma cstrings_nul_free: "s \<in> set (cstrings n b) \<Longrightarrow> nul_free s"
proof (induction n b rule: cstrings.induct)
  case (1 n b)
  then show ?case by (subst (asm) (2) cstrings.simps) (auto split: if_splits)
qed

text \<open>
  \<open>fgets (line, size, f)\<close> until the end of the file: the lines, each with its newline,
  cut into pieces of \<open>size - 1\<close> bytes.
\<close>

definition fgets :: "nat \<Rightarrow> bytes \<Rightarrow> bytes \<times> bytes" where
  "fgets sz s =
     (let l = takeWhile (\<lambda>c. c \<noteq> LF) (take (sz - 1) s);
          k = (if length l < length (take (sz - 1) s) then length l + 1 else length l)
      in (take k s, drop k s))"

lemma fgets_advances:
  assumes "\<not> (sz < 2 \<or> s = [])" and "(l, r) = fgets sz s"
  shows "l \<noteq> [] \<and> s = l @ r"
proof -
  obtain c t n where "s = c # t" "sz - 1 = Suc n"
    using assms(1) by (cases s; cases "sz - 1") auto
  then have "l \<noteq> []" using assms(2) by (auto simp: fgets_def Let_def)
  moreover have "s = l @ r" using assms(2) by (auto simp: fgets_def Let_def)
  ultimately show ?thesis by simp
qed

function fgets_all :: "nat \<Rightarrow> bytes \<Rightarrow> bytes list" where
  "fgets_all sz s =
     (if sz < 2 \<or> s = [] then []
      else case fgets sz s of (l, r) \<Rightarrow> l # fgets_all sz r)"
  by pat_completeness auto
termination
proof (relation "measure (length \<circ> snd)", goal_cases)
  case (2 sz s l r)
  then have "l \<noteq> [] \<and> s = l @ r" by (rule fgets_advances)
  then show ?case by (cases l) auto
qed simp

declare fgets_all.simps [simp del]

end
