(* ===== verification/Sg_Planar.thy ===== *)
theory Sg_Planar
  imports Sg_Prelude
begin

text \<open>
  The RDP 6.0 planar bitmap encoder, \<open>rdp/sg-planar.c\<close>: the run-length coder of one
  scanline (\<open>rle_line\<close> with its inner loops), the vertical delta (\<open>fold_delta\<close>) and
  the whole tile (\<open>sg_planar_encode\<close>).  The stream format its comment describes
  (MS-RDPEGDI 2.2.2.5.1 and 3.1.9.2) is given as a decoder, \<open>decode_planar\<close>, which is
  the specification the encoder is proved against: every tile decodes to the pixels
  it was made from, and the output fits the buffer \<open>sg_planar_bound\<close> sizes.

  Widths, heights and positions are \<open>unsigned\<close>; past the guard they are at most
  8192, so \<open>nat\<close> is exact there.  The two size computations that take any
  \<open>unsigned\<close> keep their wrap-around.
\<close>

section \<open>The encoder\<close>

definition HDR_RLE :: u8 where "HDR_RLE = 0x10"
definition HDR_NA :: u8 where "HDR_NA = 0x20"
definition MAX_SIDE :: nat where "MAX_SIDE = 8192"

definition rle_line_bound :: "u32 \<Rightarrow> nat" where
  "rle_line_bound w = unat w + unat ((w + 14) div 15)"

definition sg_planar_bound :: "u32 \<Rightarrow> u32 \<Rightarrow> nat" where
  "sg_planar_bound w h =
     (let rle = (1 + 3 * unat h * rle_line_bound w) mod 2 ^ 64;
          raw = (1 + 3 * unat w * unat h + 1) mod 2 ^ 64
      in if rle > raw then rle else raw)"

definition control :: "nat \<Rightarrow> nat \<Rightarrow> u8" where
  "control run raw = word_of_nat ((run AND 0x0f) OR push_bit 4 (raw AND 0x0f))"

function run_from :: "u8 list \<Rightarrow> nat \<Rightarrow> nat \<Rightarrow> u8 \<Rightarrow> nat \<Rightarrow> nat" where
  "run_from v i w val n =
     (if i + n < w \<and> v ! (i + n) = val then run_from v i w val (n + 1) else n)"
  by pat_completeness auto
termination by (relation "measure (\<lambda>(v, i, w, val, n). w - (i + n))") auto

declare run_from.simps [simp del]

definition run_of :: "u8 list \<Rightarrow> nat \<Rightarrow> nat \<Rightarrow> u8 \<Rightarrow> nat" where
  "run_of v i w val = run_from v i w val 0"

text \<open>The inner loop that spells a long run; it gives the position and the output after it.\<close>

function rle_runs :: "nat \<Rightarrow> nat \<Rightarrow> u8 list \<Rightarrow> nat \<times> u8 list" where
  "rle_runs run i out =
     (if run \<ge> 3 then
        let (c, b) = (if run \<ge> 32 then let c = (if run > 47 then 47 else run) in (c, control 2 (c - 32))
                      else if run \<ge> 16 then (run, control 1 (run - 16))
                      else (run, control run 0))
        in rle_runs (run - c) (i + c) (out @ [b])
      else (i, out))"
  by pat_completeness auto
termination by (relation "measure fst") (auto split: if_splits)

declare rle_runs.simps [simp del]

text \<open>The loop that collects raw values; it gives \<open>i\<close>, \<open>raw\<close> and \<open>follow\<close> after it.\<close>

function rle_raw :: "u8 list \<Rightarrow> nat \<Rightarrow> nat \<Rightarrow> nat \<Rightarrow> nat \<times> nat \<times> nat" where
  "rle_raw v w i raw =
     (if i < w \<and> raw < 15 then
        let b = v ! i; follow = run_of v (i + 1) w b
        in if follow \<ge> 3 then (i + 1, raw + 1, follow) else rle_raw v w (i + 1) (raw + 1)
      else (i, raw, 0))"
  by pat_completeness auto
termination by (relation "measure (\<lambda>(v, w, i, raw). w - i)") auto

declare rle_raw.simps [simp del]

lemma rle_runs_advances: "i + (if run \<ge> 3 then 3 else 0) \<le> fst (rle_runs run i out)"
proof (induction run i out rule: rle_runs.induct)
  case (1 run i out)
  show ?case
  proof (cases "run \<ge> 3")
    case True
    define cb where "cb = (if run \<ge> 32 then let c = (if run > 47 then 47 else run) in (c, control 2 (c - 32))
                      else if run \<ge> 16 then (run, control 1 (run - 16)) else (run, control run 0))"
    obtain c b where cb: "cb = (c, b)" by (cases cb)
    then have "c \<ge> 3" using True by (auto simp: cb_def Let_def split: if_splits)
    moreover have "i + c \<le> fst (rle_runs (run - c) (i + c) (out @ [b]))"
      using 1[OF True, folded cb_def, OF cb[symmetric]] by (auto split: if_splits)
    moreover have "rle_runs run i out = rle_runs (run - c) (i + c) (out @ [b])"
      using True cb by (subst rle_runs.simps, fold cb_def) simp
    ultimately show ?thesis using True by simp
  qed (simp add: rle_runs.simps)
qed

lemma rle_raw_advances:
  "rle_raw v w i raw = (j, r, f) \<Longrightarrow> j + raw = i + r \<and> (i < w \<and> raw < 15 \<longrightarrow> i < j)"
proof (induction v w i raw arbitrary: j r f rule: rle_raw.induct)
  case (1 v w i raw)
  show ?case
  proof (cases "i < w \<and> raw < 15 \<and> \<not> 3 \<le> run_of v (i + 1) w (v ! i)")
    case True
    then have "rle_raw v w (i + 1) (raw + 1) = (j, r, f)"
      using "1.prems" by (subst (asm) rle_raw.simps) simp
    then have "j + (raw + 1) = i + 1 + r \<and> (i + 1 < w \<and> raw + 1 < 15 \<longrightarrow> i + 1 < j)"
      using "1.IH" True by simp
    moreover have "i + 1 \<le> j"
      using \<open>rle_raw v w (i + 1) (raw + 1) = (j, r, f)\<close> calculation
      by (cases "i + 1 < w \<and> raw + 1 < 15") (auto simp: rle_raw.simps)
    ultimately show ?thesis by simp
  next
    case False
    then show ?thesis using "1.prems" by (subst (asm) rle_raw.simps) (auto split: if_splits)
  qed
qed

text \<open>The outer loop of \<open>rle_line\<close>.\<close>

function rle_loop :: "u8 list \<Rightarrow> nat \<Rightarrow> nat \<Rightarrow> u8 \<Rightarrow> u8 list \<Rightarrow> u8 list" where
  "rle_loop v w i lastv out =
     (if i < w then
        let run = run_of v i w lastv
        in if run \<ge> 3 then
             let (i', out') = rle_runs run i out in rle_loop v w i' lastv out'
           else
             let (j, raw, follow) = rle_raw v w i 0;
                 f = (if follow > 15 then 15 else follow);
                 out' = out @ control f raw # take raw (drop i v);
                 i' = j + f
             in rle_loop v w i' (v ! (i' - 1)) out'
      else out)"
  by pat_completeness auto
termination
proof (relation "measure (\<lambda>(v, w, i, lastv, out). w - i)", goal_cases)
  case (2 v w i lastv out run p i' out')
  then show ?case
    using rle_runs_advances[of i run out] by (cases "rle_runs run i out") auto
next
  case (3 v w i lastv out run p j q raw follow f out' i')
  then show ?case using rle_raw_advances[of v w i 0 j raw follow] by auto
qed simp

declare rle_loop.simps [simp del]

definition rle_line :: "u8 list \<Rightarrow> nat \<Rightarrow> u8 list" where
  "rle_line v w = rle_loop v w 0 0 []"

definition fold_delta :: "u8 \<Rightarrow> u8 \<Rightarrow> u8" where
  "fold_delta cur abv =
     (let d = sint (cur - abv)
      in if d \<ge> 0 then word_of_int (push_bit 1 d) else word_of_int (push_bit 1 (- d) - 1))"

text \<open>One scanline of one colour plane: \<open>row[x * 4 + byte]\<close>, rows from the bottom up.\<close>

definition plane_line :: "u8 list \<Rightarrow> nat \<Rightarrow> nat \<Rightarrow> nat \<Rightarrow> nat \<Rightarrow> nat \<Rightarrow> u8 list" where
  "plane_line pixels stride w h plane y =
     map (\<lambda>x. pixels ! ((h - 1 - y) * stride + (x * 4 + (2 - plane)))) [0..<w]"

definition coded_line :: "nat \<Rightarrow> u8 list \<Rightarrow> u8 list \<Rightarrow> u8 list" where
  "coded_line y line abv = (if y \<noteq> 0 then map2 fold_delta line abv else line)"

definition raw_size :: "u32 \<Rightarrow> u32 \<Rightarrow> nat" where
  "raw_size w h = 1 + 3 * unat w * unat h + 1"

text \<open>The loop over \<open>y\<close>; \<open>None\<close> is the jump to \<open>raw\<close>.\<close>

fun rle_rows :: "u8 list \<Rightarrow> nat \<Rightarrow> u32 \<Rightarrow> u32 \<Rightarrow> nat \<Rightarrow> nat list \<Rightarrow> u8 list \<Rightarrow> u8 list
    \<Rightarrow> (u8 list \<times> u8 list) option" where
  "rle_rows pixels stride w h plane [] abv out = Some (abv, out)"
| "rle_rows pixels stride w h plane (y # ys) abv out =
     (let line = plane_line pixels stride (unat w) (unat h) plane y;
          coded = coded_line y line abv
      in if length out + rle_line_bound w > raw_size w h then None
         else rle_rows pixels stride w h plane ys line (out @ rle_line coded (unat w)))"

fun rle_planes :: "u8 list \<Rightarrow> nat \<Rightarrow> u32 \<Rightarrow> u32 \<Rightarrow> nat list \<Rightarrow> u8 list \<Rightarrow> u8 list \<Rightarrow> u8 list option" where
  "rle_planes pixels stride w h [] abv out = Some out"
| "rle_planes pixels stride w h (p # ps) abv out =
     (case rle_rows pixels stride w h p [0..<unat h] abv out of
        None \<Rightarrow> None
      | Some (abv', out') \<Rightarrow> rle_planes pixels stride w h ps abv' out')"

definition raw_planes :: "u8 list \<Rightarrow> nat \<Rightarrow> u32 \<Rightarrow> u32 \<Rightarrow> u8 list" where
  "raw_planes pixels stride w h =
     HDR_NA # concat (map (\<lambda>p. concat (map (plane_line pixels stride (unat w) (unat h) p) [0..<unat h])) [0..<3])
       @ [0]"

text \<open>The bytes written to \<open>out\<close>; no byte (the return value 0) for a size it refuses.\<close>

definition sg_planar_encode :: "u8 list \<Rightarrow> nat \<Rightarrow> u32 \<Rightarrow> u32 \<Rightarrow> u8 list" where
  "sg_planar_encode pixels stride w h =
     (if w = 0 \<or> h = 0 \<or> unat w > MAX_SIDE \<or> unat h > MAX_SIDE then []
      else case rle_planes pixels stride w h [0..<3] [] [HDR_NA OR HDR_RLE] of
             Some out \<Rightarrow> if length out < raw_size w h then out else raw_planes pixels stride w h
           | None \<Rightarrow> raw_planes pixels stride w h)"

section \<open>The stream format\<close>

text \<open>
  A segment: the low nibble of the control byte is the run, the high nibble the
  number of raw values; 1 and 2 in the low nibble are the escapes for long runs
  with no raw values.
\<close>

definition segment :: "u8 \<Rightarrow> nat \<times> nat" where
  "segment c =
     (let run = unat c mod 16; raw = unat c div 16
      in if run = 1 then (raw + 16, 0) else if run = 2 then (raw + 32, 0) else (run, raw))"

text \<open>
  One scanline of \<open>w\<close> values: what is decoded and the bytes after it.  The last
  value is 0 at the start; a segment that is empty, runs out of bytes or crosses the
  end of the scanline is an error.
\<close>

function decode_line :: "nat \<Rightarrow> u8 \<Rightarrow> u8 list \<Rightarrow> (u8 list \<times> u8 list) option" where
  "decode_line w prev bs =
     (if w = 0 then Some ([], bs)
      else case bs of
        [] \<Rightarrow> None
      | c # bs' \<Rightarrow>
          (case segment c of (run, raw) \<Rightarrow>
             if run + raw = 0 \<or> run + raw > w \<or> raw > length bs' then None
             else let vals = take raw bs'; prev' = (if raw = 0 then prev else last vals)
                  in case decode_line (w - (run + raw)) prev' (drop raw bs') of
                       None \<Rightarrow> None
                     | Some (xs, r) \<Rightarrow> Some (vals @ replicate run prev' @ xs, r)))"
  by pat_completeness auto
termination by (relation "measure fst") auto

declare decode_line.simps [simp del]

definition unfold_delta :: "u8 \<Rightarrow> u8 \<Rightarrow> u8" where
  "unfold_delta e abv =
     abv + word_of_int (if even (uint e) then uint e div 2 else - ((uint e + 1) div 2))"

fun decode_rows :: "nat \<Rightarrow> nat \<Rightarrow> u8 list option \<Rightarrow> u8 list \<Rightarrow> (u8 list list \<times> u8 list) option" where
  "decode_rows w 0 prev bs = Some ([], bs)"
| "decode_rows w (Suc n) prev bs =
     (case decode_line w 0 bs of
        None \<Rightarrow> None
      | Some (vals, r) \<Rightarrow>
          let line = (case prev of None \<Rightarrow> vals | Some abv \<Rightarrow> map2 unfold_delta vals abv)
          in case decode_rows w n (Some line) r of
               None \<Rightarrow> None
             | Some (ls, r') \<Rightarrow> Some (line # ls, r'))"

fun decode_planes :: "nat \<Rightarrow> nat \<Rightarrow> nat \<Rightarrow> u8 list \<Rightarrow> (u8 list list list \<times> u8 list) option" where
  "decode_planes w h 0 bs = Some ([], bs)"
| "decode_planes w h (Suc n) bs =
     (case decode_rows w h None bs of
        None \<Rightarrow> None
      | Some (p, r) \<Rightarrow> (case decode_planes w h n r of None \<Rightarrow> None | Some (ps, r') \<Rightarrow> Some (p # ps, r')))"

definition decode_planar :: "nat \<Rightarrow> nat \<Rightarrow> u8 list \<Rightarrow> u8 list list list option" where
  "decode_planar w h bs =
     (case bs of
        [] \<Rightarrow> None
      | hdr # body \<Rightarrow>
          if hdr AND 0x0f \<noteq> 0 \<or> hdr AND HDR_NA = 0 then None
          else if hdr AND HDR_RLE \<noteq> 0 then
            (case decode_planes w h 3 body of Some (ps, []) \<Rightarrow> Some ps | _ \<Rightarrow> None)
          else if length body = 3 * (w * h) + 1 then
            Some (map (\<lambda>p. map (\<lambda>y. take w (drop (p * (w * h) + y * w) body)) [0..<h]) [0..<3])
          else None)"

text \<open>The three planes of a tile, as the encoder reads them.\<close>

definition tile_planes :: "u8 list \<Rightarrow> nat \<Rightarrow> nat \<Rightarrow> nat \<Rightarrow> u8 list list list" where
  "tile_planes pixels stride w h = map (\<lambda>p. map (plane_line pixels stride w h p) [0..<h]) [0..<3]"

section \<open>One scanline\<close>

lemma control_value:
  assumes "run < 16" and "raw < 16"
  shows "unat (control run raw) = run + 16 * raw"
proof -
  have mask: "(n :: nat) AND 15 = n mod 16" for n
    using take_bit_eq_mask[of 4 n] by (simp add: take_bit_eq_mod mask_eq_exp_minus_1)
  have "take_bit 4 run = run" using assms by (simp add: take_bit_nat_eq_self_iff)
  then have "run OR push_bit 4 raw = run + push_bit 4 raw"
    by (metis bit_push_bit_iff bit_take_bit_iff disjunctive_add linorder_not_le)
  then have nibbles: "(run AND 15) OR push_bit 4 (raw AND 15) = run + 16 * raw"
    using assms by (simp add: mask push_bit_eq_mult)
  have "unat (word_of_nat n :: u8) = n" if "n < 256" for n
    using that by (simp add: unsigned_of_nat take_bit_nat_eq_self_iff)
  then show ?thesis unfolding control_def nibbles using assms by (auto simp del: of_nat_add)
qed

lemma segment_control: "run < 16 \<Longrightarrow> raw < 16 \<Longrightarrow>
    segment (control run raw) =
      (if run = 1 then (raw + 16, 0) else if run = 2 then (raw + 32, 0) else (run, raw))"
  by (simp add: segment_def control_value)

lemma run_from_spec: "n \<le> run_from v i w val n \<and>
    (i + n \<le> w \<longrightarrow> i + run_from v i w val n \<le> w) \<and>
    (\<forall>k. n \<le> k \<and> k < run_from v i w val n \<longrightarrow> v ! (i + k) = val)"
proof (induction v i w val n rule: run_from.induct)
  case (1 v i w val n)
  show ?case
  proof (cases "i + n < w \<and> v ! (i + n) = val")
    case True
    then have eq: "run_from v i w val n = run_from v i w val (n + 1)"
      by (subst run_from.simps) simp
    have IH: "n + 1 \<le> run_from v i w val (n + 1)" "i + run_from v i w val (n + 1) \<le> w"
      "\<forall>k. n + 1 \<le> k \<and> k < run_from v i w val (n + 1) \<longrightarrow> v ! (i + k) = val"
      using 1[OF True] True by auto
    have "v ! (i + k) = val" if "n \<le> k" "k < run_from v i w val (n + 1)" for k
      using that IH(3) True by (cases "k = n") auto
    then show ?thesis using IH(1,2) unfolding eq by auto
  next
    case False
    then have "run_from v i w val n = n" by (subst run_from.simps) auto
    then show ?thesis by auto
  qed
qed

lemma run_of_in: "i \<le> w \<Longrightarrow> i + run_of v i w val \<le> w"
  using run_from_spec[of 0 v i w val] by (simp add: run_of_def)

lemma run_of_same: "k < run_of v i w val \<Longrightarrow> v ! (i + k) = val"
  using run_from_spec[of 0 v i w val] by (simp add: run_of_def)

text \<open>Decoded values in front of what the rest of the scanline decodes to.\<close>

definition prepend :: "'a list \<Rightarrow> ('a list \<times> 'b) option \<Rightarrow> ('a list \<times> 'b) option" where
  "prepend ys = map_option (\<lambda>(xs, r). (ys @ xs, r))"

lemma prepend_Nil [simp]: "prepend [] x = x"
  by (cases x) (auto simp: prepend_def)

lemma prepend_Some [simp]: "prepend ys (Some (xs, r)) = Some (ys @ xs, r)"
  by (simp add: prepend_def)

lemma prepend_prepend: "prepend ys (prepend zs x) = prepend (ys @ zs) x"
  by (cases x) (auto simp: prepend_def)

lemma decode_line_0 [simp]: "decode_line 0 prev bs = Some ([], bs)"
  by (simp add: decode_line.simps)

lemma decode_run:
  "segment c = (k, 0) \<Longrightarrow> 0 < k \<Longrightarrow> k \<le> w \<Longrightarrow>
    decode_line w prev (c # rest) = prepend (replicate k prev) (decode_line (w - k) prev rest)"
  by (subst decode_line.simps) (cases "decode_line (w - k) prev rest"; auto simp: prepend_def)

lemma decode_raw:
  "segment c = (run, length vals) \<Longrightarrow> vals \<noteq> [] \<Longrightarrow> run + length vals \<le> w \<Longrightarrow>
    decode_line w prev (c # vals @ rest) =
      prepend (vals @ replicate run (last vals)) (decode_line (w - (run + length vals)) (last vals) rest)"
  by (subst decode_line.simps, cases "decode_line (w - (run + length vals)) (last vals) rest"; cases "w = 0")
     (auto simp: prepend_def Let_def)

lemma rle_runs_spec:
  "\<exists>k bs. rle_runs run i out = (i + k, out @ bs) \<and> k \<le> run \<and> length bs \<le> k \<and> (3 \<le> run \<longrightarrow> 3 \<le> k) \<and>
     (\<forall>w prev rest. k \<le> w \<longrightarrow>
        decode_line w prev (bs @ rest) = prepend (replicate k prev) (decode_line (w - k) prev rest))"
proof (induction run i out rule: rle_runs.induct)
  case (1 run i out)
  show ?case
  proof (cases "run \<ge> 3")
    case True
    define cb where "cb = (if run \<ge> 32 then let c = (if run > 47 then 47 else run) in (c, control 2 (c - 32))
                      else if run \<ge> 16 then (run, control 1 (run - 16)) else (run, control run 0))"
    obtain c b where cb: "cb = (c, b)" by (cases cb)
    have c: "3 \<le> c" "c \<le> run" "segment b = (c, 0)"
      using True cb by (auto simp: cb_def Let_def segment_control split: if_splits)
    obtain k bs where IH: "rle_runs (run - c) (i + c) (out @ [b]) = (i + c + k, (out @ [b]) @ bs)"
        "k \<le> run - c" "length bs \<le> k"
        "\<And>w prev rest. k \<le> w \<Longrightarrow>
          decode_line w prev (bs @ rest) = prepend (replicate k prev) (decode_line (w - k) prev rest)"
      using 1[OF True, folded cb_def, OF cb[symmetric]] by blast
    have "rle_runs run i out = (i + (c + k), out @ (b # bs))"
      using True cb IH(1) by (subst rle_runs.simps, fold cb_def) simp
    moreover have "decode_line w prev ((b # bs) @ rest) =
        prepend (replicate (c + k) prev) (decode_line (w - (c + k)) prev rest)" if "c + k \<le> w" for w prev rest
      using that c IH(4)[of "w - c" prev rest]
      by (simp add: decode_run prepend_prepend replicate_add)
    ultimately show ?thesis using c IH(2,3)
      by (intro exI[of _ "c + k"] exI[of _ "b # bs"] conjI) simp_all
  next
    case False
    then show ?thesis by (intro exI[of _ 0] exI[of _ "[]"]) (simp add: rle_runs.simps)
  qed
qed

lemma rle_raw_spec:
  "rle_raw v w i raw = (j, r, f) \<Longrightarrow> i \<le> w \<Longrightarrow> raw \<le> 15 \<Longrightarrow>
     j \<le> w \<and> r \<le> 15 \<and> (f = 0 \<and> (j = w \<or> r = 15) \<or> 3 \<le> f \<and> f = run_of v j w (v ! (j - 1)))"
proof (induction v w i raw arbitrary: j r f rule: rle_raw.induct)
  case (1 v w i raw)
  show ?case
  proof (cases "i < w \<and> raw < 15 \<and> \<not> 3 \<le> run_of v (i + 1) w (v ! i)")
    case True
    then have "rle_raw v w (i + 1) (raw + 1) = (j, r, f)"
      using "1.prems" by (subst (asm) rle_raw.simps) simp
    then show ?thesis using "1.IH" True by simp
  next
    case False
    then show ?thesis using "1.prems" by (subst (asm) rle_raw.simps) (auto split: if_splits)
  qed
qed

lemma drop_run:
  assumes "\<And>m. m < k \<Longrightarrow> xs ! (i + m) = c" and "i + k \<le> length xs"
  shows "drop i xs = replicate k c @ drop (i + k) xs"
proof -
  have "take k (drop i xs) = replicate k c"
    using assms by (intro nth_equalityI) auto
  then show ?thesis using append_take_drop_id[of k "drop i xs"] by (simp add: add.commute)
qed

text \<open>A scanline from position \<open>i\<close> on: what the loop appends, its size and its meaning.\<close>

definition codes_from :: "u8 list \<Rightarrow> nat \<Rightarrow> nat \<Rightarrow> u8 \<Rightarrow> u8 list \<Rightarrow> bool" where
  "codes_from v w i lastv bs \<longleftrightarrow> length bs \<le> (w - i) + (w - i + 14) div 15 \<and>
     (\<forall>rest. decode_line (w - i) lastv (bs @ rest) = Some (drop i (take w v), rest))"

lemma codes_from_runs:
  assumes "codes_from v w (i + k) c bs2" and "i + k \<le> w" and "w \<le> length v" and "length bs1 \<le> k"
    and "\<And>m. m < k \<Longrightarrow> v ! (i + m) = c"
    and dec: "\<And>w prev rest. k \<le> w \<Longrightarrow>
        decode_line w prev (bs1 @ rest) = prepend (replicate k prev) (decode_line (w - k) prev rest)"
  shows "codes_from v w i c (bs1 @ bs2)"
proof -
  have "drop i (take w v) = replicate k c @ drop (i + k) (take w v)"
    using assms by (intro drop_run) auto
  then have "decode_line (w - i) c ((bs1 @ bs2) @ rest) = Some (drop i (take w v), rest)" for rest
    using assms(1,2) dec[of "w - i" c "bs2 @ rest"] by (simp add: codes_from_def)
  moreover have "length bs2 \<le> (w - (i + k)) + (w - (i + k) + 14) div 15"
    using assms(1) by (simp only: codes_from_def)
  then have "length (bs1 @ bs2) \<le> (w - i) + (w - i + 14) div 15"
    using assms(2,4) div_le_mono[of "w - (i + k) + 14" "w - i + 14" 15] unfolding length_append
    by linarith
  ultimately show ?thesis unfolding codes_from_def by blast
qed

lemma raw_segment_size:
  assumes "f = 0 \<and> (m = 0 \<or> r = 15) \<or> 3 \<le> f" and "0 < r"
  shows "1 + r + (m + (m + 14) div 15) \<le> m + r + f + (m + r + f + 14) div (15 :: nat)"
proof -
  consider "f = 0" "m = 0" | "f = 0" "r = 15" | "3 \<le> f" using assms(1) by blast
  then show ?thesis
  proof cases
    case 1
    then show ?thesis using assms(2) div_le_mono[of 15 "r + 14" 15] by simp
  next
    case 2
    have "(m + r + f + 14) div 15 = (m + 14) div 15 + 1"
      using 2 div_add_self2[of 15 "m + 14"] by (simp add: add.commute add.left_commute)
    then show ?thesis using 2 by simp
  next
    case 3
    then show ?thesis using div_le_mono[of "m + 14" "m + r + f + 14" 15] by simp
  qed
qed

lemma codes_from_raw:
  assumes "codes_from v w (j + f) (v ! (j - 1)) bs2" and "i < j" and "j + f \<le> w" and "w \<le> length v"
    and "j - i \<le> 15" and "f = 0 \<and> (j = w \<or> j - i = 15) \<or> 3 \<le> f \<and> f \<le> 15"
    and "\<And>m. m < f \<Longrightarrow> v ! (j + m) = v ! (j - 1)"
  shows "codes_from v w i c (control f (j - i) # take (j - i) (drop i v) @ bs2)"
proof -
  define vals where "vals = take (j - i) (drop i v)"
  have len: "j \<le> length v" using assms(3,4) by simp
  then have vals: "length vals = j - i" "vals \<noteq> []" "last vals = v ! (j - 1)"
    using assms(2) by (simp_all add: vals_def last_conv_nth)
  have seg: "segment (control f (j - i)) = (f, length vals)"
    using assms(5,6) vals by (auto simp: segment_control)
  have "drop i (take w v) = vals @ drop j (take w v)"
    using assms(2,3) append_take_drop_id[of "j - i" "drop i (take w v)"]
    by (simp add: vals_def drop_take min_absorb1)
  also have "drop j (take w v) = replicate f (v ! (j - 1)) @ drop (j + f) (take w v)"
    using assms(3,4,7) by (intro drop_run) simp_all
  finally have whole: "drop i (take w v) = vals @ replicate f (v ! (j - 1)) @ drop (j + f) (take w v)" .
  have rem: "w - i - (f + length vals) = w - (j + f)" using assms(2,3) vals(1) by simp
  have meaning: "decode_line (w - i) c (control f (j - i) # vals @ bs2 @ rest) = Some (drop i (take w v), rest)"
    for rest
  proof -
    have "decode_line (w - (j + f)) (last vals) (bs2 @ rest) = Some (drop (j + f) (take w v), rest)"
      using assms(1) by (simp only: codes_from_def vals(3))
    moreover have "f + length vals \<le> w - i" using assms(2,3) vals(1) by simp
    ultimately show ?thesis
      by (simp only: decode_raw[OF seg vals(2)] rem prepend_Some whole vals(3) append_assoc)
  qed
  have "1 + (j - i) + ((w - (j + f)) + (w - (j + f) + 14) div 15) \<le> (w - i) + (w - i + 14) div 15"
  proof -
    have eq: "w - i = (w - (j + f)) + (j - i) + f" using assms(2,3) by simp
    have "f = 0 \<and> (w - (j + f) = 0 \<or> j - i = 15) \<or> 3 \<le> f" "0 < j - i"
      using assms(2,6) by auto
    then show ?thesis unfolding eq by (rule raw_segment_size)
  qed
  moreover have "length bs2 \<le> (w - (j + f)) + (w - (j + f) + 14) div 15"
    using assms(1) by (simp only: codes_from_def)
  ultimately have "length (control f (j - i) # vals @ bs2) \<le> (w - i) + (w - i + 14) div 15"
    using vals(1) unfolding length_Cons length_append by linarith
  then show ?thesis
    using meaning unfolding codes_from_def vals_def[symmetric] by simp
qed

lemma rle_loop_spec:
  assumes "w \<le> length v"
  shows "i \<le> w \<Longrightarrow> \<exists>bs. rle_loop v w i lastv out = out @ bs \<and> codes_from v w i lastv bs"
proof (induction "w - i" arbitrary: i lastv out rule: less_induct)
  case less
  consider "i = w" | "i < w" "run_of v i w lastv \<ge> 3" | "i < w" "\<not> run_of v i w lastv \<ge> 3"
    using less.prems by linarith
  then show ?case
  proof cases
    case 1
    then show ?thesis by (subst rle_loop.simps) (simp add: codes_from_def)
  next
    case 2
    let ?run = "run_of v i w lastv"
    obtain k bs1 where k: "rle_runs ?run i out = (i + k, out @ bs1)" "k \<le> ?run" "length bs1 \<le> k" "3 \<le> k"
      "\<And>w prev rest. k \<le> w \<Longrightarrow>
        decode_line w prev (bs1 @ rest) = prepend (replicate k prev) (decode_line (w - k) prev rest)"
      using rle_runs_spec[of ?run i out] 2(2) by blast
    have in_w: "i + k \<le> w" using run_of_in[of i w v lastv] k(2) 2(1) by simp
    obtain bs2 where "rle_loop v w (i + k) lastv (out @ bs1) = (out @ bs1) @ bs2"
      and bs2: "codes_from v w (i + k) lastv bs2"
      using less.hyps[of "i + k" lastv "out @ bs1"] in_w k(4) 2(1) diff_less_mono2[of i "i + k" w] by auto
    then have "rle_loop v w i lastv out = out @ bs1 @ bs2"
      using 2 k(1) by (subst rle_loop.simps) simp
    moreover have "codes_from v w i lastv (bs1 @ bs2)"
      using codes_from_runs[OF bs2 in_w assms k(3) _ k(5)] run_of_same[of _ v i w lastv] k(2) by auto
    ultimately show ?thesis by blast
  next
    case 3
    obtain j raw follow where raw: "rle_raw v w i 0 = (j, raw, follow)" by (cases "rle_raw v w i 0")
    define f where "f = (if follow > 15 then 15 else follow)"
    have j: "i < j" "raw = j - i" "j \<le> w" "raw \<le> 15"
      "follow = 0 \<and> (j = w \<or> raw = 15) \<or> 3 \<le> follow \<and> follow = run_of v j w (v ! (j - 1))"
      using rle_raw_advances[OF raw] rle_raw_spec[OF raw] 3(1) by auto
    have same: "m < f \<Longrightarrow> v ! (j + m) = v ! (j - 1)" for m
      using j(5) run_of_same[of m v j w "v ! (j - 1)"] by (auto simp: f_def split: if_splits)
    have in_w: "j + f \<le> w" using j(3,5) run_of_in[of j w v "v ! (j - 1)"] by (auto simp: f_def)
    have prev: "v ! (j + f - 1) = v ! (j - 1)"
      using same[of "f - 1"] j(1) by (cases "f = 0") (auto simp: add_diff_assoc)
    let ?out = "out @ control f raw # take raw (drop i v)"
    obtain bs2 where "rle_loop v w (j + f) (v ! (j - 1)) ?out = ?out @ bs2"
      and bs2: "codes_from v w (j + f) (v ! (j - 1)) bs2"
      using less.hyps[of "j + f" "v ! (j - 1)" ?out] in_w j(1) 3(1) diff_less_mono2[of i "j + f" w] by auto
    then have "rle_loop v w i lastv out = out @ control f (j - i) # take (j - i) (drop i v) @ bs2"
      using 3 raw prev j(2) by (subst rle_loop.simps) (simp add: f_def[symmetric] Let_def)
    moreover have "codes_from v w i lastv (control f (j - i) # take (j - i) (drop i v) @ bs2)"
      using codes_from_raw[OF bs2 j(1) in_w assms] j same by (auto simp: f_def)
    ultimately show ?thesis by blast
  qed
qed

lemma rle_line_spec:
  assumes "w \<le> length v"
  shows "length (rle_line v w) \<le> w + (w + 14) div 15"
    and "decode_line w 0 (rle_line v w @ rest) = Some (take w v, rest)"
proof -
  obtain bs where "rle_line v w = bs" and "codes_from v w 0 0 bs"
    using rle_loop_spec[OF assms, of 0 0 "[]"] by (auto simp: rle_line_def)
  then show "length (rle_line v w) \<le> w + (w + 14) div 15"
    and "decode_line w 0 (rle_line v w @ rest) = Some (take w v, rest)"
    by (auto simp: codes_from_def)
qed

section \<open>The vertical delta\<close>

lemma sint_u8_range: "- 128 \<le> sint (d :: u8)" "sint (d :: u8) < 128"
  using sint_greater_eq[of d] sint_lt[of d] by simp_all

lemma uint_byte: "0 \<le> k \<Longrightarrow> k < 256 \<Longrightarrow> uint (word_of_int k :: u8) = k"
  by (simp add: unsigned_of_int take_bit_int_eq_self_iff)

lemma unfold_fold_delta [simp]: "unfold_delta (fold_delta cur abv) abv = cur"
proof -
  define d where "d = sint (cur - abv)"
  have d: "- 128 \<le> d" "d < 128" using sint_u8_range[of "cur - abv"] by (simp_all add: d_def)
  have cur: "word_of_int d = cur - abv" by (simp add: d_def)
  show ?thesis
  proof (cases "0 \<le> d")
    case True
    then have "fold_delta cur abv = word_of_int (2 * d)" "uint (word_of_int (2 * d) :: u8) = 2 * d"
      using d uint_byte[of "2 * d"] by (simp_all add: fold_delta_def Let_def d_def[symmetric] push_bit_eq_mult mult.commute)
    then show ?thesis using cur by (simp only: unfold_delta_def) simp
  next
    case False
    then have "fold_delta cur abv = word_of_int (2 * (- d) - 1)"
      "uint (word_of_int (2 * (- d) - 1) :: u8) = 2 * (- d) - 1"
      using d uint_byte[of "2 * (- d) - 1"]
      by (simp_all only: fold_delta_def Let_def d_def[symmetric] push_bit_eq_mult) (simp_all add: mult.commute)
    moreover have "odd (2 * (- d) - 1)" "- ((2 * (- d) - 1 + 1) div 2) = d" by simp_all
    ultimately show ?thesis using cur by (simp only: unfold_delta_def if_False) simp
  qed
qed

lemma unfold_coded_line:
  "length line = length abv \<Longrightarrow> map2 unfold_delta (map2 fold_delta line abv) abv = line"
  by (induction line abv rule: list_induct2) simp_all

section \<open>The whole tile\<close>

lemma length_plane_line [simp]: "length (plane_line px st w h p y) = w"
  by (simp add: plane_line_def)

lemma rle_rows_decode:
  "rle_rows px st w h p [y..<unat h] abv out = Some (abv', out') \<Longrightarrow> y \<noteq> 0 \<longrightarrow> length abv = unat w \<Longrightarrow>
     \<exists>bs. out' = out @ bs \<and>
       (\<forall>rest. decode_rows (unat w) (unat h - y) (if y = 0 then None else Some abv) (bs @ rest) =
          Some (map (plane_line px st (unat w) (unat h) p) [y..<unat h], rest))"
proof (induction "unat h - y" arbitrary: y abv out)
  case 0
  then show ?case by simp
next
  case (Suc n)
  let ?line = "plane_line px st (unat w) (unat h) p y"
  let ?coded = "coded_line y ?line abv"
  have y: "y < unat h" "[y..<unat h] = y # [Suc y..<unat h]" "unat h - y = Suc (unat h - Suc y)"
    and n: "n = unat h - Suc y"
    using Suc.hyps(2) by (simp_all add: upt_conv_Cons)
  then have "rle_rows px st w h p [Suc y..<unat h] ?line (out @ rle_line ?coded (unat w)) = Some (abv', out')"
    using Suc.prems(1) by (simp add: Let_def split: if_splits)
  then obtain bs where bs: "out' = (out @ rle_line ?coded (unat w)) @ bs"
      "\<And>rest. decode_rows (unat w) (unat h - Suc y) (Some ?line) (bs @ rest) =
        Some (map (plane_line px st (unat w) (unat h) p) [Suc y..<unat h], rest)"
    using Suc.hyps(1)[OF n, of ?line "out @ rle_line ?coded (unat w)"] by auto
  have len: "length ?coded = unat w" using Suc.prems(2) by (simp add: coded_line_def)
  have "(case (if y = 0 then None else Some abv) of None \<Rightarrow> ?coded | Some abv \<Rightarrow> map2 unfold_delta ?coded abv) = ?line"
    using Suc.prems(2) by (simp add: coded_line_def unfold_coded_line)
  then have "decode_rows (unat w) (unat h - y) (if y = 0 then None else Some abv)
      ((rle_line ?coded (unat w) @ bs) @ rest) =
      Some (map (plane_line px st (unat w) (unat h) p) [y..<unat h], rest)" for rest
    using rle_line_spec(2)[of "unat w" ?coded "bs @ rest"] len bs(2)[of rest] y by simp
  then show ?case using bs(1) by (intro exI[of _ "rle_line ?coded (unat w) @ bs"]) simp
qed

lemma rle_planes_decode:
  "rle_planes px st w h ps abv out = Some out' \<Longrightarrow>
     \<exists>bs. out' = out @ bs \<and>
       (\<forall>rest. decode_planes (unat w) (unat h) (length ps) (bs @ rest) =
          Some (map (\<lambda>p. map (plane_line px st (unat w) (unat h) p) [0..<unat h]) ps, rest))"
proof (induction ps arbitrary: abv out)
  case Nil
  then show ?case by simp
next
  case (Cons p ps)
  obtain abv1 out1 where rows: "rle_rows px st w h p [0..<unat h] abv out = Some (abv1, out1)"
    and rest: "rle_planes px st w h ps abv1 out1 = Some out'"
    using Cons.prems by (auto split: option.splits)
  obtain bs1 where bs1: "out1 = out @ bs1" "\<And>rest. decode_rows (unat w) (unat h) None (bs1 @ rest) =
      Some (map (plane_line px st (unat w) (unat h) p) [0..<unat h], rest)"
    using rle_rows_decode[OF rows] by auto
  obtain bs2 where "out' = out1 @ bs2" "\<And>rest. decode_planes (unat w) (unat h) (length ps) (bs2 @ rest) =
      Some (map (\<lambda>p. map (plane_line px st (unat w) (unat h) p) [0..<unat h]) ps, rest)"
    using Cons.IH[OF rest] by auto
  then show ?case using bs1 by (intro exI[of _ "bs1 @ bs2"]) simp
qed

lemma drop_concat_blocks:
  "\<forall>xs\<in>set xss. length xs = m \<Longrightarrow> k < length xss \<Longrightarrow>
     drop (k * m) (concat xss @ rest) = xss ! k @ concat (drop (Suc k) xss) @ rest"
proof (induction k arbitrary: xss)
  case 0
  then show ?case by (cases xss) auto
next
  case (Suc k)
  then obtain xs xss' where xss: "xss = xs # xss'" by (cases xss) auto
  then have "drop (Suc k * m) (concat xss @ rest) = drop (k * m) (concat xss' @ rest)"
    using Suc.prems(1) by (simp add: add.commute)
  then show ?case using Suc xss by simp
qed

lemma length_concat_blocks: "\<forall>xs\<in>set xss. length xs = m \<Longrightarrow> length (concat xss) = length xss * m"
  by (induction xss) auto

lemma raw_planes_decode:
  "decode_planar (unat w) (unat h) (raw_planes px st w h) = Some (tile_planes px st (unat w) (unat h))"
proof -
  let ?W = "unat w" and ?H = "unat h"
  let ?plane = "\<lambda>p. concat (map (plane_line px st ?W ?H p) [0..<?H])"
  let ?body = "concat (map ?plane [0..<3]) @ [0]"
  have plane: "length (?plane p) = ?W * ?H" for p
    using length_concat_blocks[of "map (plane_line px st ?W ?H p) [0..<?H]" ?W] by (auto simp: mult.commute)
  then have body: "length ?body = 3 * (?W * ?H) + 1"
    using length_concat_blocks[of "map ?plane [0..<3]" "?W * ?H"] by auto
  have line: "take ?W (drop (p * (?W * ?H) + y * ?W) ?body) = plane_line px st ?W ?H p y"
    if "p < 3" "y < ?H" for p y
  proof -
    have "drop (p * (?W * ?H)) ?body =
        map ?plane [0..<3] ! p @ concat (drop (Suc p) (map ?plane [0..<3])) @ [0]"
      using plane that(1) by (intro drop_concat_blocks) auto
    moreover have "map ?plane [0..<3] ! p = ?plane p" using that(1) by simp
    ultimately obtain r where "drop (p * (?W * ?H)) ?body = ?plane p @ r" by simp
    then have "drop (p * (?W * ?H) + y * ?W) ?body = drop (y * ?W) (?plane p @ r)"
      by (simp only: add.commute[of "p * (?W * ?H)"] drop_drop[symmetric])
    then show ?thesis
      using drop_concat_blocks[of "map (plane_line px st ?W ?H p) [0..<?H]" ?W y r] that(2) by auto
  qed
  have "decode_planar ?W ?H (raw_planes px st w h) =
      Some (map (\<lambda>p. map (\<lambda>y. take ?W (drop (p * (?W * ?H) + y * ?W) ?body)) [0..<?H]) [0..<3])"
    unfolding decode_planar_def raw_planes_def using body by (simp add: HDR_NA_def HDR_RLE_def)
  also have "\<dots> = Some (tile_planes px st ?W ?H)"
    unfolding tile_planes_def using line by (auto intro!: map_cong)
  finally show ?thesis .
qed

section \<open>Sizes\<close>

lemma rle_line_bound_value:
  assumes "unat w \<le> MAX_SIDE"
  shows "rle_line_bound w = unat w + (unat w + 14) div 15"
proof -
  have "unat (w + 14) = unat w + 14"
    using assms by (simp add: MAX_SIDE_def unat_word_ariths take_bit_nat_eq_self_iff)
  then show ?thesis by (simp add: rle_line_bound_def unat_div_distrib)
qed

lemma rle_rows_fit:
  assumes "unat w \<le> MAX_SIDE"
  shows "rle_rows px st w h p ys abv out = Some (abv', out') \<Longrightarrow>
    ys = [] \<or> hd ys = 0 \<or> length abv = unat w \<Longrightarrow> length out \<le> raw_size w h \<Longrightarrow>
    length out' \<le> raw_size w h"
proof (induction ys arbitrary: abv out)
  case Nil
  then show ?case by simp
next
  case (Cons y ys)
  let ?line = "plane_line px st (unat w) (unat h) p y"
  let ?out = "out @ rle_line (coded_line y ?line abv) (unat w)"
  have rest: "length out + rle_line_bound w \<le> raw_size w h"
    "rle_rows px st w h p ys ?line ?out = Some (abv', out')"
    using Cons.prems(1) by (auto simp: Let_def split: if_splits)
  have "unat w \<le> length (coded_line y ?line abv)"
    using Cons.prems(2) by (auto simp: coded_line_def)
  then have "length ?out \<le> raw_size w h"
    using rle_line_spec(1) rest(1) unfolding rle_line_bound_value[OF assms] length_append
    by (meson add_left_mono order_trans)
  then show ?case using Cons.IH[OF rest(2)] by simp
qed

lemma rle_planes_fit:
  assumes "unat w \<le> MAX_SIDE"
  shows "rle_planes px st w h ps abv out = Some out' \<Longrightarrow> length out \<le> raw_size w h \<Longrightarrow>
    length out' \<le> raw_size w h"
proof (induction ps arbitrary: abv out)
  case (Cons p ps)
  obtain abv1 out1 where rows: "rle_rows px st w h p [0..<unat h] abv out = Some (abv1, out1)"
    and rest: "rle_planes px st w h ps abv1 out1 = Some out'"
    using Cons.prems by (auto split: option.splits)
  have "length out1 \<le> raw_size w h"
    using rle_rows_fit[OF assms rows] Cons.prems(2) hd_upt[of 0 "unat h"] by (cases "unat h = 0") auto
  then show ?case by (rule Cons.IH[OF rest])
qed simp

lemma length_raw_planes: "length (raw_planes px st w h) = raw_size w h"
proof -
  have "length (concat (map (plane_line px st (unat w) (unat h) p) [0..<unat h])) = unat h * unat w" for p
    using length_concat_blocks[of "map (plane_line px st (unat w) (unat h) p) [0..<unat h]" "unat w"] by auto
  then have "length (concat (map (\<lambda>p. concat (map (plane_line px st (unat w) (unat h) p) [0..<unat h])) [0..<3]))
      = 3 * (unat h * unat w)"
    using length_concat_blocks[of "map (\<lambda>p. concat (map (plane_line px st (unat w) (unat h) p) [0..<unat h])) [0..<3]"
      "unat h * unat w"] by auto
  then show ?thesis by (simp add: raw_planes_def raw_size_def mult.commute)
qed

lemma raw_size_le_bound:
  assumes "unat w \<le> MAX_SIDE" and "unat h \<le> MAX_SIDE"
  shows "raw_size w h \<le> sg_planar_bound w h"
proof -
  have "unat w * unat h \<le> 8192 * 8192"
    using assms unfolding MAX_SIDE_def by (rule mult_le_mono)
  then have "1 + 3 * unat w * unat h + 1 < 2 ^ 64" by simp
  then have "raw_size w h = (1 + 3 * unat w * unat h + 1) mod 2 ^ 64"
    unfolding raw_size_def by (simp only: mod_less)
  then show ?thesis by (simp only: sg_planar_bound_def Let_def split: if_split) simp
qed

section \<open>What a tile's stream means\<close>

lemma planar_decodes:
  assumes "0 < w" and "0 < h" and "unat w \<le> MAX_SIDE" and "unat h \<le> MAX_SIDE"
  shows "decode_planar (unat w) (unat h) (sg_planar_encode pixels stride w h) =
    Some (tile_planes pixels stride (unat w) (unat h))"
proof (cases "rle_planes pixels stride w h [0..<3] [] [HDR_NA OR HDR_RLE]")
  case None
  then show ?thesis using assms raw_planes_decode by (auto simp: sg_planar_encode_def)
next
  case (Some out)
  obtain bs where bs: "out = [HDR_NA OR HDR_RLE] @ bs"
    "decode_planes (unat w) (unat h) 3 (bs @ []) = Some (tile_planes pixels stride (unat w) (unat h), [])"
    using rle_planes_decode[OF Some] by (auto simp: tile_planes_def)
  then have "decode_planar (unat w) (unat h) out = Some (tile_planes pixels stride (unat w) (unat h))"
    by (simp add: decode_planar_def HDR_NA_def HDR_RLE_def)
  then show ?thesis using Some assms raw_planes_decode by (auto simp: sg_planar_encode_def)
qed

text \<open>
  C13.  The encoder is lossless: for every size it accepts, the bytes \<open>sg_planar_encode\<close>
  writes are a stream of the format, and decoding it gives back the red, green and blue
  plane of the tile exactly, whether it took the run-length coding or fell back to raw
  planes.
\<close>

theorem planar_lossless:
  assumes "0 < w" and "0 < h" and "unat w \<le> MAX_SIDE" and "unat h \<le> MAX_SIDE"
  shows "decode_planar (unat w) (unat h) (sg_planar_encode pixels stride w h) =
    Some (tile_planes pixels stride (unat w) (unat h))"
  using assms by (rule planar_decodes)

theorem planar_lossless_witness:
  "decode_planar 2 2 (sg_planar_encode [1, 2, 3, 0, 4, 5, 6, 0, 7, 8, 9, 0, 10, 11, 12, 0] 8 2 2) =
     Some [[[9, 12], [3, 6]], [[8, 11], [2, 5]], [[7, 10], [1, 4]]]"
  using planar_lossless[of 2 2 "[1, 2, 3, 0, 4, 5, 6, 0, 7, 8, 9, 0, 10, 11, 12, 0]" 8]
  by (simp add: MAX_SIDE_def tile_planes_def plane_line_def upt_rec)

lemma planar_sizes:
  "length (sg_planar_encode pixels stride w h) \<le> sg_planar_bound w h \<and>
   length (sg_planar_encode pixels stride w h) \<le> raw_size w h \<and>
   (sg_planar_encode pixels stride w h = [] \<longleftrightarrow>
     w = 0 \<or> h = 0 \<or> unat w > MAX_SIDE \<or> unat h > MAX_SIDE)"
proof (cases "w = 0 \<or> h = 0 \<or> unat w > MAX_SIDE \<or> unat h > MAX_SIDE")
  case True
  then show ?thesis by (simp add: sg_planar_encode_def)
next
  case False
  then have sizes: "unat w \<le> MAX_SIDE" "unat h \<le> MAX_SIDE" by simp_all
  have start: "length [HDR_NA OR HDR_RLE] \<le> raw_size w h" by (simp add: raw_size_def)
  have "length (sg_planar_encode pixels stride w h) \<le> raw_size w h"
    using False rle_planes_fit[OF sizes(1) _ start] length_raw_planes[of pixels stride w h]
    by (auto simp: sg_planar_encode_def split: option.splits)
  moreover have "sg_planar_encode pixels stride w h \<noteq> []"
    using False rle_planes_decode[of pixels stride w h "[0..<3]" "[]" "[HDR_NA OR HDR_RLE]"]
    by (auto simp: sg_planar_encode_def raw_planes_def split: option.splits)
  ultimately show ?thesis using raw_size_le_bound[OF sizes] False by auto
qed

text \<open>
  C17.  The encoder never writes past its buffer and never makes a tile bigger than the
  raw planes: its output is at most \<open>raw_size\<close> bytes, which is within what
  \<open>sg_planar_bound\<close> tells the caller to allocate, and it is empty exactly for the
  sizes it refuses.
\<close>

theorem planar_fits:
  "length (sg_planar_encode pixels stride w h) \<le> sg_planar_bound w h \<and>
   length (sg_planar_encode pixels stride w h) \<le> raw_size w h \<and>
   (sg_planar_encode pixels stride w h = [] \<longleftrightarrow>
     w = 0 \<or> h = 0 \<or> unat w > MAX_SIDE \<or> unat h > MAX_SIDE)"
  by (rule planar_sizes)

end
