(* ===== verification/Sg_Wire.thy ===== *)
theory Sg_Wire
  imports Sg_Prelude
begin

text \<open>
  Framing.  Several daemons split in two: a small privileged process that reads
  requests from a socket one after another, and a client that writes them.  What the
  two rely on is a contract: a request written by the client is read back as that
  request, whatever follows it on the stream, so the two never lose step.  The locale
  \<open>framed\<close> states it for an encoder and a reader; \<open>served\<close> adds a loop that answers
  each request it reads.  Every such pair of the program is an interpretation, in the
  theory of its component.
\<close>

text \<open>A reader gives the request and the bytes after it, or the reason it stopped.\<close>

type_synonym ('e, 'r) reader = "bytes \<Rightarrow> 'e + ('r \<times> bytes)"

text \<open>A step that reads a field, or stops with a code.\<close>

definition or_exit :: "'e \<Rightarrow> 'a option \<Rightarrow> ('a \<Rightarrow> 'e + 'b) \<Rightarrow> 'e + 'b" where
  "or_exit e x k = (case x of None \<Rightarrow> Inl e | Some a \<Rightarrow> k a)"

lemma or_exit_Some [wire_simps, simp]: "or_exit e (Some a) k = k a"
  by (simp add: or_exit_def)

lemma or_exit_None [wire_simps, simp]: "or_exit e None k = Inl e"
  by (simp add: or_exit_def)

lemma or_exit_Inr: "or_exit e x k = Inr y \<longleftrightarrow> (\<exists>a. x = Some a \<and> k a = Inr y)"
  by (cases x) simp_all

fun read_n :: "('e, 'r) reader \<Rightarrow> nat \<Rightarrow> bytes \<Rightarrow> 'e + ('r list \<times> bytes)" where
  "read_n dec 0 bs = Inr ([], bs)"
| "read_n dec (Suc n) bs =
     (case dec bs of
        Inl e \<Rightarrow> Inl e
      | Inr (r, rest) \<Rightarrow>
          (case read_n dec n rest of Inl e \<Rightarrow> Inl e | Inr (rs, rest') \<Rightarrow> Inr (r # rs, rest')))"

locale framed =
  fixes enc :: "'r \<Rightarrow> bytes"
    and ok :: "'r \<Rightarrow> bool"
    and dec :: "('e, 'r) reader"
  assumes dec_enc: "ok r \<Longrightarrow> dec (enc r @ rest) = Inr (r, rest)"
    and dec_shrinks: "dec bs = Inr (r, rest) \<Longrightarrow> length rest < length bs"
begin

lemma read_written:
  "\<forall>r\<in>set rs. ok r \<Longrightarrow> read_n dec (length rs) (concat (map enc rs) @ rest) = Inr (rs, rest)"
  by (induction rs) (simp_all add: dec_enc)

text \<open>No request is a prefix of another one: the stream has one reading.\<close>

lemma enc_prefix_free:
  assumes "ok r" and "ok s" and "enc r @ x = enc s @ y"
  shows "r = s \<and> x = y"
proof -
  have "dec (enc r @ x) = Inr (r, x)" by (rule dec_enc[OF assms(1)])
  moreover have "dec (enc r @ x) = Inr (s, y)" unfolding assms(3) by (rule dec_enc[OF assms(2)])
  ultimately show ?thesis by simp
qed

lemma enc_not_Nil: "ok r \<Longrightarrow> enc r \<noteq> []"
  using dec_shrinks[OF dec_enc[of r "[]"]] by auto

lemma stream_unique:
  "\<forall>r\<in>set rs. ok r \<Longrightarrow> \<forall>s\<in>set ss. ok s \<Longrightarrow>
     concat (map enc rs) = concat (map enc ss) \<Longrightarrow> rs = ss"
proof (induction rs arbitrary: ss)
  case Nil
  then show ?case by (cases ss) (simp_all add: enc_not_Nil)
next
  case (Cons r rs)
  have "ss \<noteq> []" using Cons.prems enc_not_Nil[of r] by auto
  then obtain s ss' where ss: "ss = s # ss'" by (cases ss) simp_all
  have "ok r" "ok s" "enc r @ concat (map enc rs) = enc s @ concat (map enc ss')"
    using Cons.prems unfolding ss by simp_all
  from enc_prefix_free[OF this] have eq: "r = s" "concat (map enc rs) = concat (map enc ss')"
    by simp_all
  have "rs = ss'" by (rule Cons.IH[OF _ _ eq(2)]) (use Cons.prems(1,2) ss in simp_all)
  then show ?case using eq(1) ss by simp
qed

end

locale served = framed enc ok dec
  for enc :: "'r \<Rightarrow> bytes" and ok :: "'r \<Rightarrow> bool" and dec :: "('e, 'r) reader" +
  fixes answer :: "'r \<Rightarrow> 'a"
    and loop :: "bytes \<Rightarrow> 'a list \<times> 'e"
  assumes loop_step: "dec bs = Inr (r, rest) \<Longrightarrow> loop bs = (answer r # fst (loop rest), snd (loop rest))"
    and loop_stop: "dec bs = Inl e \<Longrightarrow> loop bs = ([], e)"
begin

lemma loop_requests:
  "\<forall>r\<in>set rs. ok r \<Longrightarrow>
     loop (concat (map enc rs) @ rest) = (map answer rs @ fst (loop rest), snd (loop rest))"
proof (induction rs)
  case (Cons r rs)
  then show ?case
    using loop_step[OF dec_enc[of r "concat (map enc rs) @ rest"]] by simp
qed simp

end

end
