(* ===== verification/Sg_Monitor.thy ===== *)
theory Sg_Monitor
  imports Sg_Wire
begin

text \<open>
  The root monitor of the elevation broker, \<open>broker/sg-brokerd.c\<close> up to line 325: the
  only part of the broker that keeps root.  It reads requests from the broker's
  unprivileged half and answers each with one byte: a password check (\<open>run_pamcheck\<close>,
  with \<open>MONITOR_LOGON\<close> under another PAM service), an answer to polkit
  (\<open>monitor_polkit\<close>) and a program as another account (\<open>monitor_spawn\<close>).  The client
  side (\<open>check_password_as\<close>, \<open>polkit_respond\<close>) is here too, and the two are proved to
  stay in step through the \<open>served\<close> locale.

  The system around the monitor is the record \<open>monitor_os\<close>: the accounts, the helper
  programs (what they exit with and print), the few files it looks at, and whether a
  program it starts can be started.  Memory allocation does not fail, and a reply can
  always be written.
\<close>

section \<open>Settings and the system\<close>

record broker_cfg =
  g_admin_group :: string
  g_system_user :: string
  g_polkit_respond :: string
  g_ticket_dir :: string
  g_elevated_run :: string
  g_launch_wine :: string
  g_launch_prefix :: string
  g_seat_dir :: string
  g_consent_ui :: string

definition default_cfg :: broker_cfg where
  "default_cfg = \<lparr>
     g_admin_group = ''sg-admins'',
     g_system_user = ''sgsystem'',
     g_polkit_respond = ''/usr/libexec/stained-glass/sg-polkit-respond'',
     g_ticket_dir = ''/run/stained-glass-broker/tickets'',
     g_elevated_run = ''/usr/libexec/stained-glass/sg-elevated-run'',
     g_launch_wine = ''/opt/wine-sg/bin/wine'',
     g_launch_prefix = ''/var/lib/stained-glass/prefix'',
     g_seat_dir = ''/run/stained-glass-seat/seat0'',
     g_consent_ui = ''/usr/lib/stained-glass/sg-consent-ui''\<rparr>"

text \<open>
  A program about to be run: the account it runs as (\<open>None\<close>: still root), its
  environment, the directories tried in turn as its working directory and its argument
  vector, whose first entry is the file executed.
\<close>

record child =
  ch_user :: "passwd option"
  ch_env :: env
  ch_dirs :: "string list"
  ch_argv :: "string list"

record monitor_os =
  mo_accounts :: accounts
  mo_pamcheck :: "string option \<Rightarrow> bytes \<Rightarrow> (wait_status \<times> bytes) option"
  mo_respond :: "string list \<Rightarrow> wait_status option"
  mo_readable :: "string \<Rightarrow> bool"
  mo_searchable :: "string \<Rightarrow> bool"
  mo_file :: "string \<Rightarrow> bytes option"
  mo_start :: "child \<Rightarrow> wait_status option"

definition MAXFIELD :: nat where "MAXFIELD = 256"
definition MAXBLOB :: nat where "MAXBLOB = 65536"
definition MONITOR_POLKIT :: u32 where "MONITOR_POLKIT = 0xffffffff"
definition MONITOR_LOGON :: u32 where "MONITOR_LOGON = 0xfffffffe"
definition MONITOR_SPAWN :: u32 where "MONITOR_SPAWN = 0xfffffffd"

lemmas monitor_consts = MAXFIELD_def MAXBLOB_def MONITOR_POLKIT_def MONITOR_LOGON_def MONITOR_SPAWN_def

text \<open>An example system: the helper takes the password \<open>pw\<close>, every helper and program starts.\<close>

definition ex_os :: monitor_os where
  "ex_os = \<lparr>
     mo_accounts = ex_accounts,
     mo_pamcheck = (\<lambda>service input.
       if input = cput ''alice'' @ cput ''pw'' then Some (Exited 0, ''OK alice'') else Some (Exited 1, ''FAIL'')),
     mo_respond = (\<lambda>argv. Some (Exited 0)),
     mo_readable = (\<lambda>path. False),
     mo_searchable = (\<lambda>path. False),
     mo_file = (\<lambda>path. None),
     mo_start = (\<lambda>c. Some (Exited 0))\<rparr>"

section \<open>What the monitor does\<close>

definition is_admin_name :: "broker_cfg \<Rightarrow> accounts \<Rightarrow> string \<Rightarrow> bool" where
  "is_admin_name cfg acc name =
     (case (getgrnam acc (g_admin_group cfg), getpwnam acc name) of
        (Some gr, Some pw) \<Rightarrow> pw_gid pw = gr_gid gr \<or> name \<in> set (gr_mem gr)
      | _ \<Rightarrow> False)"

text \<open>
  The helper gets the name and the password on its standard input, each with its NUL;
  one read of up to 63 bytes is its answer.
\<close>

definition run_pamcheck :: "monitor_os \<Rightarrow> string \<Rightarrow> string \<Rightarrow> string option \<Rightarrow> bool" where
  "run_pamcheck os user pass service =
     (case mo_pamcheck os service (cput user @ cput pass) of
        None \<Rightarrow> False
      | Some (status, out) \<Rightarrow> status = Exited 0 \<and> starts ''OK'' (cstr (take 63 out)))"

definition cookie_char :: "char \<Rightarrow> bool" where
  "cookie_char c \<longleftrightarrow> islower c \<or> isupper c \<or> isdigit c \<or> c \<in> set ''-_.:''"

definition monitor_polkit :: "broker_cfg \<Rightarrow> monitor_os \<Rightarrow> u32 \<Rightarrow> u32 \<Rightarrow> string \<Rightarrow> bool" where
  "monitor_polkit cfg os agent_uid identity_uid cookie =
     (let sys = getpwnam (mo_accounts os) (g_system_user cfg)
      in if agent_uid = 0 \<or> (case sys of Some s \<Rightarrow> agent_uid = pw_uid s | None \<Rightarrow> False) then False
         else case getpwuid (mo_accounts os) identity_uid of
           None \<Rightarrow> False
         | Some ident \<Rightarrow>
             if \<not> is_admin_name cfg (mo_accounts os) (snprintf_s MAXFIELD (pw_name ident)) then False
             else if cookie = [] then False
             else if \<not> list_all cookie_char cookie then False
             else mo_respond os [g_polkit_respond cfg, show_u32 agent_uid, cookie, show_u32 identity_uid]
                    = Some (Exited 0))"

definition runtime_dir :: "uid_t \<Rightarrow> string" where
  "runtime_dir uid = ''/run/user/'' @ show_u32 uid"

definition session_env_path :: "uid_t \<Rightarrow> string" where
  "session_env_path uid = ''/run/user/'' @ show_u32 uid @ ''/sg-session.env''"

text \<open>One line of \<open>sg-session.env\<close>: a quoted value loses its first and last character.\<close>

definition session_env_line :: "bytes \<Rightarrow> env \<Rightarrow> env" where
  "session_env_line raw e =
     (let line = before (cstr raw) {LF}
      in case strchr line CHR ''='' of
           None \<Rightarrow> e
         | Some rest \<Rightarrow>
             let name = before line {CHR ''=''};
                 v = tl rest;
                 v' = (if v \<noteq> [] \<and> (hd v = CHR 0x27 \<or> hd v = DQ)
                       then (if length v \<ge> 2 then take (length v - 2) (tl v) else tl v) else v)
             in if name = ''DISPLAY'' \<or> name = ''WAYLAND_DISPLAY'' \<or> name = ''XDG_RUNTIME_DIR''
                then setenv name v' e else e)"

definition session_display_env :: "monitor_os \<Rightarrow> uid_t \<Rightarrow> env \<Rightarrow> env" where
  "session_display_env os uid e =
     (let e' = (if mo_searchable os (runtime_dir uid) then setenv ''XDG_RUNTIME_DIR'' (runtime_dir uid) e else e)
      in case mo_file os (session_env_path uid) of
           None \<Rightarrow> e'
         | Some text \<Rightarrow> fold session_env_line (fgets_all 512 text) e')"

text \<open>The environment made from the account alone.\<close>

definition account_env :: "broker_cfg \<Rightarrow> passwd \<Rightarrow> string \<Rightarrow> env" where
  "account_env cfg pw ticket =
     [''HOME'' \<mapsto> pw_dir pw,
      ''USER'' \<mapsto> pw_name pw,
      ''LOGNAME'' \<mapsto> pw_name pw,
      ''SHELL'' \<mapsto> (if pw_shell pw \<noteq> [] then pw_shell pw else ''/bin/sh''),
      ''PATH'' \<mapsto> ''/opt/wine-sg/bin:/usr/local/bin:/usr/bin:/bin'',
      ''LANG'' \<mapsto> ''C.UTF-8'',
      ''WINEPREFIX'' \<mapsto> g_launch_prefix cfg,
      ''SG_LAUNCH_TICKET'' \<mapsto> ticket]"

text \<open>The fields of a spawn request: directory, ticket, compositor socket, requester, arguments.\<close>

definition spawn_fields :: "bytes \<Rightarrow> (string \<times> string \<times> string \<times> string \<times> string list) option" where
  "spawn_fields blob =
     (if blob = [] \<or> last blob \<noteq> NUL then None
      else let ticket = cskip blob in if ticket = [] then None
      else let control = cskip ticket in if control = [] then None
      else let requester = cskip control in if requester = [] then None
      else let args = cstrings 254 (cskip requester)
      in if args = [] then None
         else Some (cstr blob, cstr ticket, cstr control, cstr requester, args))"

text \<open>The program the request stands for; \<open>None\<close> is every refusal before the fork.\<close>

definition spawn_child :: "broker_cfg \<Rightarrow> monitor_os \<Rightarrow> u32 \<Rightarrow> bytes \<Rightarrow> child option" where
  "spawn_child cfg os uid blob =
     (case getpwuid (mo_accounts os) uid of
        None \<Rightarrow> None
      | Some pw \<Rightarrow>
          if uid < 1000 \<or> (case getpwnam (mo_accounts os) (g_system_user cfg) of
                             Some s \<Rightarrow> uid = pw_uid s | None \<Rightarrow> False) then None
          else case spawn_fields blob of
            None \<Rightarrow> None
          | Some (cwd, ticket, control, requester, args) \<Rightarrow>
              let argv = g_launch_wine cfg # args;
                  dir = (if cwd \<noteq> [] then [cwd] else [])
              in if \<not> mo_readable os (session_env_path uid) \<and> control \<noteq> [] then
                   Some \<lparr>ch_user = None,
                         ch_env = setenv ''SG_SYSTEM_USER'' (g_system_user cfg) (account_env cfg pw ticket),
                         ch_dirs = dir @ [''/''],
                         ch_argv = [g_elevated_run cfg, ''--control'', control, ''--uid'', requester,
                                    ''--as-uid'', show_u32 uid, ''--''] @ take 255 argv\<rparr>
                 else
                   Some \<lparr>ch_user = Some pw,
                         ch_env = session_display_env os (pw_uid pw) (account_env cfg pw ticket),
                         ch_dirs = dir @ [pw_dir pw, ''/''],
                         ch_argv = argv\<rparr>)"

definition monitor_spawn :: "broker_cfg \<Rightarrow> monitor_os \<Rightarrow> u32 \<Rightarrow> bytes \<Rightarrow> bool" where
  "monitor_spawn cfg os uid blob =
     (case spawn_child cfg os uid blob of None \<Rightarrow> False | Some c \<Rightarrow> mo_start os c = Some (Exited 0))"

section \<open>The monitor's loop\<close>

datatype mon_req =
    Spawn u32 bytes
  | Polkit u32 u32 bytes
  | Check "string option" bytes bytes

definition read_check :: "string option \<Rightarrow> u32 \<Rightarrow> (nat, mon_req) reader" where
  "read_check service ulen bs =
     or_exit 0 (read_u32 bs) (\<lambda>(plen, bs).
       if unat ulen \<ge> MAXFIELD \<or> unat plen \<ge> MAXFIELD then Inl 1
       else or_exit 0 (read_full (unat ulen) bs) (\<lambda>(user, bs).
            or_exit 0 (read_full (unat plen) bs) (\<lambda>(pass, bs).
            Inr (Check service user pass, bs))))"

definition mon_read :: "(nat, mon_req) reader" where
  "mon_read bs =
     or_exit 0 (read_u32 bs) (\<lambda>(ulen, bs).
       if ulen = MONITOR_SPAWN then
         or_exit 0 (read_u32 bs) (\<lambda>(uid, bs). or_exit 0 (read_u32 bs) (\<lambda>(blen, bs).
           if unat blen > MAXBLOB then Inl 0
           else or_exit 0 (read_full (unat blen) bs) (\<lambda>(blob, bs). Inr (Spawn uid blob, bs))))
       else if ulen = MONITOR_POLKIT then
         or_exit 0 (read_u32 bs) (\<lambda>(agent, bs). or_exit 0 (read_u32 bs) (\<lambda>(ident, bs).
         or_exit 0 (read_u32 bs) (\<lambda>(clen, bs).
           if unat clen \<ge> MAXFIELD then Inl 0
           else or_exit 0 (read_full (unat clen) bs) (\<lambda>(cookie, bs). Inr (Polkit agent ident cookie, bs)))))
       else if ulen = MONITOR_LOGON then
         or_exit 0 (read_u32 bs) (\<lambda>(ulen, bs). read_check (Some ''stained-glass-logon'') ulen bs)
       else read_check None ulen bs)"

text \<open>The answer to one request, and the seconds it is held back.\<close>

fun monitor_answer :: "broker_cfg \<Rightarrow> monitor_os \<Rightarrow> mon_req \<Rightarrow> bool \<times> nat" where
  "monitor_answer cfg os (Spawn uid blob) = (monitor_spawn cfg os uid blob, 0)"
| "monitor_answer cfg os (Polkit agent ident cookie) = (monitor_polkit cfg os agent ident (cstr cookie), 0)"
| "monitor_answer cfg os (Check service user pass) =
     (let ok = run_pamcheck os (cstr user) (cstr pass) service in (ok, if ok then 0 else 2))"

lemma read_full_shrinks: "read_full n bs = Some (b, r) \<Longrightarrow> length r \<le> length bs"
  by (auto simp: read_full_Some)

lemma read_check_shrinks: "read_check sv ulen bs = Inr (r, rest) \<Longrightarrow> length rest < length bs"
  by (auto simp: read_check_def or_exit_Inr split: if_splits dest!: read_u32_shrinks read_full_shrinks)

lemma mon_read_shrinks: "mon_read bs = Inr (r, rest) \<Longrightarrow> length rest < length bs"
  by (auto simp: mon_read_def or_exit_Inr split: if_splits
    dest!: read_u32_shrinks read_full_shrinks read_check_shrinks)

text \<open>The answers in turn, and what the monitor exits with.\<close>

function monitor_loop :: "broker_cfg \<Rightarrow> monitor_os \<Rightarrow> bytes \<Rightarrow> (bool \<times> nat) list \<times> nat" where
  "monitor_loop cfg os bs =
     (case mon_read bs of
        Inl e \<Rightarrow> ([], e)
      | Inr (req, rest) \<Rightarrow>
          (case monitor_loop cfg os rest of (as, e) \<Rightarrow> (monitor_answer cfg os req # as, e)))"
  by pat_completeness auto
termination
  by (relation "measure (\<lambda>(cfg, os, bs). length bs)") (auto intro: mon_read_shrinks)

declare monitor_loop.simps [simp del]

section \<open>The client side\<close>

text \<open>
  What the broker's unprivileged half gets back for the bytes it wrote: the byte the
  monitor answers with, if it answers.
\<close>

definition monitor_reply :: "broker_cfg \<Rightarrow> monitor_os \<Rightarrow> bytes \<Rightarrow> bool option" where
  "monitor_reply cfg os bs =
     (case fst (monitor_loop cfg os bs) of [] \<Rightarrow> None | (ok, _) # _ \<Rightarrow> Some ok)"

definition check_password_as :: "(bytes \<Rightarrow> bool option) \<Rightarrow> string \<Rightarrow> string \<Rightarrow> bool \<Rightarrow> bool" where
  "check_password_as mon user pass logon =
     (let ulen = word_of_nat (length user) :: u32; plen = word_of_nat (length pass) :: u32
      in if unat ulen \<ge> MAXFIELD \<or> unat plen \<ge> MAXFIELD then False
         else mon ((if logon then le32 MONITOR_LOGON else []) @ le32 ulen @ le32 plen
                   @ take (unat ulen) user @ take (unat plen) pass) = Some True)"

definition check_password :: "(bytes \<Rightarrow> bool option) \<Rightarrow> string \<Rightarrow> string \<Rightarrow> bool" where
  "check_password mon user pass = check_password_as mon user pass False"

definition polkit_respond :: "(bytes \<Rightarrow> bool option) \<Rightarrow> uid_t \<Rightarrow> uid_t \<Rightarrow> string \<Rightarrow> bool" where
  "polkit_respond mon agent_uid identity_uid cookie =
     (let clen = word_of_nat (length cookie) :: u32
      in if unat clen \<ge> MAXFIELD then False
         else mon (le32 MONITOR_POLKIT @ le32 agent_uid @ le32 identity_uid @ le32 clen
                   @ take (unat clen) cookie) = Some True)"

section \<open>The two halves stay in step\<close>

text \<open>A request as the client writes it, and the requests it can write.\<close>

fun mon_enc :: "mon_req \<Rightarrow> bytes" where
  "mon_enc (Spawn uid blob) = le32 MONITOR_SPAWN @ le32 uid @ le32 (word_of_nat (length blob)) @ blob"
| "mon_enc (Polkit agent ident cookie) =
     le32 MONITOR_POLKIT @ le32 agent @ le32 ident @ le32 (word_of_nat (length cookie)) @ cookie"
| "mon_enc (Check service user pass) =
     (if service = None then [] else le32 MONITOR_LOGON)
       @ le32 (word_of_nat (length user)) @ le32 (word_of_nat (length pass)) @ user @ pass"

fun mon_ok :: "mon_req \<Rightarrow> bool" where
  "mon_ok (Spawn uid blob) \<longleftrightarrow> length blob \<le> MAXBLOB"
| "mon_ok (Polkit agent ident cookie) \<longleftrightarrow> length cookie < MAXFIELD"
| "mon_ok (Check service user pass) \<longleftrightarrow>
     (service = None \<or> service = Some ''stained-glass-logon'') \<and>
     length user < MAXFIELD \<and> length pass < MAXFIELD"

lemma unat_word_of_nat_u32 [wire_simps]: "n < 4294967296 \<Longrightarrow> unat (word_of_nat n :: u32) = n"
  by (simp add: unsigned_of_nat take_bit_nat_eq_self_iff)

lemma short_not_marker:
  "n < MAXFIELD \<Longrightarrow> (word_of_nat n :: u32) \<notin> {MONITOR_SPAWN, MONITOR_POLKIT, MONITOR_LOGON}"
proof
  assume n: "n < MAXFIELD" and "(word_of_nat n :: u32) \<in> {MONITOR_SPAWN, MONITOR_POLKIT, MONITOR_LOGON}"
  then have "unat (word_of_nat n :: u32) \<ge> 256" by (auto simp: monitor_consts)
  then show False using n unat_word_of_nat_u32[of n] by (simp add: MAXFIELD_def)
qed

lemma read_check_written [wire_simps]:
  assumes "length user < MAXFIELD" and "length pass < MAXFIELD"
  shows "read_check service (word_of_nat (length user)) (le32 (word_of_nat (length pass)) @ user @ pass @ rest)
    = Inr (Check service user pass, rest)"
  using assms unfolding read_check_def
  by (simp add: wire_simps MAXFIELD_def)

lemma mon_read_enc: "mon_ok r \<Longrightarrow> mon_read (mon_enc r @ rest) = Inr (r, rest)"
proof (cases r)
  case (Check service user pass)
  assume "mon_ok r"
  then show ?thesis
    using Check short_not_marker[of "length user"]
    by (auto simp: mon_read_def wire_simps) (simp_all add: monitor_consts)
next
  case (Polkit agent ident cookie)
  assume "mon_ok r"
  then show ?thesis using Polkit
    by (simp add: mon_read_def wire_simps MAXFIELD_def) (simp add: monitor_consts)
next
  case (Spawn uid blob)
  assume "mon_ok r"
  then show ?thesis using Spawn by (simp add: mon_read_def wire_simps MAXBLOB_def)
qed

interpretation broker_mon: served mon_enc mon_ok mon_read "monitor_answer cfg os" "monitor_loop cfg os"
  for cfg os
proof unfold_locales
  fix r rest
  show "mon_ok r \<Longrightarrow> mon_read (mon_enc r @ rest) = Inr (r, rest)" by (rule mon_read_enc)
next
  fix bs r rest
  show "mon_read bs = Inr (r, rest) \<Longrightarrow> length rest < length bs" by (rule mon_read_shrinks)
  show "mon_read bs = Inr (r, rest) \<Longrightarrow>
      monitor_loop cfg os bs = (monitor_answer cfg os r # fst (monitor_loop cfg os rest), snd (monitor_loop cfg os rest))"
    by (subst monitor_loop.simps) (simp split: prod.splits)
next
  fix bs e
  show "mon_read bs = Inl e \<Longrightarrow> monitor_loop cfg os bs = ([], e)"
    by (subst monitor_loop.simps) simp
qed

lemma monitor_loop_Nil [simp]: "monitor_loop cfg os [] = ([], 0)"
  by (subst monitor_loop.simps) (simp add: mon_read_def read_u32_def read_full_def)

lemma monitor_reply_enc: "mon_ok r \<Longrightarrow> monitor_reply cfg os (mon_enc r) = Some (fst (monitor_answer cfg os r))"
  using broker_mon.loop_requests[of "[r]" cfg os "[]"] by (auto simp: monitor_reply_def split: prod.splits)

text \<open>
  C14.  The broker and its root monitor never lose step: whatever sequence of requests
  the broker writes (password checks, logon checks, polkit answers, programs to start,
  in any order), the monitor reads exactly those requests and answers each in turn; a
  length is never taken for a marker, a field never runs into the next request, and the
  monitor exits with 0 at the end of the stream.
\<close>

theorem monitor_in_step:
  assumes "\<forall>r\<in>set rs. mon_ok r"
  shows "monitor_loop cfg os (concat (map mon_enc rs)) = (map (monitor_answer cfg os) rs, 0)"
  using broker_mon.loop_requests[OF assms, of cfg os "[]"] by simp

theorem monitor_in_step_witness:
  "monitor_loop default_cfg ex_os (mon_enc (Check None ''alice'' ''pw'') @ mon_enc (Check None ''bob'' ''pw''))
     = ([(True, 0), (False, 2)], 0)"
  using monitor_in_step[of "[Check None ''alice'' ''pw'', Check None ''bob'' ''pw'']" default_cfg ex_os]
  by (simp add: MAXFIELD_def run_pamcheck_def ex_os_def cput_def cstr_def starts_def)

lemma check_password_as_iff:
  assumes "nul_free user" and "nul_free pass" and "length user < 2 ^ 32" and "length pass < 2 ^ 32"
  shows "check_password_as (monitor_reply cfg os) user pass logon \<longleftrightarrow>
    length user < MAXFIELD \<and> length pass < MAXFIELD \<and>
    (\<exists>out. mo_pamcheck os (if logon then Some ''stained-glass-logon'' else None) (cput user @ cput pass)
        = Some (Exited 0, out) \<and> starts ''OK'' (cstr (take 63 out)))"
proof -
  let ?r = "Check (if logon then Some ''stained-glass-logon'' else None) user pass"
  have len: "unat (word_of_nat (length user) :: u32) = length user" "unat (word_of_nat (length pass) :: u32) = length pass"
    using assms(3,4) unat_word_of_nat_u32 by simp_all
  have "check_password_as (monitor_reply cfg os) user pass logon \<longleftrightarrow>
      mon_ok ?r \<and> monitor_reply cfg os (mon_enc ?r) = Some True"
    by (auto simp: check_password_as_def Let_def len)
  also have "\<dots> \<longleftrightarrow> mon_ok ?r \<and> run_pamcheck os user pass (if logon then Some ''stained-glass-logon'' else None)"
    using monitor_reply_enc[of ?r cfg os] assms(1,2) by (auto simp: Let_def cstr_whole)
  finally show ?thesis
    by (auto simp: run_pamcheck_def split: option.splits)
qed

section \<open>A program as another account\<close>

lemma session_env_line_keeps:
  "k \<notin> {''DISPLAY'', ''WAYLAND_DISPLAY'', ''XDG_RUNTIME_DIR''} \<Longrightarrow> session_env_line l e k = e k"
  by (auto simp: session_env_line_def Let_def split: option.splits)

lemma session_display_env_keeps:
  assumes "k \<notin> {''DISPLAY'', ''WAYLAND_DISPLAY'', ''XDG_RUNTIME_DIR''}"
  shows "session_display_env os uid e k = e k"
proof -
  have "fold session_env_line ls e k = e k" for ls e
    by (induction ls arbitrary: e) (simp_all add: session_env_line_keeps[OF assms])
  then show ?thesis
    using assms by (auto simp: session_display_env_def Let_def split: option.splits)
qed

text \<open>The variables a program started by the monitor can have.\<close>

definition spawn_names :: "string set" where
  "spawn_names = {''HOME'', ''USER'', ''LOGNAME'', ''SHELL'', ''PATH'', ''LANG'', ''WINEPREFIX'',
     ''SG_LAUNCH_TICKET'', ''SG_SYSTEM_USER'', ''DISPLAY'', ''WAYLAND_DISPLAY'', ''XDG_RUNTIME_DIR''}"

lemma account_env_dom: "k \<notin> spawn_names \<Longrightarrow> account_env cfg pw ticket k = None"
  by (auto simp: account_env_def spawn_names_def)

text \<open>
  C15.  A program the monitor starts never runs as root, as the SYSTEM account or as
  another system account: the uid is an existing account's, at least 1000.  It runs
  either as that account itself or through sg-elevated-run told to become that very
  uid, and then only with Wine as the program.  Its environment comes from the account
  and the broker's settings alone: no variable outside the fixed set, and the search
  path, home directory and Wine prefix are fixed, whatever the request says.
\<close>

theorem monitor_spawn_confined:
  assumes "spawn_child cfg os uid blob = Some c"
  shows "1000 \<le> uid \<and>
    (\<forall>s. getpwnam (mo_accounts os) (g_system_user cfg) = Some s \<longrightarrow> uid \<noteq> pw_uid s) \<and>
    (\<exists>pw. getpwuid (mo_accounts os) uid = Some pw \<and>
      (ch_user c = Some pw \<and> hd (ch_argv c) = g_launch_wine cfg \<or>
       ch_user c = None \<and>
       (\<exists>control requester args. ch_argv c = [g_elevated_run cfg, ''--control'', control, ''--uid'', requester,
          ''--as-uid'', show_u32 uid, ''--'', g_launch_wine cfg] @ args)) \<and>
      ch_env c ''HOME'' = Some (pw_dir pw) \<and> ch_env c ''USER'' = Some (pw_name pw) \<and>
      ch_env c ''PATH'' = Some ''/opt/wine-sg/bin:/usr/local/bin:/usr/bin:/bin'' \<and>
      ch_env c ''WINEPREFIX'' = Some (g_launch_prefix cfg) \<and>
      dom (ch_env c) \<subseteq> spawn_names)"
proof -
  obtain pw where pw: "getpwuid (mo_accounts os) uid = Some pw"
    using assms by (auto simp: spawn_child_def split: option.splits)
  have guard: "\<not> uid < 1000"
    "\<not> (case getpwnam (mo_accounts os) (g_system_user cfg) of Some s \<Rightarrow> uid = pw_uid s | None \<Rightarrow> False)"
    using assms pw by (auto simp: spawn_child_def split: if_splits)
  obtain cwd ticket control requester args where
    f: "spawn_fields blob = Some (cwd, ticket, control, requester, args)"
    using assms pw guard by (auto simp: spawn_child_def split: option.splits if_splits)
  define E where "E = account_env cfg pw ticket"
  have kept: "ch_env c k = E k" if "k \<notin> {''DISPLAY'', ''WAYLAND_DISPLAY'', ''XDG_RUNTIME_DIR'', ''SG_SYSTEM_USER''}" for k
    using assms pw guard f that
    by (auto simp: spawn_child_def Let_def E_def session_display_env_keeps split: if_splits)
  have "dom (ch_env c) \<subseteq> spawn_names"
  proof
    fix k assume k: "k \<in> dom (ch_env c)"
    show "k \<in> spawn_names"
    proof (rule ccontr)
      assume out: "k \<notin> spawn_names"
      then have "ch_env c k = E k" by (intro kept) (auto simp: spawn_names_def)
      then show False using k account_env_dom[OF out, of cfg pw ticket] by (simp add: E_def domIff)
    qed
  qed
  moreover have "ch_user c = Some pw \<and> hd (ch_argv c) = g_launch_wine cfg \<or>
       ch_user c = None \<and>
       (\<exists>control requester args. ch_argv c = [g_elevated_run cfg, ''--control'', control, ''--uid'', requester,
          ''--as-uid'', show_u32 uid, ''--'', g_launch_wine cfg] @ args)"
    using assms pw guard f by (auto simp: spawn_child_def Let_def split: if_splits)
  moreover have "ch_env c ''HOME'' = Some (pw_dir pw)" "ch_env c ''USER'' = Some (pw_name pw)"
    "ch_env c ''PATH'' = Some ''/opt/wine-sg/bin:/usr/local/bin:/usr/bin:/bin''"
    "ch_env c ''WINEPREFIX'' = Some (g_launch_prefix cfg)"
    by (simp_all add: kept) (simp_all add: E_def account_env_def)
  moreover have "1000 \<le> uid" using guard(1) by (simp add: not_less)
  ultimately show ?thesis using pw guard(2) by auto
qed

theorem monitor_spawn_witness:
  "\<exists>c. spawn_child default_cfg ex_os 1001 (''/tmp'' @ [NUL] @ ''t'' @ [NUL] @ [NUL] @ ''1002'' @ [NUL] @ ''notepad'' @ [NUL]) = Some c
     \<and> ch_env c ''HOME'' = Some ''/home/alice'' \<and> dom (ch_env c) \<subseteq> spawn_names"
proof -
  let ?blob = "''/tmp'' @ [NUL] @ ''t'' @ [NUL] @ [NUL] @ ''1002'' @ [NUL] @ ''notepad'' @ [NUL]"
  have "spawn_fields ?blob = Some (''/tmp'', ''t'', [], ''1002'', [''notepad''])"
    by (simp add: spawn_fields_def cskip_def cstr_def cstrings.simps)
  then have "\<exists>c. spawn_child default_cfg ex_os 1001 ?blob = Some c"
    by (simp add: spawn_child_def ex_os_def ex_defs default_cfg_def)
  then obtain c where c: "spawn_child default_cfg ex_os 1001 ?blob = Some c" ..
  have "getpwuid (mo_accounts ex_os) 1001 = Some (ex_account ''alice'' 1001)" by (simp add: ex_os_def ex_defs)
  then show ?thesis using monitor_spawn_confined[OF c] c by (auto simp: ex_account_def)
qed

end
