(* ===== verification/Sg_Logon.thy ===== *)
theory Sg_Logon
  imports Sg_Monitor
begin

text \<open>
  The broker's audit records, its ticket directory and LogonUser,
  \<open>broker/sg-brokerd.c\<close> lines 327 to 559: the text of an audit record (\<open>audit\<close>), the
  one-time logon tickets (\<open>make_ticket\<close>, \<open>sweep_tickets\<close>), the limit on failed logons
  (\<open>logon_rate_limited\<close>) and the handler of a logon request (\<open>handle_logon\<close>).

  The state that outlives a request is the record \<open>broker\<close>: the table of recent
  failures and the ticket directory.  What a handler does to the outside is its list of
  \<open>effect\<close>s, in order.  The record \<open>broker_os\<close> is the system: accounts, the environment,
  the monitor, the sockets of compositors, the random bytes a request gets.  The clock
  is the argument \<open>now\<close>.
\<close>

section \<open>State, system and effects\<close>

record ticket_file =
  tf_text :: bytes
  tf_regular :: bool
  tf_mode :: nat
  tf_uid :: uid_t
  tf_mtime :: time_t

record rate_slot =
  rl_uid :: uid_t
  rl_start :: time_t
  rl_failures :: u32

record broker =
  logon_rate :: "rate_slot list"
  tickets :: "string \<rightharpoonup> ticket_file"

text \<open>
  A listening socket: the uid of the process behind it (\<open>SO_PEERCRED\<close>) and what it
  answers to a command.
\<close>

record peer =
  peer_uid :: "uid_t option"
  peer_answer :: "string \<Rightarrow> bytes option"

record broker_os =
  bo_accounts :: accounts
  bo_getenv :: "string \<Rightarrow> string option"
  bo_monitor :: "bytes \<Rightarrow> bool option"
  bo_hostname :: "string option"
  bo_euid :: uid_t
  bo_random :: "u8 list option"
  bo_can_write :: bool
  bo_socket :: "string \<Rightarrow> peer option"
  bo_ui_starts :: bool
  bo_can_fork :: bool

datatype effect =
    AskPam string string
  | Audit nat bool nat "string list"
  | Reply bytes
  | Command string string
  | StartUi string string string string
  | TellUi string
  | StopUi
  | AnswerPolkit u32 u32 string
  | LaunchAs u32 bytes
  | LaunchElevated child bool

section \<open>The audit spool\<close>

definition audit_clean :: "string \<Rightarrow> string" where
  "audit_clean s = map (\<lambda>c. if c = LF \<or> c = CR then CHR '' '' else c) s"

definition audit_text :: "nat \<Rightarrow> bool \<Rightarrow> nat \<Rightarrow> time_t \<Rightarrow> string list \<Rightarrow> string" where
  "audit_text ident success category now strings =
     ''ID '' @ show_nat ident @ [LF] @ ''TYPE '' @ (if success then ''success'' else ''failure'') @ [LF]
     @ ''CATEGORY '' @ show_nat category @ [LF] @ ''TIME '' @ show_int now @ [LF]
     @ concat (map (\<lambda>s. ''STRING '' @ audit_clean s @ [LF]) strings)"

definition computer_name :: "broker_os \<Rightarrow> string" where
  "computer_name os =
     (let name = (case bo_hostname os of Some h \<Rightarrow> take 63 h | None \<Rightarrow> ''localhost'')
      in map toupper (before name {CHR ''.''}))"

definition ADMIN_PRIVILEGES :: string where
  "ADMIN_PRIVILEGES = ''SeSecurityPrivilege, SeBackupPrivilege, SeRestorePrivilege, SeTakeOwnershipPrivilege, '' @
     ''SeDebugPrivilege, SeSystemEnvironmentPrivilege, SeLoadDriverPrivilege, SeImpersonatePrivilege''"

definition BROKER_PROCESS :: string where
  "BROKER_PROCESS = ''sg-brokerd (Run as administrator)''"

section \<open>Tickets\<close>

definition TICKET_LIFETIME :: int where "TICKET_LIFETIME = 30"

definition sweep_tickets :: "time_t \<Rightarrow> (string \<rightharpoonup> ticket_file) \<Rightarrow> (string \<rightharpoonup> ticket_file)" where
  "sweep_tickets now d =
     (\<lambda>n. case d n of
        None \<Rightarrow> None
      | Some f \<Rightarrow> if starts ''.'' n then Some f
                  else if tf_mtime f + 2 * TICKET_LIFETIME < now then None else Some f)"

definition hex_digit :: "nat \<Rightarrow> char" where
  "hex_digit n = (if n < 10 then char_of (48 + n) else char_of (87 + n))"

definition hex2 :: "u8 \<Rightarrow> string" where
  "hex2 b = [hex_digit (unat b div 16), hex_digit (unat b mod 16)]"

definition ticket_text :: "uid_t \<Rightarrow> uid_t \<Rightarrow> u32 \<Rightarrow> time_t \<Rightarrow> string" where
  "ticket_text target requester type expires =
     ''uid='' @ show_u32 target @ [LF] @ ''for='' @ show_u32 requester @ [LF]
     @ ''type='' @ show_u32 type @ [LF] @ ''expires='' @ show_int expires @ [LF]"

definition make_ticket :: "broker_os \<Rightarrow> time_t \<Rightarrow> uid_t \<Rightarrow> uid_t \<Rightarrow> u32 \<Rightarrow> (string \<rightharpoonup> ticket_file)
    \<Rightarrow> (string \<times> (string \<rightharpoonup> ticket_file)) option" where
  "make_ticket os now target requester type d =
     (case bo_random os of
        None \<Rightarrow> None
      | Some rnd \<Rightarrow>
          let name = concat (map hex2 rnd)
          in if d name \<noteq> None \<or> \<not> bo_can_write os then None
             else Some (name, d(name \<mapsto> \<lparr>tf_text = ticket_text target requester type (now + TICKET_LIFETIME),
                                         tf_regular = True, tf_mode = 384, tf_uid = bo_euid os, tf_mtime = now\<rparr>)))"

text \<open>The file is made with mode octal 600, which is 384, and only where there was none.\<close>

section \<open>The limit on failed logons\<close>

definition LOGON_WINDOW :: int where "LOGON_WINDOW = 60"
definition RATE_SLOTS :: nat where "RATE_SLOTS = 64"

text \<open>The search: the slot, and whether it is this user's already.\<close>

fun rate_find :: "uid_t \<Rightarrow> rate_slot list \<Rightarrow> nat \<Rightarrow> time_t \<Rightarrow> nat \<Rightarrow> nat \<times> bool" where
  "rate_find uid [] i oldest slot = (slot, False)"
| "rate_find uid (s # ss) i oldest slot =
     (if rl_uid s = uid \<and> rl_start s \<noteq> 0 then (i, True)
      else if rl_start s < oldest then rate_find uid ss (i + 1) (rl_start s) i
      else rate_find uid ss (i + 1) oldest slot)"

definition logon_limit :: "broker_os \<Rightarrow> u32" where
  "logon_limit os = (case bo_getenv os ''SG_LOGON_FAILURES'' of Some v \<Rightarrow> strtou32 v | None \<Rightarrow> 5)"

text \<open>The slot after the window has been looked at.\<close>

definition rate_slot_now :: "uid_t \<Rightarrow> time_t \<Rightarrow> rate_slot list \<Rightarrow> nat \<Rightarrow> bool \<Rightarrow> rate_slot" where
  "rate_slot_now uid now tab slot found =
     (let s = (if found then tab ! slot else \<lparr>rl_uid = uid, rl_start = now, rl_failures = 0\<rparr>)
      in if now - rl_start s \<ge> LOGON_WINDOW then s\<lparr>rl_start := now, rl_failures := 0\<rparr> else s)"

definition logon_rate_limited :: "u32 \<Rightarrow> time_t \<Rightarrow> uid_t \<Rightarrow> bool \<Rightarrow> rate_slot list \<Rightarrow> bool \<times> rate_slot list" where
  "logon_rate_limited limit now uid failed tab =
     (case rate_find uid tab 0 now 0 of
        (slot, found) \<Rightarrow>
          let s = rate_slot_now uid now tab slot found;
              s' = (if failed then s\<lparr>rl_failures := rl_failures s + 1\<rparr> else s)
          in (rl_failures s' \<ge> limit, tab[slot := s']))"

section \<open>A logon request\<close>

definition logon_type_text :: "u32 \<Rightarrow> string" where
  "logon_type_text type =
     (if type = 2 then ''2 (Interactive)''
      else if type = 3 then ''3 (Network)''
      else if type = 4 then ''4 (Batch)''
      else if type = 5 then ''5 (Service)''
      else if type = 7 then ''7 (Unlock)''
      else if type = 8 then ''8 (NetworkCleartext)''
      else ''2 (Interactive)'')"

text \<open>A \<open>char\<close> is signed here: a byte from 128 up is negative, so less than 32.\<close>

definition plain_char :: "char \<Rightarrow> char" where
  "plain_char c = (if sint (word_of_nat (code c) :: u8) < 32 \<or> code c = 127 \<or> c = DQ then CHR ''?'' else c)"

definition plain_text :: "nat \<Rightarrow> string \<Rightarrow> string" where
  "plain_text sz s = map plain_char (take (sz - 1) s)"

definition name_char :: "char \<Rightarrow> bool" where
  "name_char c \<longleftrightarrow> islower c \<or> isupper c \<or> isdigit c \<or> c \<in> set ''-_.''"

definition plain_name :: "string \<Rightarrow> bool" where
  "plain_name s \<longleftrightarrow> s \<noteq> [] \<and> length s \<le> 64 \<and> list_all name_char s"

text \<open>The value the last entry that starts with the prefix gives.\<close>

definition env_value :: "string \<Rightarrow> string list \<Rightarrow> string option" where
  "env_value p envp = fold (\<lambda>e acc. if starts p e then Some (drop (length p) e) else acc) envp None"

text \<open>
  The account a request logs on to, and whether the password was looked at: the tests
  of the condition in their order.
\<close>

definition logon_account :: "broker_cfg \<Rightarrow> broker_os \<Rightarrow> string option \<Rightarrow> string option
    \<Rightarrow> passwd option \<times> effect list" where
  "logon_account cfg os user pass =
     (case (user, pass) of
        (Some u, Some p) \<Rightarrow>
          if \<not> plain_name u then (None, [])
          else (case getpwnam (bo_accounts os) u of
             None \<Rightarrow> (None, [])
           | Some tpw \<Rightarrow>
               if pw_uid tpw = 0 \<or> pw_name tpw = g_system_user cfg then (None, [])
               else (if check_password_as (bo_monitor os) u p True then Some tpw else None, [AskPam u p]))
      | _ \<Rightarrow> (None, []))"

text \<open>What the request says of itself, made fit for the log.\<close>

definition logon_type :: "string list \<Rightarrow> u32" where
  "logon_type envp = (case env_value ''LOGON_TYPE='' envp of Some t \<Rightarrow> strtou32 t | None \<Rightarrow> 2)"

definition logon_acct :: "string list \<Rightarrow> string" where
  "logon_acct envp =
     plain_text 80 (case env_value ''LOGON_USER='' envp of
                      Some u \<Rightarrow> if plain_name u then u else ''(a bad name)''
                    | None \<Rightarrow> ''(a bad name)'')"

definition logon_process :: "int \<Rightarrow> passwd \<Rightarrow> string list \<Rightarrow> string" where
  "logon_process pid rpw envp =
     (let prog = plain_text 160 (case env_value ''LOGON_PROGRAM='' envp of Some p \<Rightarrow> p | None \<Rightarrow> ''-'')
      in snprintf_s 256 (''LogonUser by '' @ pw_name rpw @ '', '' @ prog @ '' (pid '' @ show_int pid @ '')''))"

definition logon_refusal :: "bool \<Rightarrow> string" where
  "logon_refusal limited = (if limited then ''Too many failed logons: try again later.''
                            else ''Unknown user name or bad password.'')"

definition ticket_reply :: "string \<Rightarrow> bytes" where
  "ticket_reply name = ''TICKET '' @ name @ [LF]"

definition status_reply :: "nat \<Rightarrow> effect" where
  "status_reply n = Reply [char_of n]"

definition handle_logon :: "broker_cfg \<Rightarrow> broker_os \<Rightarrow> time_t \<Rightarrow> uid_t \<Rightarrow> int \<Rightarrow> passwd \<Rightarrow> string list
    \<Rightarrow> broker \<Rightarrow> broker \<times> effect list" where
  "handle_logon cfg os now uid pid rpw envp st =
     (let swept = sweep_tickets now (tickets st);
          (limited, rate) = logon_rate_limited (logon_limit os) now uid False (logon_rate st);
          (tpw, asked) = (if limited then (None, [])
                          else logon_account cfg os (env_value ''LOGON_USER='' envp) (env_value ''LOGON_PASSWORD='' envp))
      in case tpw of
           Some t \<Rightarrow>
             (case make_ticket os now (pw_uid t) uid (logon_type envp) swept of
                Some (name, d) \<Rightarrow>
                  (\<lparr>logon_rate = rate, tickets = d\<rparr>,
                   asked @ [Audit 4624 True 12544 [logon_acct envp, computer_name os, logon_type_text (logon_type envp),
                              logon_process pid rpw envp, ''-''],
                            status_reply 0, Reply (ticket_reply name)])
              | None \<Rightarrow> (\<lparr>logon_rate = rate, tickets = swept\<rparr>, asked @ [status_reply 2]))
         | None \<Rightarrow>
             (\<lparr>logon_rate = (if limited then rate
                             else snd (logon_rate_limited (logon_limit os) now uid True rate)),
               tickets = swept\<rparr>,
              asked @ [Audit 4625 False 12544 [logon_acct envp, computer_name os, logon_type_text (logon_type envp),
                         logon_refusal limited, logon_process pid rpw envp, ''-''],
                       status_reply 1]))"

section \<open>Audit records\<close>

lemma audit_clean_one_line: "LF \<notin> set (audit_clean s)" "CR \<notin> set (audit_clean s)"
  by (auto simp: audit_clean_def)

section \<open>The table of failures as a map\<close>

text \<open>What the table says of each user: when the window began and the failures in it.\<close>

definition rate_abs :: "rate_slot list \<Rightarrow> uid_t \<Rightarrow> (time_t \<times> u32) option" where
  "rate_abs tab uid = map_option (\<lambda>s. (rl_start s, rl_failures s)) (find (\<lambda>s. rl_uid s = uid \<and> rl_start s \<noteq> 0) tab)"

definition rate_spec :: "u32 \<Rightarrow> time_t \<Rightarrow> bool \<Rightarrow> (time_t \<times> u32) option \<Rightarrow> bool \<times> (time_t \<times> u32)" where
  "rate_spec limit now failed x =
     (let (start, n) = (case x of Some (start, n) \<Rightarrow> if now - start \<ge> LOGON_WINDOW then (now, 0) else (start, n)
                                | None \<Rightarrow> (now, 0));
          n' = (if failed then n + 1 else n)
      in (n' \<ge> limit, (start, n')))"

text \<open>One slot per user, and no window begins before time 0.\<close>

definition rate_wf :: "rate_slot list \<Rightarrow> bool" where
  "rate_wf tab \<longleftrightarrow> length tab = RATE_SLOTS \<and> (\<forall>s\<in>set tab. 0 \<le> rl_start s) \<and>
     distinct (map rl_uid (filter (\<lambda>s. rl_start s \<noteq> 0) tab))"

definition rate_empty :: "rate_slot list" where
  "rate_empty = replicate RATE_SLOTS \<lparr>rl_uid = 0, rl_start = 0, rl_failures = 0\<rparr>"

lemma rate_wf_empty: "rate_wf rate_empty"
  by (simp add: rate_wf_def rate_empty_def)

lemma rate_abs_empty: "rate_abs rate_empty uid = None"
  by (simp add: rate_abs_def rate_empty_def find_None_iff)

lemma rate_find_found:
  "rate_find uid tab i oldest slot = (k, True) \<Longrightarrow>
     \<exists>a s b. tab = a @ s # b \<and> k = i + length a \<and> rl_uid s = uid \<and> rl_start s \<noteq> 0 \<and>
       (\<forall>x\<in>set a. \<not> (rl_uid x = uid \<and> rl_start x \<noteq> 0))"
proof (induction uid tab i oldest slot rule: rate_find.induct)
  case (2 uid s ss i oldest slot)
  show ?case
  proof (cases "rl_uid s = uid \<and> rl_start s \<noteq> 0")
    case True
    then show ?thesis using 2 by (intro exI[of _ "[]"]) simp
  next
    case False
    then have "\<exists>a s' b. ss = a @ s' # b \<and> k = i + 1 + length a \<and> rl_uid s' = uid \<and> rl_start s' \<noteq> 0 \<and>
       (\<forall>x\<in>set a. \<not> (rl_uid x = uid \<and> rl_start x \<noteq> 0))"
      using 2 by (simp split: if_splits)
    then obtain a s' b where "ss = a @ s' # b" "k = i + 1 + length a" "rl_uid s' = uid" "rl_start s' \<noteq> 0"
       "\<forall>x\<in>set a. \<not> (rl_uid x = uid \<and> rl_start x \<noteq> 0)" by blast
    then show ?thesis using False
      by (intro exI[of _ "s # a"] exI[of _ s'] exI[of _ b]) auto
  qed
qed simp

lemma rate_find_free:
  "rate_find uid tab i oldest slot = (k, False) \<Longrightarrow> \<forall>s\<in>set tab. 0 \<le> rl_start s \<Longrightarrow> 0 < oldest \<Longrightarrow>
     (\<forall>s\<in>set tab. \<not> (rl_uid s = uid \<and> rl_start s \<noteq> 0)) \<and>
     ((\<exists>s\<in>set tab. rl_start s = 0) \<longrightarrow> i \<le> k \<and> k - i < length tab \<and> rl_start (tab ! (k - i)) = 0)"
proof (induction tab arbitrary: i oldest slot)
  case (Cons s ss)
  have not: "\<not> (rl_uid s = uid \<and> rl_start s \<noteq> 0)" using Cons.prems(1) by (auto split: if_splits)
  show ?case
  proof (cases "rl_start s = 0")
    case True
    have zero: "rate_find uid ss j 0 sl = (k', b) \<Longrightarrow> \<forall>x\<in>set ss. 0 \<le> rl_start x \<Longrightarrow>
        b \<or> k' = sl \<and> (\<forall>x\<in>set ss. \<not> (rl_uid x = uid \<and> rl_start x \<noteq> 0))" for j sl k' b
      by (induction ss arbitrary: j) (auto split: if_splits)
    show ?thesis using Cons.prems True not zero[of "i + 1" i k False] by (auto split: if_splits)
  next
    case False
    then have pos: "0 < rl_start s" using Cons.prems(2) by auto
    obtain o' s' where rec: "rate_find uid ss (i + 1) o' s' = (k, False)" "0 < o'"
      using Cons.prems not pos by (auto split: if_splits)
    have "(\<forall>s\<in>set ss. \<not> (rl_uid s = uid \<and> rl_start s \<noteq> 0)) \<and>
      ((\<exists>s\<in>set ss. rl_start s = 0) \<longrightarrow> i + 1 \<le> k \<and> k - (i + 1) < length ss \<and> rl_start (ss ! (k - (i + 1))) = 0)"
      using Cons.IH[OF rec(1) _ rec(2)] Cons.prems(2) by simp
    then show ?thesis using False not by (auto simp: nth_Cons' Suc_diff_le)
  qed
qed simp

lemma rate_find_bound:
  "rate_find uid tab i oldest slot = (k, found) \<Longrightarrow> k = slot \<or> i \<le> k \<and> k < i + length tab"
  by (induction uid tab i oldest slot rule: rate_find.induct) (auto split: if_splits)

lemma rate_abs_update:
  assumes "\<forall>x\<in>set a. \<not> (rl_uid x = uid \<and> rl_start x \<noteq> 0)" and "rl_start s = 0 \<or> rl_uid s = uid"
    and "rl_uid s' = uid" and "rl_start s' \<noteq> 0"
  shows "rate_abs (a @ s' # b) = (rate_abs (a @ s # b))(uid \<mapsto> (rl_start s', rl_failures s'))"
proof
  fix u
  have "find (\<lambda>s. rl_uid s = uid \<and> rl_start s \<noteq> 0) (a @ s' # b) = Some s'"
    using assms(1,3,4) by (induction a) auto
  moreover have "find (\<lambda>s. rl_uid s = u \<and> rl_start s \<noteq> 0) (a @ s' # b) =
      find (\<lambda>s. rl_uid s = u \<and> rl_start s \<noteq> 0) (a @ s # b)" if "u \<noteq> uid"
    using that assms(2,3) by (induction a) auto
  ultimately show "rate_abs (a @ s' # b) u = ((rate_abs (a @ s # b))(uid \<mapsto> (rl_start s', rl_failures s'))) u"
    by (cases "u = uid") (simp_all add: rate_abs_def)
qed

lemma rate_wf_update:
  assumes "rate_wf (a @ s # b)" and "\<forall>x\<in>set (a @ b). \<not> (rl_uid x = rl_uid s' \<and> rl_start x \<noteq> 0)"
    and "0 \<le> rl_start s'"
  shows "rate_wf (a @ s' # b)"
proof -
  have "distinct (map rl_uid (filter (\<lambda>s. rl_start s \<noteq> 0) (a @ b)))"
    using assms(1) by (auto simp: rate_wf_def split: if_splits)
  then have "distinct (map rl_uid (filter (\<lambda>s. rl_start s \<noteq> 0) (a @ s' # b)))"
    using assms(2) by (auto simp: image_iff)
  then show ?thesis using assms by (auto simp: rate_wf_def)
qed

text \<open>The slot of a request: the user's own, or the one the new entry takes.\<close>

lemma rate_find_split:
  assumes "rate_wf tab" and "0 < now" and "rate_find uid tab 0 now 0 = (k, found)"
  obtains a s b where "tab = a @ s # b" and "k = length a" and
    "\<forall>x\<in>set (a @ b). \<not> (rl_uid x = uid \<and> rl_start x \<noteq> 0)" and
    "found \<longleftrightarrow> rl_uid s = uid \<and> rl_start s \<noteq> 0" and
    "rate_abs tab uid = (if found then Some (rl_start s, rl_failures s) else None)" and
    "\<not> found \<and> (\<exists>x\<in>set tab. rl_start x = 0) \<longrightarrow> rl_start s = 0"
proof (cases found)
  case True
  then obtain a s b where tab: "tab = a @ s # b" "k = length a" "rl_uid s = uid" "rl_start s \<noteq> 0"
      "\<forall>x\<in>set a. \<not> (rl_uid x = uid \<and> rl_start x \<noteq> 0)"
    using rate_find_found[of uid tab 0 now 0 k] assms(3) by auto
  have "\<forall>x\<in>set b. \<not> (rl_uid x = uid \<and> rl_start x \<noteq> 0)"
    using assms(1) tab(3,4) unfolding tab(1) rate_wf_def by (auto simp: image_iff)
  moreover have "find (\<lambda>s. rl_uid s = uid \<and> rl_start s \<noteq> 0) tab = Some s"
    using tab(3-5) unfolding tab(1) by (induction a) auto
  ultimately show ?thesis using that[of a s b] tab True by (auto simp: rate_abs_def)
next
  case False
  have "length tab = 64" using assms(1) by (simp add: rate_wf_def RATE_SLOTS_def)
  then have k: "k < length tab" using rate_find_bound[OF assms(3)] by auto
  have free: "\<forall>s\<in>set tab. \<not> (rl_uid s = uid \<and> rl_start s \<noteq> 0)"
    "(\<exists>s\<in>set tab. rl_start s = 0) \<Longrightarrow> rl_start (tab ! k) = 0"
    using rate_find_free[of uid tab 0 now 0 k] assms False by (auto simp: rate_wf_def)
  have "rate_abs tab uid = None" using free(1) by (auto simp: rate_abs_def find_None_iff)
  moreover have "tab = take k tab @ tab ! k # drop (Suc k) tab" using k by (rule id_take_nth_drop)
  ultimately show ?thesis
    using that[of "take k tab" "tab ! k" "drop (Suc k) tab"] free k False
    by (auto dest: in_set_takeD in_set_dropD)
qed

lemma rate_slot_now_abs:
  assumes "k = length a" and "tab = a @ s # b" and "0 < now"
    and "rate_abs tab uid = (if found then Some (rl_start s, rl_failures s) else None)"
    and "found \<longleftrightarrow> rl_uid s = uid \<and> rl_start s \<noteq> 0" and "0 \<le> rl_start s"
  shows "rl_uid (rate_slot_now uid now tab k found) = uid" "0 < rl_start (rate_slot_now uid now tab k found)"
    and "rate_spec limit now failed (rate_abs tab uid) =
      (let n = rl_failures (rate_slot_now uid now tab k found); n' = (if failed then n + 1 else n)
       in (n' \<ge> limit, (rl_start (rate_slot_now uid now tab k found), n')))"
  using assms by (auto simp: rate_slot_now_def rate_spec_def Let_def LOGON_WINDOW_def)

lemma logon_rate_limited_abs:
  assumes "rate_wf tab" and "0 < now" and "uid \<in> dom (rate_abs tab) \<or> (\<exists>s\<in>set tab. rl_start s = 0)"
    and "logon_rate_limited limit now uid failed tab = (limited, tab')"
  shows "rate_wf tab' \<and> limited = fst (rate_spec limit now failed (rate_abs tab uid)) \<and>
    rate_abs tab' = (rate_abs tab)(uid \<mapsto> snd (rate_spec limit now failed (rate_abs tab uid)))"
proof -
  obtain k found where find: "rate_find uid tab 0 now 0 = (k, found)" by fastforce
  obtain a s b where tab: "tab = a @ s # b" and k: "k = length a"
    and others: "\<forall>x\<in>set (a @ b). \<not> (rl_uid x = uid \<and> rl_start x \<noteq> 0)"
    and found: "found \<longleftrightarrow> rl_uid s = uid \<and> rl_start s \<noteq> 0"
    and abs: "rate_abs tab uid = (if found then Some (rl_start s, rl_failures s) else None)"
    and free: "\<not> found \<and> (\<exists>x\<in>set tab. rl_start x = 0) \<longrightarrow> rl_start s = 0"
    by (rule rate_find_split[OF assms(1,2) find])
  define c where "c = rate_slot_now uid now tab k found"
  define c' where "c' = (if failed then c\<lparr>rl_failures := rl_failures c + 1\<rparr> else c)"
  have start: "0 \<le> rl_start s" using assms(1) tab by (auto simp: rate_wf_def)
  note slot = rate_slot_now_abs[OF k tab assms(2) abs found start, folded c_def]
  have "limited = (rl_failures c' \<ge> limit)" "tab' = tab[k := c']"
    using assms(4) by (auto simp: logon_rate_limited_def find Let_def c_def[symmetric] c'_def)
  then have res: "limited = (rl_failures c' \<ge> limit)" "tab' = a @ c' # b"
    by (simp_all add: k tab)
  have c': "rl_uid c' = uid" "0 < rl_start c'" using slot(1,2) by (simp_all add: c'_def)
  have spec: "rate_spec limit now failed (rate_abs tab uid) = (rl_failures c' \<ge> limit, (rl_start c', rl_failures c'))"
    using slot(3) by (simp add: Let_def c'_def)
  have "rl_start s = 0 \<or> rl_uid s = uid"
  proof (cases found)
    case True
    then show ?thesis using found by blast
  next
    case False
    then have "rate_abs tab uid = None" using abs by simp
    then have "\<exists>x\<in>set tab. rl_start x = 0" using assms(3) by blast
    then show ?thesis using free False by blast
  qed
  then have "rate_abs tab' = (rate_abs tab)(uid \<mapsto> (rl_start c', rl_failures c'))"
    using rate_abs_update[of a uid s c' b] others c' unfolding res(2) tab by simp
  moreover have "rate_wf tab'"
    using rate_wf_update[of a s b c'] assms(1) others c' unfolding res(2) tab by simp
  ultimately show ?thesis using res(1) spec by simp
qed

text \<open>
  C16.  The table of recent failures implements a map from users to their window and
  count: as long as the user has a slot or one is free, a request looks up and changes
  that user's entry alone, starts a new window when the old one is over, and is limited
  exactly when the count has reached the limit.  The table keeps one slot per user.
\<close>

theorem rate_limit_refines:
  assumes "rate_wf tab" and "0 < now" and "uid \<in> dom (rate_abs tab) \<or> (\<exists>s\<in>set tab. rl_start s = 0)"
    and "logon_rate_limited limit now uid failed tab = (limited, tab')"
  shows "rate_wf tab' \<and> limited = fst (rate_spec limit now failed (rate_abs tab uid)) \<and>
    rate_abs tab' = (rate_abs tab)(uid \<mapsto> snd (rate_spec limit now failed (rate_abs tab uid)))"
  by (rule logon_rate_limited_abs[OF assms])

theorem rate_limit_refines_witness:
  "rate_abs (snd (logon_rate_limited 5 100 1001 True rate_empty)) 1001 = Some (100, 1)"
proof -
  have "\<exists>s\<in>set rate_empty. rl_start s = 0" by (simp add: rate_empty_def RATE_SLOTS_def)
  then have "rate_abs (snd (logon_rate_limited 5 100 1001 True rate_empty)) =
      (rate_abs rate_empty)(1001 \<mapsto> snd (rate_spec 5 100 True (rate_abs rate_empty 1001)))"
    using rate_limit_refines[OF rate_wf_empty, of 100 1001 5 True] by (cases "logon_rate_limited 5 100 1001 True rate_empty") simp
  then show ?thesis by (simp add: rate_abs_empty rate_spec_def)
qed

text \<open>
  C18.  With 64 users in their windows, the next one takes a slot that was in use: the
  limit of some user is forgotten before its window has passed.
\<close>

theorem rate_limit_forgets:
  assumes "rate_wf tab" and "0 < now" and "rate_abs tab uid = None" and "\<forall>s\<in>set tab. rl_start s \<noteq> 0"
  shows "\<exists>u. rate_abs tab u \<noteq> None \<and> rate_abs (snd (logon_rate_limited limit now uid failed tab)) u = None"
proof -
  obtain k found where find: "rate_find uid tab 0 now 0 = (k, found)" by fastforce
  obtain a s b where tab: "tab = a @ s # b" and k: "k = length a"
    and abs: "rate_abs tab uid = (if found then Some (rl_start s, rl_failures s) else None)"
    by (rule rate_find_split[OF assms(1,2) find])
  define c where "c = (if failed then (rate_slot_now uid now tab k found)
    \<lparr>rl_failures := rl_failures (rate_slot_now uid now tab k found) + 1\<rparr> else rate_slot_now uid now tab k found)"
  have "\<not> found" using abs assms(3) by (cases found) simp_all
  then have c: "rl_uid c = uid" by (simp add: c_def rate_slot_now_def Let_def)
  have "snd (logon_rate_limited limit now uid failed tab) = tab[k := c]"
    by (simp add: logon_rate_limited_def find Let_def c_def)
  then have new: "snd (logon_rate_limited limit now uid failed tab) = a @ c # b"
    by (simp add: k tab)
  have act: "filter (\<lambda>s. rl_start s \<noteq> 0) tab = tab" using assms(4) by simp
  then have others: "\<forall>x\<in>set (a @ b). rl_uid x \<noteq> rl_uid s"
    using assms(1) unfolding rate_wf_def act by (auto simp: tab image_iff)
  have "rl_uid s \<noteq> uid"
    using assms(3,4) by (auto simp: rate_abs_def find_None_iff tab)
  then have "rate_abs (a @ c # b) (rl_uid s) = None"
    using others c by (auto simp: rate_abs_def find_None_iff)
  moreover have "rate_abs tab (rl_uid s) \<noteq> None"
    using assms(4) by (auto simp: rate_abs_def find_None_iff tab)
  ultimately show ?thesis unfolding new by blast
qed

definition ex_full_table :: "rate_slot list" where
  "ex_full_table = map (\<lambda>i. \<lparr>rl_uid = word_of_nat (1000 + i), rl_start = 50, rl_failures = 5\<rparr>) [0..<RATE_SLOTS]"

lemma unat_ex_uid: "i < RATE_SLOTS \<Longrightarrow> unat (word_of_nat (1000 + i) :: u32) = 1000 + i"
  by (rule unat_word_of_nat_u32) (simp add: RATE_SLOTS_def)

lemma rate_wf_ex_full_table: "rate_wf ex_full_table"
proof -
  have "inj_on (\<lambda>i. word_of_nat (1000 + i) :: u32) (set [0..<RATE_SLOTS])"
  proof (rule inj_onI)
    fix i j
    assume "i \<in> set [0..<RATE_SLOTS]" "j \<in> set [0..<RATE_SLOTS]"
      and eq: "(word_of_nat (1000 + i) :: u32) = word_of_nat (1000 + j)"
    then show "i = j" using unat_ex_uid[of i] unat_ex_uid[of j] arg_cong[OF eq, of unat] by simp
  qed
  then have "distinct (map (\<lambda>i. word_of_nat (1000 + i) :: u32) [0..<RATE_SLOTS])"
    by (simp only: distinct_map distinct_upt)
  moreover have "filter (\<lambda>s. rl_start s \<noteq> 0) ex_full_table = ex_full_table"
    by (simp only: filter_id_conv) (auto simp: ex_full_table_def)
  ultimately show ?thesis
    unfolding rate_wf_def by (auto simp: ex_full_table_def comp_def)
qed

theorem rate_limit_forgets_witness:
  "\<exists>u. rate_abs ex_full_table u \<noteq> None \<and> rate_abs (snd (logon_rate_limited 5 100 7 False ex_full_table)) u = None"
proof -
  have "word_of_nat (1000 + i) \<noteq> (7 :: u32)" if "i < RATE_SLOTS" for i
  proof
    assume eq: "word_of_nat (1000 + i) = (7 :: u32)"
    then show False using unat_ex_uid[OF that] arg_cong[OF eq, of unat] by simp
  qed
  then have "rate_abs ex_full_table 7 = None"
    by (auto simp: rate_abs_def find_None_iff ex_full_table_def)
  moreover have "\<forall>s\<in>set ex_full_table. rl_start s \<noteq> 0" by (auto simp: ex_full_table_def)
  ultimately show ?thesis by (intro rate_limit_forgets rate_wf_ex_full_table) simp_all
qed

section \<open>Failed logons in a window\<close>

definition rate_fails :: "rate_slot list \<Rightarrow> uid_t \<Rightarrow> nat" where
  "rate_fails tab uid = (case rate_abs tab uid of Some (_, n) \<Rightarrow> unat n | None \<Rightarrow> 0)"

text \<open>
  The table while all that happened happened since time \<open>T\<close>, to users in \<open>U\<close>: counts are
  at most the limit.
\<close>

definition rate_since :: "time_t \<Rightarrow> uid_t set \<Rightarrow> u32 \<Rightarrow> rate_slot list \<Rightarrow> bool" where
  "rate_since T U limit tab \<longleftrightarrow> rate_wf tab \<and> dom (rate_abs tab) \<subseteq> U \<and>
     (\<forall>u s n. rate_abs tab u = Some (s, n) \<longrightarrow> T \<le> s \<and> n \<le> limit)"

lemma rate_full_card:
  assumes "rate_wf tab" and "\<forall>s\<in>set tab. rl_start s \<noteq> 0"
  shows "card (dom (rate_abs tab)) = RATE_SLOTS"
proof -
  have "filter (\<lambda>s. rl_start s \<noteq> 0) tab = tab" using assms(2) by simp
  then have "distinct (map rl_uid tab)" and len: "length tab = RATE_SLOTS"
    using assms(1) by (simp_all add: rate_wf_def)
  moreover have "rate_abs tab u = None \<longleftrightarrow> u \<notin> set (map rl_uid tab)" for u
    using assms(2) by (auto simp: rate_abs_def find_None_iff)
  then have "dom (rate_abs tab) = set (map rl_uid tab)" by (simp add: dom_def)
  ultimately show ?thesis by (simp only: distinct_card length_map)
qed

lemma rate_room:
  assumes "rate_since T U limit tab" and "finite U" and "card U \<le> RATE_SLOTS" and "uid \<in> U"
  shows "uid \<in> dom (rate_abs tab) \<or> (\<exists>s\<in>set tab. rl_start s = 0)"
proof (rule ccontr)
  assume no: "\<not> ?thesis"
  then have "card (dom (rate_abs tab)) = RATE_SLOTS"
    using assms(1) by (intro rate_full_card) (auto simp: rate_since_def)
  moreover have "dom (rate_abs tab) \<subset> U" using assms(1,4) no by (auto simp: rate_since_def)
  ultimately have "RATE_SLOTS < card U" using psubset_card_mono[OF assms(2)] by metis
  then show False using assms(3) by simp
qed

lemma unat_Suc_u32: "unat (n :: u32) < unat (m :: u32) \<Longrightarrow> unat (n + 1) = unat n + 1"
proof -
  assume "unat n < unat m"
  then have "unat n + 1 < 4294967296" using unat_u32_less[of m] by linarith
  then show ?thesis by (simp add: unat_word_ariths)
qed

lemma rate_spec_since:
  assumes "\<And>s n. x = Some (s, n) \<Longrightarrow> T \<le> s \<and> n \<le> limit" and "T \<le> now" and "now < T + LOGON_WINDOW"
    and "failed \<Longrightarrow> (case x of Some (_, n) \<Rightarrow> unat n | None \<Rightarrow> 0) < unat limit"
  shows "\<exists>s n. rate_spec limit now failed x = (limit \<le> n, (s, n)) \<and> T \<le> s \<and> n \<le> limit \<and>
    unat n = (case x of Some (_, n) \<Rightarrow> unat n | None \<Rightarrow> 0) + (if failed then 1 else 0)"
proof -
  define s where "s = (case x of Some (s, _) \<Rightarrow> s | None \<Rightarrow> now)"
  define n where "n = (case x of Some (_, n) \<Rightarrow> n | None \<Rightarrow> 0)"
  have s: "T \<le> s" "n \<le> limit" using assms(1,2) by (auto simp: s_def n_def split: option.splits prod.splits)
  have spec: "rate_spec limit now failed x = (let n' = (if failed then n + 1 else n) in (limit \<le> n', (s, n')))"
    using assms(1,3) by (force simp: rate_spec_def s_def n_def Let_def split: option.splits prod.splits)
  have count: "(case x of Some (_, n) \<Rightarrow> unat n | None \<Rightarrow> 0) = unat n"
    by (auto simp: n_def split: option.splits)
  show ?thesis
  proof (cases failed)
    case True
    then have "unat n < unat limit" using assms(4) count by simp
    then have "unat (n + 1) = unat n + 1" "n + 1 \<le> limit"
      using unat_Suc_u32[of n limit] unfolding word_le_nat_alt by linarith+
    then show ?thesis using spec s True count by (auto simp: Let_def)
  next
    case False
    then show ?thesis using spec s count by (auto simp: Let_def)
  qed
qed

lemma rate_step:
  assumes "rate_since T U limit tab" and "finite U" and "card U \<le> RATE_SLOTS" and "uid \<in> U"
    and "0 < T" and "T \<le> now" and "now < T + LOGON_WINDOW"
    and "logon_rate_limited limit now uid failed tab = (limited, tab')"
    and "failed \<Longrightarrow> rate_fails tab uid < unat limit"
  shows "rate_since T U limit tab'"
    and "rate_fails tab' u = rate_fails tab u + (if u = uid \<and> failed then 1 else 0)"
    and "limited \<longleftrightarrow> unat limit \<le> rate_fails tab' uid"
proof -
  have wf: "rate_wf tab" using assms(1) by (simp add: rate_since_def)
  define v where "v = rate_spec limit now failed (rate_abs tab uid)"
  have ref: "rate_wf tab'" "limited = fst v" "rate_abs tab' = (rate_abs tab)(uid \<mapsto> snd v)"
    using logon_rate_limited_abs[OF wf _ rate_room[OF assms(1-4)] assms(8)] assms(5,6) by (simp_all add: v_def)
  have entry: "T \<le> s \<and> n \<le> limit" if "rate_abs tab uid = Some (s, n)" for s n
    using assms(1) that by (auto simp: rate_since_def)
  obtain s n where v: "v = (limit \<le> n, (s, n))" "T \<le> s" "n \<le> limit"
    "unat n = rate_fails tab uid + (if failed then 1 else 0)"
    using rate_spec_since[OF entry assms(6,7,9)[unfolded rate_fails_def]] unfolding v_def rate_fails_def by blast
  show "rate_since T U limit tab'"
    using assms(1,4) ref v by (auto simp: rate_since_def)
  show "rate_fails tab' u = rate_fails tab u + (if u = uid \<and> failed then 1 else 0)"
    using ref(3) v by (auto simp: rate_fails_def)
  show "limited \<longleftrightarrow> unat limit \<le> rate_fails tab' uid"
    using ref(2,3) v(1) by (simp add: rate_fails_def word_le_nat_alt)
qed

text \<open>A password was looked at, and the logon refused.\<close>

definition failed_check :: "effect list \<Rightarrow> bool" where
  "failed_check fx \<longleftrightarrow> (\<exists>u p. AskPam u p \<in> set fx) \<and> status_reply 1 \<in> set fx"

lemma logon_account_asked:
  "logon_account cfg os user pass = (tpw, asked) \<Longrightarrow> e \<in> set asked \<Longrightarrow> \<exists>u p. e = AskPam u p"
  by (auto simp: logon_account_def split: option.splits if_splits)

text \<open>What a request does to the table: one look, and one failure when it is refused for itself.\<close>

lemma status_reply_eq [simp]: "a < 256 \<Longrightarrow> b < 256 \<Longrightarrow> status_reply a = status_reply b \<longleftrightarrow> a = b"
  by (auto simp: status_reply_def)

lemma status_not_ticket [simp]: "status_reply n \<noteq> Reply (ticket_reply name)"
  by (auto simp: status_reply_def ticket_reply_def)

lemma status_not_other [simp]:
  "status_reply n \<noteq> AskPam u p" "AskPam u p \<noteq> status_reply n"
  "status_reply n \<noteq> Audit i b c ss" "Audit i b c ss \<noteq> status_reply n"
  by (simp_all add: status_reply_def)

lemma handle_logon_rate:
  assumes "logon_rate_limited (logon_limit os) now uid False (logon_rate st) = (limited, rate)"
    and "handle_logon cfg os now uid pid rpw envp st = (st', fx)"
  shows "if limited then logon_rate st' = rate \<and> \<not> failed_check fx
    else if failed_check fx then logon_rate st' = snd (logon_rate_limited (logon_limit os) now uid True rate)
    else logon_rate st' \<in> {rate, snd (logon_rate_limited (logon_limit os) now uid True rate)}"
  using assms
  by (auto simp: handle_logon_def Let_def failed_check_def split: prod.splits option.splits
    dest!: logon_account_asked)

record logon_req =
  lq_os :: broker_os
  lq_now :: time_t
  lq_uid :: uid_t
  lq_pid :: int
  lq_rpw :: passwd
  lq_envp :: "string list"

text \<open>Logon requests served one after another, each with what it did.\<close>

fun logon_run :: "broker_cfg \<Rightarrow> logon_req list \<Rightarrow> broker \<Rightarrow> (uid_t \<times> effect list) list" where
  "logon_run cfg [] st = []"
| "logon_run cfg (q # qs) st =
     (case handle_logon cfg (lq_os q) (lq_now q) (lq_uid q) (lq_pid q) (lq_rpw q) (lq_envp q) st of
        (st', fx) \<Rightarrow> (lq_uid q, fx) # logon_run cfg qs st')"

lemma handle_logon_since:
  assumes "rate_since T U limit (logon_rate st)" and "finite U" and "card U \<le> RATE_SLOTS" and "uid \<in> U"
    and "0 < T" and "T \<le> now" and "now < T + LOGON_WINDOW" and "logon_limit os = limit"
    and "handle_logon cfg os now uid pid rpw envp st = (st', fx)"
  shows "rate_since T U limit (logon_rate st') \<and>
    rate_fails (logon_rate st) u + (if u = uid \<and> failed_check fx then 1 else 0) \<le> rate_fails (logon_rate st') u"
proof -
  obtain limited rate where look: "logon_rate_limited limit now uid False (logon_rate st) = (limited, rate)" by fastforce
  note step = rate_step[OF assms(1-7) look]
  have since: "rate_since T U limit rate" and same: "\<And>u. rate_fails rate u = rate_fails (logon_rate st) u"
    and lim: "limited \<longleftrightarrow> unat limit \<le> rate_fails rate uid"
    using step by simp_all
  obtain l' rate' where count: "logon_rate_limited limit now uid True rate = (l', rate')" by fastforce
  have more: "rate_since T U limit rate'" "\<And>u. rate_fails rate' u = rate_fails rate u + (if u = uid then 1 else 0)"
    if "\<not> limited"
    using rate_step[OF since assms(2-7) count] lim that by simp_all
  show ?thesis
    using handle_logon_rate[OF look[folded assms(8)] assms(9)] since same more count assms(8)
    by (auto split: if_splits)
qed


text \<open>An example: the broker with the example monitor behind it.\<close>

definition ex_broker_os :: broker_os where
  "ex_broker_os = \<lparr>
     bo_accounts = ex_accounts,
     bo_getenv = (\<lambda>name. None),
     bo_monitor = monitor_reply default_cfg ex_os,
     bo_hostname = Some ''pc.example.org'',
     bo_euid = 990,
     bo_random = Some (map word_of_nat [1..<17]),
     bo_can_write = True,
     bo_socket = (\<lambda>path. None),
     bo_ui_starts = True,
     bo_can_fork = True\<rparr>"

definition ex_logon_req :: "time_t \<Rightarrow> logon_req" where
  "ex_logon_req t = \<lparr>lq_os = ex_broker_os, lq_now = t, lq_uid = 1002, lq_pid = 77, lq_rpw = ex_account ''bob'' 1002,
     lq_envp = [''LOGON_USER=alice'', ''LOGON_PASSWORD=guess'']\<rparr>"


section \<open>Tickets are earned\<close>

lemma sweep_tickets_sub: "sweep_tickets now d n = Some f \<Longrightarrow> d n = Some f"
  by (auto simp: sweep_tickets_def split: option.splits if_splits)

lemma make_ticket_new:
  "make_ticket os now target uid type d = Some (name, d') \<Longrightarrow> d name = None \<and>
    d' = d(name \<mapsto> \<lparr>tf_text = ticket_text target uid type (now + TICKET_LIFETIME),
                     tf_regular = True, tf_mode = 384, tf_uid = bo_euid os, tf_mtime = now\<rparr>)"
  by (auto simp: make_ticket_def Let_def split: option.splits if_splits)

lemma logon_account_checked:
  "logon_account cfg os user pass = (Some tpw, asked) \<Longrightarrow>
     \<exists>u p. user = Some u \<and> pass = Some p \<and> plain_name u \<and> getpwnam (bo_accounts os) u = Some tpw \<and>
       pw_uid tpw \<noteq> 0 \<and> pw_name tpw \<noteq> g_system_user cfg \<and> check_password_as (bo_monitor os) u p True"
  by (auto simp: logon_account_def split: option.splits if_splits)

lemma handle_logon_tickets:
  assumes "logon_rate_limited (logon_limit os) now uid False (logon_rate st) = (limited, rate)"
    and "(if limited then (None, [])
      else logon_account cfg os (env_value ''LOGON_USER='' envp) (env_value ''LOGON_PASSWORD='' envp)) = (tpw, asked)"
    and "handle_logon cfg os now uid pid rpw envp st = (st', fx)"
  shows "case tpw of None \<Rightarrow> tickets st' = sweep_tickets now (tickets st)
    | Some t \<Rightarrow> (case make_ticket os now (pw_uid t) uid (logon_type envp) (sweep_tickets now (tickets st)) of
        None \<Rightarrow> tickets st' = sweep_tickets now (tickets st)
      | Some (name, d) \<Rightarrow> tickets st' = d \<and> status_reply 0 \<in> set fx \<and> Reply (ticket_reply name) \<in> set fx)"
proof -
  have "handle_logon cfg os now uid pid rpw envp st = (st', fx)" by (rule assms(3))
  then show ?thesis
    unfolding handle_logon_def assms(1) Let_def prod.case assms(2) by (auto split: option.splits)
qed

text \<open>
  C12.  A logon ticket is earned: whenever a request leaves a ticket in the directory
  that was not there before, the password of the named account was checked and
  accepted, the account is neither root nor the SYSTEM account, the user was not over
  the limit, and the ticket names exactly that account and exactly the uid that asked,
  for 30 seconds, in a file of its own with mode 600.  No other ticket changes.
\<close>

theorem logon_ticket_earned:
  assumes "handle_logon cfg os now uid pid rpw envp st = (st', fx)"
    and "tickets st' n = Some f" and "tickets st n \<noteq> Some f"
  shows "\<exists>u p tpw. env_value ''LOGON_USER='' envp = Some u \<and> env_value ''LOGON_PASSWORD='' envp = Some p \<and>
    plain_name u \<and> getpwnam (bo_accounts os) u = Some tpw \<and> pw_uid tpw \<noteq> 0 \<and> pw_name tpw \<noteq> g_system_user cfg \<and>
    check_password_as (bo_monitor os) u p True \<and>
    \<not> fst (logon_rate_limited (logon_limit os) now uid False (logon_rate st)) \<and>
    f = \<lparr>tf_text = ticket_text (pw_uid tpw) uid (logon_type envp) (now + TICKET_LIFETIME),
         tf_regular = True, tf_mode = 384, tf_uid = bo_euid os, tf_mtime = now\<rparr> \<and>
    status_reply 0 \<in> set fx \<and> Reply (ticket_reply n) \<in> set fx \<and>
    (\<forall>m g. m \<noteq> n \<longrightarrow> tickets st' m = Some g \<longrightarrow> tickets st m = Some g)"
proof -
  obtain limited rate where look: "logon_rate_limited (logon_limit os) now uid False (logon_rate st) = (limited, rate)"
    by fastforce
  obtain tpw asked where acct: "(if limited then (None, [])
      else logon_account cfg os (env_value ''LOGON_USER='' envp) (env_value ''LOGON_PASSWORD='' envp)) = (tpw, asked)"
    by fastforce
  have old: "sweep_tickets now (tickets st) m = Some g \<Longrightarrow> tickets st m = Some g" for m g
    by (rule sweep_tickets_sub)
  note res = handle_logon_tickets[OF look acct assms(1)]
  have "tickets st' \<noteq> sweep_tickets now (tickets st)" using old[of n f] assms(2,3) by auto
  with res obtain t name d where made: "tpw = Some t"
      "make_ticket os now (pw_uid t) uid (logon_type envp) (sweep_tickets now (tickets st)) = Some (name, d)"
    and res: "tickets st' = d" "status_reply 0 \<in> set fx" "Reply (ticket_reply name) \<in> set fx"
    by (auto split: option.splits)
  note new = make_ticket_new[OF made(2)]
  have n: "n = name" using assms(2,3) res(1) new old by (auto split: if_splits)
  have "\<not> limited" using acct made(1) by (auto split: if_splits)
  then obtain u p where "env_value ''LOGON_USER='' envp = Some u" "env_value ''LOGON_PASSWORD='' envp = Some p"
      "plain_name u" "getpwnam (bo_accounts os) u = Some t" "pw_uid t \<noteq> 0" "pw_name t \<noteq> g_system_user cfg"
      "check_password_as (bo_monitor os) u p True"
    using logon_account_checked[of cfg os "env_value ''LOGON_USER='' envp" "env_value ''LOGON_PASSWORD='' envp" t asked]
      acct made(1) by auto
  moreover have "f = \<lparr>tf_text = ticket_text (pw_uid t) uid (logon_type envp) (now + TICKET_LIFETIME),
      tf_regular = True, tf_mode = 384, tf_uid = bo_euid os, tf_mtime = now\<rparr>"
    using assms(2) res(1) new n by simp
  moreover have "\<forall>m g. m \<noteq> n \<longrightarrow> tickets st' m = Some g \<longrightarrow> tickets st m = Some g"
    using res(1) new n old by simp
  ultimately show ?thesis using res(2,3) n look \<open>\<not> limited\<close> by auto
qed

definition ex_logon_env :: "string list" where
  "ex_logon_env = [''LOGON_USER=alice'', ''LOGON_PASSWORD=pw'']"

definition ex_ticket :: string where
  "ex_ticket = concat (map hex2 (map word_of_nat [1..<17]))"

lemma ex_not_limited: "logon_rate_limited 5 100 1002 False rate_empty = (l, t) \<Longrightarrow> \<not> l"
proof -
  assume "logon_rate_limited 5 100 1002 False rate_empty = (l, t)"
  moreover have "\<exists>s\<in>set rate_empty. rl_start s = 0" by (simp add: rate_empty_def RATE_SLOTS_def)
  ultimately show ?thesis
    using logon_rate_limited_abs[OF rate_wf_empty, of 100 1002 5 False l t]
    by (simp add: rate_abs_empty rate_spec_def)
qed

lemma ex_logon_account:
  "logon_account default_cfg ex_broker_os (env_value ''LOGON_USER='' ex_logon_env) (env_value ''LOGON_PASSWORD='' ex_logon_env)
     = (Some (ex_account ''alice'' 1001), [AskPam ''alice'' ''pw''])"
proof -
  have "check_password_as (monitor_reply default_cfg ex_os) ''alice'' ''pw'' True"
    using monitor_reply_enc[of "Check (Some ''stained-glass-logon'') ''alice'' ''pw''" default_cfg ex_os]
    by (simp add: check_password_as_def MAXFIELD_def run_pamcheck_def ex_os_def cput_def cstr_def starts_def)
  then show ?thesis
    by (simp add: logon_account_def ex_logon_env_def env_value_def starts_def plain_name_def name_char_def
      char_class_defs ex_broker_os_def ex_defs default_cfg_def)
qed

theorem logon_ticket_earned_witness:
  "\<exists>st' fx. handle_logon default_cfg ex_broker_os 100 1002 77 (ex_account ''bob'' 1002) ex_logon_env
       \<lparr>logon_rate = rate_empty, tickets = Map.empty\<rparr> = (st', fx) \<and>
     (\<exists>f. tickets st' ex_ticket = Some f \<and> tf_text f = ticket_text 1001 1002 2 130)"
proof -
  let ?st = "\<lparr>logon_rate = rate_empty, tickets = Map.empty\<rparr>"
  obtain l t where look: "logon_rate_limited 5 100 1002 False rate_empty = (l, t)" by fastforce
  obtain st' fx where h: "handle_logon default_cfg ex_broker_os 100 1002 77 (ex_account ''bob'' 1002) ex_logon_env ?st
      = (st', fx)" by fastforce
  have lim: "logon_limit ex_broker_os = 5" by (simp add: logon_limit_def ex_broker_os_def)
  have new: "tickets ?st ex_ticket \<noteq> Some f" for f by simp
  have "bo_random ex_broker_os = Some (map word_of_nat [1..<17])" "bo_can_write ex_broker_os"
    by (simp_all add: ex_broker_os_def)
  then have "\<exists>f d. make_ticket ex_broker_os 100 1001 1002 (logon_type ex_logon_env) Map.empty = Some (ex_ticket, d(ex_ticket \<mapsto> f))"
    by (simp only: make_ticket_def option.case Let_def ex_ticket_def) auto
  moreover have "sweep_tickets 100 Map.empty = Map.empty" by (simp add: sweep_tickets_def)
  ultimately have "\<exists>f. tickets st' ex_ticket = Some f"
    using handle_logon_tickets[of ex_broker_os 100 1002 ?st l t default_cfg ex_logon_env
        "Some (ex_account ''alice'' 1001)" "[AskPam ''alice'' ''pw'']" 77 "ex_account ''bob'' 1002" st' fx]
      look lim ex_not_limited[OF look] ex_logon_account h by (auto simp: ex_account_def)
  then obtain f where f: "tickets st' ex_ticket = Some f" ..
  show ?thesis
    using logon_ticket_earned[OF h f new] h f by (auto simp: TICKET_LIFETIME_def logon_type_def ex_logon_env_def
      env_value_def starts_def ex_broker_os_def ex_defs)
qed

end
