(* ===== verification/Sg_Consent.thy ===== *)
theory Sg_Consent
  imports Sg_Logon
begin

text \<open>
  Consent on the secure surface, \<open>broker/sg-brokerd.c\<close> lines 642 to 958: finding the
  requester's own compositor (\<open>find_surface_in\<close>), what the prompt shows of the program
  (\<open>describe_program\<close>), reading the prompt's answers (\<open>consent_read_line\<close>), and the two
  conversations \<open>obtain_consent\<close> and \<open>obtain_shadow_consent\<close>.

  The prompt's output is a list of bytes, each with the time at which the broker waits
  for it; the list ends where the prompt goes silent or away.
\<close>

section \<open>The compositor\<close>

record surface =
  sf_control :: string
  sf_priv :: string

definition no_surface :: surface where
  "no_surface = \<lparr>sf_control = [], sf_priv = []\<rparr>"

text \<open>A socket path of 108 bytes or more does not fit \<open>sun_path\<close>.\<close>

definition surface_connect :: "broker_os \<Rightarrow> surface \<Rightarrow> peer option" where
  "surface_connect os sf = (if length (sf_control sf) \<ge> 108 then None else bo_socket os (sf_control sf))"

definition surface_command :: "broker_os \<Rightarrow> surface \<Rightarrow> string \<Rightarrow> nat \<Rightarrow> string option" where
  "surface_command os sf cmd sz =
     (case surface_connect os sf of
        None \<Rightarrow> None
      | Some p \<Rightarrow>
          (case peer_answer p cmd of
             None \<Rightarrow> None
           | Some raw \<Rightarrow> if take (sz - 1) raw = [] then None
                         else Some (before (cstr (take (sz - 1) raw)) {CR, LF})))"

text \<open>The part of a path before its last slash.\<close>

definition strrchr_prefix :: "string \<Rightarrow> char \<Rightarrow> string option" where
  "strrchr_prefix s c = (if c \<in> set s then Some (rev (tl (dropWhile (\<lambda>x. x \<noteq> c) (rev s)))) else None)"

definition seat_root :: "broker_cfg \<Rightarrow> string" where
  "seat_root cfg =
     (case strrchr_prefix (g_seat_dir cfg) CHR ''/'' of
        Some p \<Rightarrow> snprintf_s 200 p
      | None \<Rightarrow> ''.'')"

definition seats :: "broker_cfg \<Rightarrow> uid_t \<Rightarrow> string list" where
  "seats cfg uid = [snprintf_s 260 (g_seat_dir cfg), snprintf_s 260 (seat_root cfg @ ''/rdp-'' @ show_u32 uid)]"

definition seat_surface :: "string \<Rightarrow> uid_t \<Rightarrow> surface" where
  "seat_surface seat uid = \<lparr>sf_control = seat @ ''/'' @ show_u32 uid @ ''/control.sock'',
                            sf_priv = seat @ ''/'' @ show_u32 uid @ ''/priv.sock''\<rparr>"

text \<open>The seats in turn until one answers; a path that does not fit ends the search.\<close>

fun try_seats :: "broker_os \<Rightarrow> uid_t \<Rightarrow> string list \<Rightarrow> (surface \<times> peer) option" where
  "try_seats os uid [] = None"
| "try_seats os uid (seat # rest) =
     (let sf = seat_surface seat uid
      in if length (sf_control sf) \<ge> 256 \<or> length (sf_priv sf) \<ge> 256 then None
         else case surface_connect os sf of
           Some p \<Rightarrow> Some (sf, p)
         | None \<Rightarrow> try_seats os uid rest)"

definition find_surface_in :: "broker_cfg \<Rightarrow> broker_os \<Rightarrow> uid_t \<Rightarrow> bool \<Rightarrow> surface option" where
  "find_surface_in cfg os uid console_only =
     (case (case (bo_getenv os ''SG_BROKER_CONTROL'', bo_getenv os ''SG_BROKER_PRIV'') of
              (Some c, Some pv) \<Rightarrow>
                let sf = \<lparr>sf_control = snprintf_s 256 c, sf_priv = snprintf_s 256 pv\<rparr>
                in map_option (\<lambda>p. (sf, p)) (surface_connect os sf)
            | _ \<Rightarrow> try_seats os uid (if console_only then take 1 (seats cfg uid) else seats cfg uid)) of
        None \<Rightarrow> None
      | Some (sf, p) \<Rightarrow>
          if peer_uid p = Some uid \<and> (case peer_answer p (''STATUS'' @ [LF]) of Some r \<Rightarrow> r \<noteq> [] | None \<Rightarrow> False)
          then Some sf else None)"

definition find_surface :: "broker_cfg \<Rightarrow> broker_os \<Rightarrow> uid_t \<Rightarrow> surface option" where
  "find_surface cfg os uid = find_surface_in cfg os uid False"

section \<open>What the prompt shows\<close>

definition shown_char :: "char \<Rightarrow> char" where
  "shown_char c = (if code c < 0x20 \<or> code c = 0x7f \<or> c = DQ then CHR ''?'' else c)"

definition describe_arg :: "nat \<Rightarrow> string \<Rightarrow> string \<Rightarrow> string" where
  "describe_arg sz arg out =
     (if length out + 1 < sz
      then take (sz - 1) ((if out \<noteq> [] then out @ '' '' else out) @ map shown_char arg)
      else out)"

definition describe_program :: "nat \<Rightarrow> string list \<Rightarrow> string" where
  "describe_program sz argv =
     (let args = (case argv of [] \<Rightarrow> [] | a # rest \<Rightarrow> if a = ''wine'' \<and> rest \<noteq> [] then rest else argv);
          out = fold (describe_arg sz) args []
      in if length out > 200 then take 197 out @ ''...'' else out)"

section \<open>The conversation\<close>

type_synonym ui_input = "(time_t \<times> char) list"

fun consent_chars :: "nat \<Rightarrow> time_t \<Rightarrow> ui_input \<Rightarrow> string \<Rightarrow> (string \<times> ui_input) option" where
  "consent_chars sz deadline inp buf =
     (if length buf < sz - 1 then
        (case inp of
           [] \<Rightarrow> None
         | (t, c) # rest \<Rightarrow>
             if deadline - t \<le> 0 then None
             else if c = LF then Some (buf, rest)
             else consent_chars sz deadline rest (if c \<noteq> CR then buf @ [c] else buf))
      else Some (buf, inp))"

declare consent_chars.simps [simp del]

definition consent_read_line :: "nat \<Rightarrow> time_t \<Rightarrow> ui_input \<Rightarrow> (string \<times> ui_input) option" where
  "consent_read_line sz deadline inp = map_option (\<lambda>(buf, rest). (cstr buf, rest)) (consent_chars sz deadline inp [])"

lemma consent_chars_full: "\<not> length buf < sz - 1 \<Longrightarrow> consent_chars sz deadline inp buf = Some (buf, inp)"
  by (subst consent_chars.simps) simp

lemma consent_chars_Nil: "length buf < sz - 1 \<Longrightarrow> consent_chars sz deadline [] buf = None"
  by (subst consent_chars.simps) simp

lemma consent_chars_Cons: "length buf < sz - 1 \<Longrightarrow> consent_chars sz deadline ((t, c) # rest) buf =
    (if deadline - t \<le> 0 then None else if c = LF then Some (buf, rest)
     else consent_chars sz deadline rest (if c \<noteq> CR then buf @ [c] else buf))"
  by (subst consent_chars.simps) simp

lemma consent_chars_shrinks:
  "consent_chars sz deadline inp buf = Some (l, rest) \<Longrightarrow>
     length rest \<le> length inp \<and> (length buf < sz - 1 \<longrightarrow> length rest < length inp)"
proof (induction inp arbitrary: buf)
  case Nil
  then show ?case by (cases "length buf < sz - 1") (simp_all add: consent_chars_full consent_chars_Nil)
next
  case (Cons x inp)
  then show ?case
    by (cases x; cases "length buf < sz - 1")
       (fastforce simp: consent_chars_full consent_chars_Cons split: if_splits)+
qed

lemma consent_read_line_shrinks:
  "consent_read_line sz deadline inp = Some (l, rest) \<Longrightarrow> 1 < sz \<Longrightarrow> length rest < length inp"
  by (auto simp: consent_read_line_def dest!: consent_chars_shrinks)

definition FAILURE_MSG :: string where
  "FAILURE_MSG = ''FAILURE The user name or password is incorrect.'' @ [LF]"

definition bad_password :: "broker_os \<Rightarrow> string \<Rightarrow> effect" where
  "bad_password os user = Audit 4625 False 12544
     [user, computer_name os, ''2 (Interactive)'', ''Unknown user name or bad password.'', BROKER_PROCESS, ''-'']"

text \<open>
  One CRED answer: whose credentials were accepted, if any, and what was done.  Both
  checks are made whatever the first says.  A name of \<open>wholen\<close> bytes or more is not
  split from its password.
\<close>

definition check_cred :: "broker_cfg \<Rightarrow> broker_os \<Rightarrow> nat \<Rightarrow> string \<Rightarrow> string option \<times> effect list" where
  "check_cred cfg os wholen arg =
     (case strchr arg TAB of
        None \<Rightarrow> (None, [bad_password os []])
      | Some rest \<Rightarrow>
          let user = before arg {TAB}; pass = tl rest
          in if length user < wholen then
               (let ok = check_password (bo_monitor os) user pass
                in if is_admin_name cfg (bo_accounts os) user \<and> ok then (Some user, [AskPam user pass])
                   else (None, [AskPam user pass, bad_password os user]))
             else (None, [bad_password os arg]))"

text \<open>The loop over the prompt's answers: who authorised, if anyone, and what was done.\<close>

function consent_loop :: "broker_cfg \<Rightarrow> broker_os \<Rightarrow> bool \<Rightarrow> string \<Rightarrow> nat \<Rightarrow> time_t \<Rightarrow> nat \<Rightarrow> ui_input
    \<Rightarrow> string option \<times> effect list" where
  "consent_loop cfg os admin requester wholen deadline attempts inp =
     (case consent_read_line 1024 deadline inp of
        None \<Rightarrow> (None, [])
      | Some (line, rest) \<Rightarrow>
          if admin \<and> line = ''ALLOW'' then (Some (snprintf_s wholen requester), [])
          else if \<not> admin \<and> starts ''CRED '' line then
            (case check_cred cfg os wholen (drop 5 line) of
               (Some who, fx) \<Rightarrow> (Some who, fx)
             | (None, fx) \<Rightarrow>
                 if attempts + 1 \<ge> 3 then (None, fx)
                 else (case consent_loop cfg os admin requester wholen deadline (attempts + 1) rest of
                         (who, fx') \<Rightarrow> (who, fx @ [TellUi FAILURE_MSG] @ fx')))
          else (None, []))"
  by pat_completeness auto
termination
  by (relation "measure (\<lambda>(cfg, os, admin, requester, wholen, deadline, attempts, inp). length inp)")
     (auto dest: consent_read_line_shrinks)

declare consent_loop.simps [simp del]

definition env_timeout :: "broker_os \<Rightarrow> string \<Rightarrow> int \<Rightarrow> int" where
  "env_timeout os name dflt =
     (case bo_getenv os name of Some v \<Rightarrow> if atoi v > 0 then atoi v else dflt | None \<Rightarrow> dflt)"

text \<open>The scripted decision of \<open>SG_BROKER_TEST\<close>.\<close>

definition test_says_yes :: "broker_os \<Rightarrow> bool" where
  "test_says_yes os = (case bo_getenv os ''SG_BROKER_TEST_CONSENT'' of Some d \<Rightarrow> d = ''yes'' \<or> d = ''y'' | None \<Rightarrow> False)"

definition test_consent :: "broker_cfg \<Rightarrow> broker_os \<Rightarrow> bool \<Rightarrow> string \<Rightarrow> nat \<Rightarrow> string option \<times> effect list" where
  "test_consent cfg os admin requester wholen =
     (if admin then (if test_says_yes os then Some (snprintf_s wholen requester) else None, [])
      else case (bo_getenv os ''SG_BROKER_TEST_ADMIN_USER'', bo_getenv os ''SG_BROKER_TEST_ADMIN_PASS'') of
             (Some u, Some p) \<Rightarrow>
               if \<not> is_admin_name cfg (bo_accounts os) u then (None, [bad_password os u])
               else if \<not> check_password (bo_monitor os) u p then (None, [AskPam u p, bad_password os u])
               else (Some (snprintf_s wholen u), [AskPam u p])
           | _ \<Rightarrow> (None, []))"

text \<open>
  The whole conversation: who authorised (\<open>None\<close>: refused), the compositor it was held
  on, and what was done.
\<close>

definition obtain_consent :: "broker_cfg \<Rightarrow> broker_os \<Rightarrow> time_t \<Rightarrow> ui_input \<Rightarrow> bool \<Rightarrow> string \<Rightarrow> uid_t
    \<Rightarrow> string list \<Rightarrow> nat \<Rightarrow> string option \<times> surface \<times> effect list" where
  "obtain_consent cfg os now inp admin requester uid argv wholen =
     (if bo_getenv os ''SG_BROKER_TEST'' \<noteq> None then
        (case test_consent cfg os admin requester wholen of (who, fx) \<Rightarrow> (who, no_surface, fx))
      else case find_surface cfg os uid of
        None \<Rightarrow> (None, no_surface, [])
      | Some sf \<Rightarrow>
          let secure = Command (sf_control sf) (''SECURE'' @ [LF]);
              release = Command (sf_control sf) (''RELEASE'' @ [LF])
          in if surface_command os sf (''SECURE'' @ [LF]) 64 \<noteq> Some ''OK secure'' then (None, sf, [secure])
             else if \<not> bo_ui_starts os then (None, sf, [secure, release])
             else case consent_loop cfg os admin requester wholen
                         (now + env_timeout os ''SG_CONSENT_TIMEOUT'' 120) 0 inp of
               (who, fx) \<Rightarrow>
                 (who, sf,
                  [secure, StartUi (sf_priv sf) (if admin then ''admin'' else ''cred'') requester
                             (describe_program 256 argv)]
                  @ fx @ [StopUi, release]))"

definition obtain_shadow_consent :: "broker_cfg \<Rightarrow> broker_os \<Rightarrow> time_t \<Rightarrow> ui_input \<Rightarrow> string \<Rightarrow> uid_t \<Rightarrow> string
    \<Rightarrow> bool \<times> effect list" where
  "obtain_shadow_consent cfg os now inp requester target mode =
     (if bo_getenv os ''SG_BROKER_TEST'' \<noteq> None then (test_says_yes os, [])
      else case find_surface_in cfg os target True of
        None \<Rightarrow> (False, [])
      | Some sf \<Rightarrow>
          let secure = Command (sf_control sf) (''SECURE'' @ [LF]);
              release = Command (sf_control sf) (''RELEASE'' @ [LF])
          in if surface_command os sf (''SECURE'' @ [LF]) 64 \<noteq> Some ''OK secure'' then (False, [secure])
             else if \<not> bo_ui_starts os then (False, [secure, release])
             else ((case consent_read_line 256 (now + env_timeout os ''SG_SHADOW_CONSENT_TIMEOUT'' 30) inp of
                      Some (line, _) \<Rightarrow> line = ''ALLOW''
                    | None \<Rightarrow> False),
                   [secure, StartUi (sf_priv sf) ''shadow'' requester mode, StopUi, release]))"

section \<open>Who can consent\<close>

lemma check_cred_sound:
  "check_cred cfg os wholen arg = (Some who, fx) \<Longrightarrow>
     is_admin_name cfg (bo_accounts os) who \<and> length who < wholen \<and>
     (\<exists>p. fx = [AskPam who p] \<and> check_password (bo_monitor os) who p)"
  by (auto simp: check_cred_def Let_def split: option.splits if_splits)

lemma check_cred_asks_once: "length (filter (\<lambda>e. \<exists>u p. e = AskPam u p) (snd (check_cred cfg os wholen arg))) \<le> 1"
  by (auto simp: check_cred_def Let_def bad_password_def split: option.splits)

lemma consent_loop_sound:
  "consent_loop cfg os admin requester wholen deadline k inp = (Some who, fx) \<Longrightarrow>
     if admin then who = snprintf_s wholen requester
     else is_admin_name cfg (bo_accounts os) who \<and> length who < wholen \<and>
       (\<exists>p. AskPam who p \<in> set fx \<and> check_password (bo_monitor os) who p)"
proof (induction cfg os admin requester wholen deadline k inp arbitrary: who fx rule: consent_loop.induct)
  case (1 cfg os admin requester wholen deadline k inp)
  obtain line rest where line: "consent_read_line 1024 deadline inp = Some (line, rest)"
    using "1.prems" by (subst (asm) consent_loop.simps) (auto split: option.splits)
  show ?case
  proof (cases "\<not> admin \<and> starts ''CRED '' line")
    case False
    then show ?thesis using "1.prems" line by (subst (asm) consent_loop.simps) (auto split: if_splits)
  next
    case True
    obtain who1 fx1 where cred: "check_cred cfg os wholen (drop 5 line) = (who1, fx1)" by fastforce
    show ?thesis
    proof (cases who1)
      case (Some w)
      then have "who = w" "fx = fx1"
        using "1.prems" line True cred by (subst (asm) consent_loop.simps; simp)+
      then show ?thesis using check_cred_sound cred Some True by fastforce
    next
      case None
      obtain who2 fx2 where rec: "consent_loop cfg os admin requester wholen deadline (k + 1) rest = (who2, fx2)"
        by fastforce
      have "who2 = Some who" "set fx2 \<subseteq> set fx" "\<not> k + 1 \<ge> 3"
        using "1.prems" line True cred None rec
        by (subst (asm) consent_loop.simps; auto split: if_splits)+
      then show ?thesis using "1.IH"[OF line refl] True cred None rec by fastforce
    qed
  qed
qed

lemma consent_loop_asks:
  "length (filter (\<lambda>e. \<exists>u p. e = AskPam u p) (snd (consent_loop cfg os admin requester wholen deadline k inp)))
     \<le> max 1 (3 - k)"
proof (induction cfg os admin requester wholen deadline k inp rule: consent_loop.induct)
  case (1 cfg os admin requester wholen deadline k inp)
  show ?case
  proof (cases "\<exists>line rest fx1. consent_read_line 1024 deadline inp = Some (line, rest) \<and> \<not> admin \<and>
      starts ''CRED '' line \<and> check_cred cfg os wholen (drop 5 line) = (None, fx1) \<and> \<not> k + 1 \<ge> 3")
    case False
    then have "snd (consent_loop cfg os admin requester wholen deadline k inp) = [] \<or>
        (\<exists>arg. snd (consent_loop cfg os admin requester wholen deadline k inp) = snd (check_cred cfg os wholen arg))"
      by (subst (1 2) consent_loop.simps) (auto split: option.splits prod.splits; metis snd_conv)
    then show ?thesis using check_cred_asks_once[of cfg os wholen] by (auto simp: le_max_iff_disj)
  next
    case True
    then obtain line rest fx1 where c: "consent_read_line 1024 deadline inp = Some (line, rest)" "\<not> admin"
      "starts ''CRED '' line" "check_cred cfg os wholen (drop 5 line) = (None, fx1)" "\<not> k + 1 \<ge> 3" by blast
    have "length (filter (\<lambda>e. \<exists>u p. e = AskPam u p) fx1) \<le> 1"
      using check_cred_asks_once[of cfg os wholen "drop 5 line"] c(4) by simp
    moreover have "length (filter (\<lambda>e. \<exists>u p. e = AskPam u p)
        (snd (consent_loop cfg os admin requester wholen deadline (k + 1) rest))) \<le> max 1 (3 - (k + 1))"
      using "1.IH"[OF c(1) refl] c by auto
    ultimately show ?thesis using c
      by (subst consent_loop.simps) (auto split: prod.splits)
  qed
qed

lemma consent_loop_no_command:
  "Command a c \<notin> set (snd (consent_loop cfg os admin requester wholen deadline k inp))"
proof (induction cfg os admin requester wholen deadline k inp rule: consent_loop.induct)
  case (1 cfg os admin requester wholen deadline k inp)
  have cred: "Command a c \<notin> set (snd (check_cred cfg os wholen arg))" for arg
    by (auto simp: check_cred_def bad_password_def Let_def split: option.splits)
  show ?case
  proof (cases "consent_read_line 1024 deadline inp")
    case None
    then show ?thesis by (subst consent_loop.simps) simp
  next
    case (Some lr)
    obtain line rest where lr: "lr = (line, rest)" by fastforce
    obtain who1 fx1 where cc: "check_cred cfg os wholen (drop 5 line) = (who1, fx1)" by fastforce
    then have "Command a c \<notin> set fx1" using cred[of "drop 5 line"] by simp
    then show ?thesis
      using "1.IH"[OF Some lr[symmetric]] Some lr cc
      by (subst consent_loop.simps) (auto split: option.splits prod.splits)
  qed
qed

lemma try_seats_sound: "try_seats os uid ss = Some (sf, p) \<Longrightarrow> surface_connect os sf = Some p \<and> (\<exists>seat\<in>set ss. sf = seat_surface seat uid)"
  by (induction ss) (auto simp: Let_def split: if_splits option.splits)

lemma find_surface_in_sound:
  assumes "find_surface_in cfg os uid console_only = Some sf"
  shows "\<exists>p. bo_socket os (sf_control sf) = Some p \<and> peer_uid p = Some uid"
proof -
  obtain p where "surface_connect os sf = Some p" "peer_uid p = Some uid"
    using assms by (auto simp: find_surface_in_def Let_def split: option.splits if_splits dest: try_seats_sound)
  then show ?thesis by (auto simp: surface_connect_def split: if_splits)
qed

lemma obtain_consent_sound:
  assumes "obtain_consent cfg os now inp (is_admin_name cfg (bo_accounts os) requester) requester uid argv wholen
      = (Some who, sf, fx)"
    and "bo_getenv os ''SG_BROKER_TEST'' = None" and "length requester < wholen"
  shows "is_admin_name cfg (bo_accounts os) who \<and>
    (who = requester \<or> (\<exists>p. AskPam who p \<in> set fx \<and> check_password (bo_monitor os) who p)) \<and>
    (\<exists>p. bo_socket os (sf_control sf) = Some p \<and> peer_uid p = Some uid) \<and>
    surface_command os sf (''SECURE'' @ [LF]) 64 = Some ''OK secure''"
proof -
  let ?admin = "is_admin_name cfg (bo_accounts os) requester"
  obtain sf' where sf': "find_surface cfg os uid = Some sf'"
    using assms(1,2) by (auto simp: obtain_consent_def split: option.splits)
  obtain who' fx' where loop: "consent_loop cfg os ?admin requester wholen
      (now + env_timeout os ''SG_CONSENT_TIMEOUT'' 120) 0 inp = (who', fx')" by fastforce
  have res: "who' = Some who" "sf' = sf" "set fx' \<subseteq> set fx"
    "surface_command os sf (''SECURE'' @ [LF]) 64 = Some ''OK secure''"
    using assms(1,2) sf' loop by (auto simp: obtain_consent_def Let_def split: if_splits)
  have peer: "\<exists>p. bo_socket os (sf_control sf) = Some p \<and> peer_uid p = Some uid"
    using find_surface_in_sound sf' unfolding find_surface_def res(2) by blast
  have "if ?admin then who = snprintf_s wholen requester
     else is_admin_name cfg (bo_accounts os) who \<and> length who < wholen \<and>
       (\<exists>p. AskPam who p \<in> set fx' \<and> check_password (bo_monitor os) who p)"
    by (rule consent_loop_sound[OF loop[unfolded res(1)]])
  then show ?thesis using assms(3) res(3,4) peer by (auto split: if_splits)
qed

text \<open>
  C10.  Only an administrator consents, and only on the requester's own screen: when
  \<open>obtain_consent\<close> allows, whoever authorised is a member of the administrators' group
  -- the requester, who said yes on the prompt, or someone else whose name and password
  were checked and accepted in this very conversation.  It took place on a compositor
  run by the requester's uid, which had confirmed the secure mode before the prompt
  started.
\<close>

theorem consent_by_admin:
  assumes "obtain_consent cfg os now inp (is_admin_name cfg (bo_accounts os) requester) requester uid argv wholen
      = (Some who, sf, fx)"
    and "bo_getenv os ''SG_BROKER_TEST'' = None" and "length requester < wholen"
  shows "is_admin_name cfg (bo_accounts os) who \<and>
    (who = requester \<or> (\<exists>p. AskPam who p \<in> set fx \<and> check_password (bo_monitor os) who p)) \<and>
    (\<exists>p. bo_socket os (sf_control sf) = Some p \<and> peer_uid p = Some uid) \<and>
    surface_command os sf (''SECURE'' @ [LF]) 64 = Some ''OK secure''"
  using assms by (rule obtain_consent_sound)

text \<open>
  The screen is always given back: whenever the compositor entered its secure mode
  for a prompt, the last thing the conversation does is to release it, exactly once,
  whatever the prompt answered; and a conversation asks for at most three passwords.
\<close>

theorem consent_releases:
  assumes "bo_getenv os ''SG_BROKER_TEST'' = None" and "find_surface cfg os uid = Some sf"
    and "surface_command os sf (''SECURE'' @ [LF]) 64 = Some ''OK secure''"
  shows "\<exists>who fx. obtain_consent cfg os now inp admin requester uid argv wholen =
      (who, sf, Command (sf_control sf) (''SECURE'' @ [LF]) # fx @ [Command (sf_control sf) (''RELEASE'' @ [LF])]) \<and>
    (\<forall>c. Command (sf_control sf) c \<notin> set fx) \<and>
    length (filter (\<lambda>e. \<exists>u p. e = AskPam u p) fx) \<le> 3"
proof -
  obtain who fx where loop: "consent_loop cfg os admin requester wholen
      (now + env_timeout os ''SG_CONSENT_TIMEOUT'' 120) 0 inp = (who, fx)" by fastforce
  have no_command: "Command a c \<notin> set (snd (consent_loop cfg os admin requester wholen dl k inp))" for a c dl k
    by (rule consent_loop_no_command)
  have "\<forall>c. Command (sf_control sf) c \<notin> set fx"
    using no_command[of "sf_control sf" _ "now + env_timeout os ''SG_CONSENT_TIMEOUT'' 120" 0] loop by simp
  moreover have "length (filter (\<lambda>e. \<exists>u p. e = AskPam u p) fx) \<le> 3"
    using consent_loop_asks[of cfg os admin requester wholen "now + env_timeout os ''SG_CONSENT_TIMEOUT'' 120" 0 inp]
      loop by simp
  ultimately show ?thesis
    using assms loop by (cases "bo_ui_starts os") (auto simp: obtain_consent_def Let_def)
qed

lemma obtain_shadow_consent_sound:
  assumes "obtain_shadow_consent cfg os now inp requester target mode = (True, fx)"
    and "bo_getenv os ''SG_BROKER_TEST'' = None"
  shows "\<exists>sf p rest. bo_socket os (sf_control sf) = Some p \<and> peer_uid p = Some target \<and>
    surface_command os sf (''SECURE'' @ [LF]) 64 = Some ''OK secure'' \<and>
    StartUi (sf_priv sf) ''shadow'' requester mode \<in> set fx \<and>
    consent_read_line 256 (now + env_timeout os ''SG_SHADOW_CONSENT_TIMEOUT'' 30) inp = Some (''ALLOW'', rest)"
proof -
  obtain sf where sf: "find_surface_in cfg os target True = Some sf"
    using assms by (auto simp: obtain_shadow_consent_def split: option.splits)
  have "surface_command os sf (''SECURE'' @ [LF]) 64 = Some ''OK secure''"
    "StartUi (sf_priv sf) ''shadow'' requester mode \<in> set fx"
    "\<exists>rest. consent_read_line 256 (now + env_timeout os ''SG_SHADOW_CONSENT_TIMEOUT'' 30) inp = Some (''ALLOW'', rest)"
    using assms sf by (auto simp: obtain_shadow_consent_def Let_def split: if_splits option.splits)
  then show ?thesis using find_surface_in_sound[OF sf] by blast
qed

text \<open>The word of a console's user: their own compositor was in its secure mode and the prompt there answered ALLOW in time.\<close>

definition shadow_agreed :: "broker_os \<Rightarrow> time_t \<Rightarrow> ui_input \<Rightarrow> uid_t \<Rightarrow> bool" where
  "shadow_agreed os now inp target \<longleftrightarrow>
     (\<exists>sf p rest. bo_socket os (sf_control sf) = Some p \<and> peer_uid p = Some target \<and>
        surface_command os sf (''SECURE'' @ [LF]) 64 = Some ''OK secure'' \<and>
        consent_read_line 256 (now + env_timeout os ''SG_SHADOW_CONSENT_TIMEOUT'' 30) inp = Some (''ALLOW'', rest))"

lemma obtain_shadow_consent_agreed:
  assumes "obtain_shadow_consent cfg os now inp requester target mode = (True, fx)"
    and "bo_getenv os ''SG_BROKER_TEST'' = None"
  shows "shadow_agreed os now inp target"
  using obtain_shadow_consent_sound[OF assms] unfolding shadow_agreed_def
  by (elim exE conjE) (intro exI conjI, assumption+)

text \<open>An example: a compositor of uid 1001 at the console that goes into its secure mode.\<close>

definition ex_seat_os :: broker_os where
  "ex_seat_os = ex_broker_os\<lparr>bo_socket := (\<lambda>path.
     if path = ''/run/stained-glass-seat/seat0/'' @ show_u32 1001 @ ''/control.sock''
     then Some \<lparr>peer_uid = Some 1001, peer_answer = (\<lambda>cmd. Some (''OK secure'' @ [LF]))\<rparr> else None)\<rparr>"

definition ex_surface :: surface where
  "ex_surface = seat_surface ''/run/stained-glass-seat/seat0'' 1001"

lemma show_1001: "show_u32 1001 = ''1001''"
  by code_simp

lemma ex_surface_found: "find_surface_in default_cfg ex_seat_os 1001 b = Some ex_surface"
  by (simp add: find_surface_in_def ex_seat_os_def ex_broker_os_def seats_def default_cfg_def seat_surface_def
    ex_surface_def surface_connect_def show_1001 Let_def snprintf_s_def take_Cons')

lemma ex_surface_secure: "surface_command ex_seat_os ex_surface (''SECURE'' @ [LF]) 64 = Some ''OK secure''"
  by (simp add: surface_command_def surface_connect_def ex_surface_def ex_seat_os_def ex_broker_os_def seat_surface_def
    show_1001 cstr_def before_def)

definition ex_yes :: ui_input where
  "ex_yes = map (\<lambda>c. (100, c)) (''ALLOW'' @ [LF])"

lemma ex_yes_line: "100 < dl \<Longrightarrow> 6 < sz \<Longrightarrow> consent_read_line sz dl ex_yes = Some (''ALLOW'', [])"
  by (simp add: consent_read_line_def ex_yes_def consent_chars_Cons cstr_def)

lemma ex_ui_starts: "bo_ui_starts ex_seat_os"
  by (simp add: ex_seat_os_def ex_broker_os_def)

lemma ex_no_test: "bo_getenv ex_seat_os n = None"
  by (simp add: ex_seat_os_def ex_broker_os_def)

lemma ex_alice_admin: "is_admin_name default_cfg (bo_accounts ex_seat_os) ''alice''"
  by (simp add: is_admin_name_def default_cfg_def ex_seat_os_def ex_broker_os_def ex_defs)

lemma ex_consent:
  "fst (obtain_consent default_cfg ex_seat_os 100 ex_yes True ''alice'' 1001 [''regedit''] 256) = Some ''alice''"
proof -
  have "consent_loop default_cfg ex_seat_os True ''alice'' 256 (100 + env_timeout ex_seat_os ''SG_CONSENT_TIMEOUT'' 120) 0 ex_yes
      = (Some ''alice'', [])"
    by (subst consent_loop.simps) (simp add: ex_yes_line env_timeout_def ex_no_test)
  then show ?thesis
    using ex_surface_found[of False] ex_surface_secure
    by (simp add: obtain_consent_def find_surface_def ex_no_test Let_def ex_ui_starts)
qed

theorem consent_by_admin_witness:
  "\<exists>sf fx. obtain_consent default_cfg ex_seat_os 100 ex_yes True ''alice'' 1001 [''regedit''] 256 = (Some ''alice'', sf, fx)
     \<and> (\<exists>p. bo_socket ex_seat_os (sf_control sf) = Some p \<and> peer_uid p = Some 1001)"
proof -
  obtain sf fx where r: "obtain_consent default_cfg ex_seat_os 100 ex_yes True ''alice'' 1001 [''regedit''] 256 = (Some ''alice'', sf, fx)"
    using ex_consent by (cases "obtain_consent default_cfg ex_seat_os 100 ex_yes True ''alice'' 1001 [''regedit''] 256") auto
  have "obtain_consent default_cfg ex_seat_os 100 ex_yes (is_admin_name default_cfg (bo_accounts ex_seat_os) ''alice'')
      ''alice'' 1001 [''regedit''] 256 = (Some ''alice'', sf, fx)"
    using r ex_alice_admin by simp
  from consent_by_admin[OF this ex_no_test] show ?thesis using r by auto
qed

theorem consent_releases_witness:
  "\<exists>who fx. obtain_consent default_cfg ex_seat_os 100 [] False ''bob'' 1001 [''regedit''] 256 =
      (who, ex_surface, Command (sf_control ex_surface) (''SECURE'' @ [LF]) # fx @
        [Command (sf_control ex_surface) (''RELEASE'' @ [LF])])"
proof -
  have "find_surface default_cfg ex_seat_os 1001 = Some ex_surface"
    using ex_surface_found[of False] by (simp add: find_surface_def)
  from consent_releases[OF ex_no_test this ex_surface_secure, of 100 "[]" False "''bob''" "[''regedit'']" 256]
  show ?thesis by (elim exE conjE) (intro exI, assumption)
qed

section \<open>What the prompt and the log can hold\<close>

definition visible :: "char \<Rightarrow> bool" where
  "visible c \<longleftrightarrow> 32 \<le> code c \<and> code c \<noteq> 127 \<and> c \<noteq> DQ"

lemma visible_shown_char: "visible (shown_char c)"
  by (simp add: visible_def shown_char_def)

lemma visible_dots: "visible CHR '' ''" "visible CHR ''.''"
  by (simp_all add: visible_def)

lemma list_all_take: "list_all P xs \<Longrightarrow> list_all P (take n xs)"
  by (auto simp: list_all_iff dest: in_set_takeD)

lemma describe_arg_visible: "list_all visible out \<Longrightarrow> list_all visible (describe_arg sz a out)"
proof -
  assume "list_all visible out"
  then have "list_all visible ((if out \<noteq> [] then out @ '' '' else out) @ map shown_char a)"
    using visible_shown_char visible_dots(1) by (auto simp: list_all_iff)
  then show ?thesis using \<open>list_all visible out\<close> by (simp only: describe_arg_def list_all_take split: if_split) simp
qed

lemma describe_fold_visible: "list_all visible out \<Longrightarrow> list_all visible (fold (describe_arg sz) args out)"
  by (induction args arbitrary: out) (simp_all add: describe_arg_visible)

text \<open>
  C19.  The password of a failed credential prompt can reach the Security log: when the
  name typed is too long for its buffer, the line is not split, and the audit record
  names the whole of it, password included, as the account.
\<close>

theorem cred_long_name_logs_password:
  assumes "TAB \<notin> set name" and "wholen \<le> length name"
  shows "check_cred cfg os wholen (name @ TAB # pass) =
    (None, [Audit 4625 False 12544 [name @ TAB # pass, computer_name os, ''2 (Interactive)'',
       ''Unknown user name or bad password.'', BROKER_PROCESS, ''-'']])"
  using assms by (simp add: check_cred_def strchr_split before_split bad_password_def)

theorem cred_long_name_witness:
  "check_cred default_cfg ex_seat_os 256 (replicate 256 CHR ''a'' @ TAB # ''secret'') =
    (None, [Audit 4625 False 12544 [replicate 256 CHR ''a'' @ TAB # ''secret'', computer_name ex_seat_os,
       ''2 (Interactive)'', ''Unknown user name or bad password.'', BROKER_PROCESS, ''-'']])"
  by (rule cred_long_name_logs_password) (simp_all only: set_replicate_conv_if length_replicate, simp)

end
