(* ===== verification/Sg_Launch.thy ===== *)
theory Sg_Launch
  imports Sg_Consent
begin

text \<open>
  Starting programs, \<open>broker/sg-brokerd.c\<close>: a program as another account
  (\<open>handle_launch\<close>, lines 561 to 640: the wineserver's launch ticket, taken once, and
  the request for the monitor) and the elevated program (\<open>launch\<close>, lines 988 to 1150:
  its environment, directory, arguments and exit status).

  What \<open>launch\<close> starts is a \<open>child\<close>; the processes around it (the one that answers the
  requester, sg-elevated-run's status pipe) appear through \<open>program_code\<close>.  The file
  descriptor of the status pipe is not modelled, so neither is the variable that names
  it.
\<close>

section \<open>The launch ticket\<close>

record ticket_fields =
  tk_kind :: bool
  tk_uid :: u32
  tk_for :: u32
  tk_expires :: int

definition no_fields :: ticket_fields where
  "no_fields = \<lparr>tk_kind = False, tk_uid = 0xffffffff, tk_for = 0xffffffff, tk_expires = 0\<rparr>"

text \<open>One line of the file: the buffer from its start on.\<close>

definition ticket_line :: "string \<Rightarrow> ticket_fields \<Rightarrow> ticket_fields" where
  "ticket_line p t =
     (if starts (''kind=launch'' @ [LF]) p then t\<lparr>tk_kind := True\<rparr>
      else if starts ''uid='' p then t\<lparr>tk_uid := strtou32 (drop 4 p)\<rparr>
      else if starts ''for='' p then t\<lparr>tk_for := strtou32 (drop 4 p)\<rparr>
      else if starts ''expires='' p then t\<lparr>tk_expires := strtol10 (drop 8 p)\<rparr>
      else t)"

lemma strchr_shrinks: "strchr s c = Some r \<Longrightarrow> length (tl r) < length s"
proof -
  assume "strchr s c = Some r"
  then have r: "r = dropWhile (\<lambda>x. x \<noteq> c) s" "r \<noteq> []" by (auto simp: strchr_def split: list.splits)
  then have "length r \<le> length s" by (simp add: length_dropWhile_le)
  moreover have "length (tl r) < length r" using r(2) by simp
  ultimately show ?thesis by (rule less_le_trans[rotated])
qed

function parse_ticket :: "string \<Rightarrow> ticket_fields \<Rightarrow> ticket_fields" where
  "parse_ticket p t =
     (if p = [] then t
      else case strchr p LF of
             None \<Rightarrow> ticket_line p t
           | Some r \<Rightarrow> parse_ticket (tl r) (ticket_line p t))"
  by pat_completeness auto
termination
  by (relation "measure (length \<circ> fst)") (simp_all only: wf_measure in_measure comp_apply fst_conv strchr_shrinks)

declare parse_ticket.simps [simp del]

text \<open>The name a ticket can have: 32 hexadecimal digits.\<close>

definition ticket_name :: "string \<Rightarrow> bool" where
  "ticket_name s \<longleftrightarrow> length s = 32 \<and> list_all (\<lambda>c. c \<in> set ''0123456789abcdef'') s"

text \<open>A file the broker takes a ticket from: octal 077 is 63.\<close>

definition ticket_usable :: "broker_os \<Rightarrow> ticket_file \<Rightarrow> bool" where
  "ticket_usable os f \<longleftrightarrow> tf_regular f \<and> tf_mode f AND 63 = 0 \<and> (tf_uid f = bo_euid os \<or> tf_uid f = 0) \<and>
     take 255 (tf_text f) \<noteq> []"

definition read_ticket :: "ticket_file \<Rightarrow> ticket_fields" where
  "read_ticket f = parse_ticket (cstr (take 255 (tf_text f))) no_fields"

section \<open>A program as another account\<close>

text \<open>The request for the monitor, if it fits.\<close>

definition launch_head :: "string \<Rightarrow> string \<Rightarrow> string \<Rightarrow> uid_t \<Rightarrow> bytes" where
  "launch_head cwd ticket ctl uid = cput cwd @ cput ticket @ cput ctl @ cput (show_u32 uid)"

fun launch_args :: "string list \<Rightarrow> bytes \<Rightarrow> bytes option" where
  "launch_args [] blob = Some blob"
| "launch_args (a # as) blob =
     (if length blob + (length a + 1) > MAXBLOB then None else launch_args as (blob @ cput a))"

definition launch_blob :: "string \<Rightarrow> string \<Rightarrow> string \<Rightarrow> uid_t \<Rightarrow> string list \<Rightarrow> bytes option" where
  "launch_blob cwd ticket ctl uid argv =
     (if length (launch_head cwd ticket ctl uid) \<ge> MAXBLOB then None
      else launch_args argv (launch_head cwd ticket ctl uid))"

definition ask_spawn :: "(bytes \<Rightarrow> bool option) \<Rightarrow> u32 \<Rightarrow> bytes \<Rightarrow> bool" where
  "ask_spawn mon uid blob = (mon (le32 MONITOR_SPAWN @ le32 uid @ le32 (word_of_nat (length blob)) @ blob) = Some True)"

definition handle_launch :: "broker_cfg \<Rightarrow> broker_os \<Rightarrow> time_t \<Rightarrow> uid_t \<Rightarrow> string list \<Rightarrow> string list
    \<Rightarrow> broker \<Rightarrow> broker \<times> effect list" where
  "handle_launch cfg os now uid envp argv st =
     (let cwd = (case env_value ''LAUNCH_CWD='' envp of Some c \<Rightarrow> c | None \<Rightarrow> [])
      in case env_value ''LAUNCH_TICKET='' envp of
        None \<Rightarrow> (st, [status_reply 1])
      | Some ticket \<Rightarrow>
          if \<not> ticket_name ticket \<or> argv = [] then (st, [status_reply 1])
          else case tickets st ticket of
            None \<Rightarrow> (st, [status_reply 1])
          | Some f \<Rightarrow>
              if \<not> ticket_usable os f then (st, [status_reply 1])
              else let t = read_ticket f
              in if \<not> tk_kind t \<or> tk_for t \<noteq> uid then (st, [status_reply 1])
                 else let st' = st\<lparr>tickets := (tickets st)(ticket := None)\<rparr>
                 in if tk_expires t < now then (st', [status_reply 1])
                    else case launch_blob cwd ticket
                           (case find_surface cfg os uid of Some sf \<Rightarrow> sf_control sf | None \<Rightarrow> []) uid argv of
                      None \<Rightarrow> (st', [status_reply 1])
                    | Some blob \<Rightarrow>
                        (st', [LaunchAs (tk_uid t) blob,
                               status_reply (if ask_spawn (bo_monitor os) (tk_uid t) blob then 0 else 1)]))"

section \<open>The elevated program\<close>

definition locale_char :: "char \<Rightarrow> bool" where
  "locale_char c \<longleftrightarrow> islower c \<or> isupper c \<or> isdigit c \<or> c \<in> set ''_.-@''"

definition locale_ok :: "string \<Rightarrow> bool" where
  "locale_ok v \<longleftrightarrow> v \<noteq> [] \<and> length v \<le> 64 \<and> list_all locale_char v"

definition channel_char :: "char \<Rightarrow> bool" where
  "channel_char c \<longleftrightarrow> islower c \<or> isupper c \<or> isdigit c \<or> c \<in> set ''+-_,''"

definition debug_channels_ok :: "string \<Rightarrow> bool" where
  "debug_channels_ok v \<longleftrightarrow> v \<noteq> [] \<and> length v \<le> 512 \<and> list_all channel_char v"

definition passed_on :: "string list" where
  "passed_on = [''WINEPREFIX='', ''SG_USER_APPS_LIGHT='', ''SG_USER_SYSTEM_LIGHT='', ''SG_USER_ACCENT='']"

text \<open>One entry of the requester's environment, and whether its standard error is used.\<close>

definition launch_entry :: "bool \<Rightarrow> string \<Rightarrow> env \<times> bool \<Rightarrow> env \<times> bool" where
  "launch_entry errfd kv = (\<lambda>(e, err).
     let e1 = (if list_ex (\<lambda>p. starts p kv) passed_on then putenv kv e else e);
         e2 = (if starts ''LANG='' kv \<and> locale_ok (drop 5 kv) then setenv ''LANG'' (drop 5 kv) e1 else e1)
     in if errfd \<and> starts ''WINEDEBUG='' kv \<and> debug_channels_ok (drop 10 kv) then (putenv kv e2, True) else (e2, err))"

definition system_env :: "passwd option \<Rightarrow> env" where
  "system_env pw =
     (let e = (case pw of
                 None \<Rightarrow> Map.empty
               | Some p \<Rightarrow> [''USER'' \<mapsto> pw_name p, ''LOGNAME'' \<mapsto> pw_name p,
                           ''HOME'' \<mapsto> (if pw_dir p \<noteq> [] then pw_dir p else ''/var/lib/stained-glass'')])
      in e(''PATH'' \<mapsto> ''/opt/wine-sg/bin:/usr/local/bin:/usr/bin:/bin'', ''SG_IN_BROKER'' \<mapsto> ''1'', ''LANG'' \<mapsto> ''C.UTF-8''))"

text \<open>
  What is run, and whether its standard error is the requester's.  With a compositor it
  is sg-elevated-run with the program after it: the array of 260 holds 253 of its words.
\<close>

definition launch_child :: "broker_cfg \<Rightarrow> broker_os \<Rightarrow> string list \<Rightarrow> string list \<Rightarrow> string \<Rightarrow> surface \<Rightarrow> uid_t \<Rightarrow> bool
    \<Rightarrow> child \<times> bool" where
  "launch_child cfg os argv envp cwd sf uid errfd =
     (case fold (launch_entry errfd) envp (system_env (getpwnam (bo_accounts os) (g_system_user cfg)), False) of
        (e, err) \<Rightarrow>
          (\<lparr>ch_user = getpwnam (bo_accounts os) (g_system_user cfg),
            ch_env = e,
            ch_dirs = (if cwd \<noteq> [] then [cwd, ''/''] else []),
            ch_argv = (if sf_control sf \<noteq> []
                       then [g_elevated_run cfg, ''--control'', sf_control sf, ''--uid'', show_u32 uid, ''--''] @ take 253 argv
                       else argv)\<rparr>, err))"

definition launch :: "broker_cfg \<Rightarrow> broker_os \<Rightarrow> string list \<Rightarrow> string list \<Rightarrow> string \<Rightarrow> surface \<Rightarrow> uid_t \<Rightarrow> bool
    \<Rightarrow> effect list option" where
  "launch cfg os argv envp cwd sf uid errfd =
     (if \<not> bo_can_fork os then None
      else case launch_child cfg os argv envp cwd sf uid errfd of (c, err) \<Rightarrow> Some [status_reply 0, LaunchElevated c err])"

text \<open>The exit status the requester gets: what the status pipe held, or how the process ended.\<close>

definition program_code :: "bytes option \<Rightarrow> wait_status \<Rightarrow> u32" where
  "program_code pipe st =
     (case (case pipe of None \<Rightarrow> None | Some bs \<Rightarrow> read_u32 bs) of
        Some (c, _) \<Rightarrow> c
      | None \<Rightarrow> (case st of Exited n \<Rightarrow> word_of_nat n | Signaled n \<Rightarrow> 128 + word_of_nat n))"

section \<open>The environment of the elevated program\<close>

lemma strchr_in: "c \<in> set s \<Longrightarrow> strchr s c = Some (c # drop (length (before s {c}) + 1) s)"
  by (induction s) (auto simp: strchr_def before_def)

lemma putenv_starts:
  assumes "CHR ''='' \<notin> set n" and "starts (n @ ''='') kv"
  shows "putenv kv e = setenv n (drop (length n + 1) kv) e"
proof -
  obtain v where "kv = n @ CHR ''='' # v" using assms(2) by (auto simp: starts_iff)
  then show ?thesis using assms(1) by (simp add: putenv_def strchr_split before_split)
qed

text \<open>The variables an elevated program can have.\<close>

definition elevated_names :: "string set" where
  "elevated_names = {''USER'', ''LOGNAME'', ''HOME'', ''PATH'', ''SG_IN_BROKER'', ''LANG'', ''WINEPREFIX'',
     ''SG_USER_APPS_LIGHT'', ''SG_USER_SYSTEM_LIGHT'', ''SG_USER_ACCENT'', ''WINEDEBUG''}"

definition elevated_env :: "bool \<Rightarrow> env \<times> bool \<Rightarrow> bool" where
  "elevated_env errfd = (\<lambda>(e, err). dom e \<subseteq> elevated_names \<and>
     e ''PATH'' = Some ''/opt/wine-sg/bin:/usr/local/bin:/usr/bin:/bin'' \<and> e ''SG_IN_BROKER'' = Some ''1'' \<and>
     (\<exists>l. e ''LANG'' = Some l \<and> locale_ok l) \<and>
     (\<forall>d. e ''WINEDEBUG'' = Some d \<longrightarrow> errfd \<and> debug_channels_ok d) \<and> (err \<longrightarrow> errfd))"

lemma passed_on_cases:
  assumes "list_ex (\<lambda>p. starts p kv) passed_on"
  obtains n where "n \<in> {''WINEPREFIX'', ''SG_USER_APPS_LIGHT'', ''SG_USER_SYSTEM_LIGHT'', ''SG_USER_ACCENT''}"
    and "\<forall>e. putenv kv e = setenv n (drop (length n + 1) kv) e"
proof -
  have "\<exists>n\<in>{''WINEPREFIX'', ''SG_USER_APPS_LIGHT'', ''SG_USER_SYSTEM_LIGHT'', ''SG_USER_ACCENT''}. starts (n @ ''='') kv"
    using assms by (auto simp: passed_on_def)
  then obtain n where n: "n \<in> {''WINEPREFIX'', ''SG_USER_APPS_LIGHT'', ''SG_USER_SYSTEM_LIGHT'', ''SG_USER_ACCENT''}"
    "starts (n @ ''='') kv" by blast
  moreover have "CHR ''='' \<notin> set n" using n(1) by auto
  ultimately show ?thesis using that putenv_starts by metis
qed

lemma elevated_env_passed:
  assumes "elevated_env errfd (e, err)" and "n \<in> {''WINEPREFIX'', ''SG_USER_APPS_LIGHT'', ''SG_USER_SYSTEM_LIGHT'', ''SG_USER_ACCENT''}"
  shows "elevated_env errfd (setenv n v e, err)"
proof -
  have "n \<in> elevated_names" "n \<notin> {''PATH'', ''SG_IN_BROKER'', ''LANG'', ''WINEDEBUG''}"
    using assms(2) by (auto simp: elevated_names_def)
  then show ?thesis using assms(1) by (auto simp: elevated_env_def)
qed

lemma launch_entry_env:
  assumes "elevated_env errfd (e, err)"
  shows "elevated_env errfd (launch_entry errfd kv (e, err))"
proof -
  define e1 where "e1 = (if list_ex (\<lambda>p. starts p kv) passed_on then putenv kv e else e)"
  define e2 where "e2 = (if starts ''LANG='' kv \<and> locale_ok (drop 5 kv) then setenv ''LANG'' (drop 5 kv) e1 else e1)"
  have 1: "elevated_env errfd (e1, err)"
  proof (cases "list_ex (\<lambda>p. starts p kv) passed_on")
    case True
    then obtain n where "n \<in> {''WINEPREFIX'', ''SG_USER_APPS_LIGHT'', ''SG_USER_SYSTEM_LIGHT'', ''SG_USER_ACCENT''}"
      and eq: "\<forall>e. putenv kv e = setenv n (drop (length n + 1) kv) e" by (rule passed_on_cases)
    then show ?thesis using elevated_env_passed[OF assms] True by (simp only: e1_def if_True eq)
  qed (simp add: e1_def assms)
  then have 2: "elevated_env errfd (e2, err)"
    by (auto simp: e2_def elevated_env_def elevated_names_def)
  show ?thesis
  proof (cases "errfd \<and> starts ''WINEDEBUG='' kv \<and> debug_channels_ok (drop 10 kv)")
    case True
    then have "putenv kv e2 = setenv ''WINEDEBUG'' (drop 10 kv) e2"
      using putenv_starts[of "''WINEDEBUG''" kv e2] by (simp add: eval_nat_numeral)
    moreover have "launch_entry errfd kv (e, err) = (putenv kv e2, True)"
      using True by (simp only: launch_entry_def Let_def prod.case e1_def[symmetric] e2_def[symmetric] if_True simp_thms)
    ultimately show ?thesis using 2 True by (auto simp: elevated_env_def elevated_names_def)
  next
    case False
    then show ?thesis using 2
      by (simp only: launch_entry_def Let_def prod.case e1_def[symmetric] e2_def[symmetric] if_False)
  qed
qed

lemma system_env_elevated: "elevated_env errfd (system_env pw, False)"
  by (cases pw) (auto simp: elevated_env_def system_env_def elevated_names_def Let_def locale_ok_def locale_char_def char_class_defs)

lemma fold_launch_entry: "elevated_env errfd x \<Longrightarrow> elevated_env errfd (fold (launch_entry errfd) envp x)"
proof (induction envp arbitrary: x)
  case (Cons kv envp)
  have "elevated_env errfd (launch_entry errfd kv x)" using Cons.prems launch_entry_env by (cases x) blast
  then show ?case using Cons.IH by simp
qed simp



section \<open>Launch tickets\<close>

lemma show_u32_length: "length (show_u32 w) \<le> 10"
  using show_nat_length[of 10 "unat w"] unat_u32_less[of w] by (simp add: show_u32_def)

lemma show_int_length: "- (2 ^ 63) \<le> i \<Longrightarrow> i < 2 ^ 63 \<Longrightarrow> length (show_int i) \<le> 20"
proof -
  assume i: "- (2 ^ 63) \<le> i" "i < 2 ^ 63"
  show ?thesis
  proof (cases "i < 0")
    case True
    then have "nat (- i) < 10 ^ 19" using i(1) by (simp add: nat_less_iff)
    then show ?thesis using show_nat_length[of 19 "nat (- i)"] True by (simp add: show_int_def)
  next
    case False
    then have "nat i < 10 ^ 19" using i(2) by (simp add: nat_less_iff)
    then show ?thesis using show_nat_length[of 19 "nat i"] False by (simp add: show_int_def)
  qed
qed

lemma show_u32_line: "LF \<notin> set (show_u32 w)" "NUL \<notin> set (show_u32 w)"
  using show_nat_avoids by (auto simp: show_u32_def isdigit_def)

lemma show_int_line: "LF \<notin> set (show_int i)" "NUL \<notin> set (show_int i)"
  by (rule show_int_avoids; simp add: isdigit_def)+

lemma parse_ticket_Nil [simp]: "parse_ticket [] t = t"
  by (simp add: parse_ticket.simps)

lemma parse_ticket_line: "LF \<notin> set l \<Longrightarrow> parse_ticket (l @ LF # rest) t = parse_ticket rest (ticket_line (l @ LF # rest) t)"
  by (subst parse_ticket.simps) (simp add: strchr_split)

lemma ticket_line_uid: "ticket_line (''uid='' @ show_u32 w @ LF # r) t = t\<lparr>tk_uid := w\<rparr>"
  using strtou32_show[of "LF # r" w] by (simp add: ticket_line_def starts_def isdigit_def)

lemma ticket_line_for: "ticket_line (''for='' @ show_u32 w @ LF # r) t = t\<lparr>tk_for := w\<rparr>"
  using strtou32_show[of "LF # r" w] by (simp add: ticket_line_def starts_def isdigit_def)

lemma ticket_line_type: "ticket_line (''type='' @ s) t = t"
  by (simp add: ticket_line_def starts_def)

lemma ticket_line_expires:
  "- (2 ^ 63) \<le> i \<Longrightarrow> i < 2 ^ 63 \<Longrightarrow> ticket_line (''expires='' @ show_int i @ LF # r) t = t\<lparr>tk_expires := i\<rparr>"
  using strtol10_show_int[of i "LF # r"] by (simp add: ticket_line_def starts_def isdigit_def)

lemma parse_uid: "parse_ticket (''uid='' @ show_u32 w @ LF # r) t = parse_ticket r (t\<lparr>tk_uid := w\<rparr>)"
  using parse_ticket_line[of "''uid='' @ show_u32 w" r t] ticket_line_uid[of w r t] by (simp add: show_u32_line)

lemma parse_for: "parse_ticket (''for='' @ show_u32 w @ LF # r) t = parse_ticket r (t\<lparr>tk_for := w\<rparr>)"
  using parse_ticket_line[of "''for='' @ show_u32 w" r t] ticket_line_for[of w r t] by (simp add: show_u32_line)

lemma parse_type: "parse_ticket (''type='' @ show_u32 w @ LF # r) t = parse_ticket r t"
  using parse_ticket_line[of "''type='' @ show_u32 w" r t] ticket_line_type[of "show_u32 w @ LF # r" t]
  by (simp add: show_u32_line)

lemma parse_expires:
  "- (2 ^ 63) \<le> i \<Longrightarrow> i < 2 ^ 63 \<Longrightarrow> parse_ticket (''expires='' @ show_int i @ [LF]) t = t\<lparr>tk_expires := i\<rparr>"
  using parse_ticket_line[of "''expires='' @ show_int i" "[]" t] ticket_line_expires[of i "[]" t] by (simp add: show_int_line)

lemma parse_kind: "parse_ticket (''kind=launch'' @ LF # r) t = parse_ticket r (t\<lparr>tk_kind := True\<rparr>)"
  using parse_ticket_line[of "''kind=launch''" r t] by (simp add: ticket_line_def starts_def)

section \<open>A launch request\<close>

lemma launch_args_spec:
  "launch_args argv blob = Some b \<Longrightarrow> b = blob @ concat (map cput argv) \<and> (length blob \<le> MAXBLOB \<longrightarrow> length b \<le> MAXBLOB)"
  by (induction argv blob rule: launch_args.induct) (auto split: if_splits)

lemma last_concat_cput: "argv \<noteq> [] \<Longrightarrow> last (concat (map cput argv)) = NUL"
  by (induction argv rule: rev_induct) (auto simp: cput_def)

lemma spawn_fields_written:
  assumes "nul_free cwd" and "nul_free ticket" and "nul_free ctl" and "\<forall>a\<in>set argv. nul_free a" and "argv \<noteq> []"
  shows "spawn_fields (launch_head cwd ticket ctl uid @ concat (map cput argv)) =
    Some (cwd, ticket, ctl, show_u32 uid, take 254 argv)"
proof -
  let ?args = "concat (map cput argv)"
  have args: "?args \<noteq> []" "last ?args = NUL" using assms(5) last_concat_cput by auto
  have "cstrings 254 ?args = take 254 argv" by (rule cstrings_cput[OF assms(4)])
  moreover have "take 254 argv \<noteq> []" using assms(5) by (cases argv) simp_all
  ultimately show ?thesis using assms args
    by (simp add: spawn_fields_def launch_head_def Let_def cstr_cput cskip_cput nul_free_show_u32)
qed

lemma handle_launch_asks:
  assumes "handle_launch cfg os now uid envp argv st = (st', fx)" and "LaunchAs u blob \<in> set fx"
  shows "\<exists>ticket f. env_value ''LAUNCH_TICKET='' envp = Some ticket \<and> ticket_name ticket \<and> argv \<noteq> [] \<and>
    tickets st ticket = Some f \<and> ticket_usable os f \<and> tk_kind (read_ticket f) \<and> tk_for (read_ticket f) = uid \<and>
    now \<le> tk_expires (read_ticket f) \<and> u = tk_uid (read_ticket f) \<and>
    st' = st\<lparr>tickets := (tickets st)(ticket := None)\<rparr> \<and>
    launch_blob (case env_value ''LAUNCH_CWD='' envp of Some c \<Rightarrow> c | None \<Rightarrow> []) ticket
      (case find_surface cfg os uid of Some sf \<Rightarrow> sf_control sf | None \<Rightarrow> []) uid argv = Some blob \<and>
    fx = [LaunchAs u blob, status_reply (if ask_spawn (bo_monitor os) u blob then 0 else 1)]"
  using assms
  by (auto simp: handle_launch_def Let_def status_reply_def split: option.splits if_splits)

lemma env_value_nul_free: "\<forall>e\<in>set envp. nul_free e \<Longrightarrow> env_value p envp = Some v \<Longrightarrow> nul_free v"
proof -
  have "\<forall>e\<in>set envp. nul_free e \<Longrightarrow> (\<And>v. acc = Some v \<Longrightarrow> nul_free v) \<Longrightarrow>
      fold (\<lambda>e acc. if starts p e then Some (drop (length p) e) else acc) envp acc = Some v \<Longrightarrow> nul_free v" for acc
    by (induction envp arbitrary: acc) (auto simp: nul_free_def dest: in_set_dropD split: if_splits)
  from this[of None] show "\<forall>e\<in>set envp. nul_free e \<Longrightarrow> env_value p envp = Some v \<Longrightarrow> nul_free v"
    by (simp add: env_value_def)
qed

text \<open>
  A program is started as another account only on a launch ticket of the right
  requester: the request reaches the monitor only if the named file is a private regular
  file of the broker's account or root, says \<open>kind=launch\<close>, is for the uid that asks and
  has not expired; the account is the ticket's.  The ticket is gone afterwards.  And the
  monitor reads out of the request exactly the directory, ticket, compositor and
  arguments the requester gave, up to the 254 it has room for.
\<close>

theorem launch_request_exact:
  assumes "handle_launch cfg os now uid envp argv st = (st', fx)" and "LaunchAs u blob \<in> set fx"
    and "\<forall>e\<in>set envp. nul_free e" and "\<forall>a\<in>set argv. nul_free a"
    and "\<forall>sf. find_surface cfg os uid = Some sf \<longrightarrow> nul_free (sf_control sf)"
  shows "\<exists>ticket f ctl. ticket_name ticket \<and> tickets st ticket = Some f \<and> tickets st' ticket = None \<and> ticket_usable os f \<and>
    tk_kind (read_ticket f) \<and> tk_for (read_ticket f) = uid \<and> now \<le> tk_expires (read_ticket f) \<and>
    u = tk_uid (read_ticket f) \<and>
    spawn_fields blob = Some (case env_value ''LAUNCH_CWD='' envp of Some c \<Rightarrow> c | None \<Rightarrow> [],
      ticket, ctl, show_u32 uid, take 254 argv) \<and> length blob \<le> MAXBLOB"
proof -
  define cwd where "cwd = (case env_value ''LAUNCH_CWD='' envp of Some c \<Rightarrow> c | None \<Rightarrow> [])"
  define ctl where "ctl = (case find_surface cfg os uid of Some sf \<Rightarrow> sf_control sf | None \<Rightarrow> [])"
  obtain ticket f where t: "ticket_name ticket" "argv \<noteq> []" "tickets st ticket = Some f" "ticket_usable os f"
      "tk_kind (read_ticket f)" "tk_for (read_ticket f) = uid" "now \<le> tk_expires (read_ticket f)"
      "u = tk_uid (read_ticket f)" "tickets st' ticket = None" "env_value ''LAUNCH_TICKET='' envp = Some ticket"
    and blob: "launch_blob cwd ticket ctl uid argv = Some blob"
    using handle_launch_asks[OF assms(1,2)] unfolding cwd_def ctl_def by auto
  have b: "blob = launch_head cwd ticket ctl uid @ concat (map cput argv)" "length blob \<le> MAXBLOB"
    using blob launch_args_spec[of argv "launch_head cwd ticket ctl uid" blob]
    by (auto simp: launch_blob_def split: if_splits)
  have value_free: "env_value p envp = Some v \<Longrightarrow> nul_free v" for p v
    using env_value_nul_free[OF assms(3)] .
  have "nul_free cwd" using value_free by (auto simp: cwd_def split: option.splits)
  moreover have "nul_free ticket" using value_free t(10) .
  moreover have "nul_free ctl" using assms(5) by (auto simp: ctl_def split: option.splits)
  ultimately have "spawn_fields blob = Some (cwd, ticket, ctl, show_u32 uid, take 254 argv)"
    unfolding b(1) using assms(4) t(2) by (rule spawn_fields_written)
  then show ?thesis using t b(2) unfolding cwd_def by blast
qed

text \<open>An example: a launch ticket of the wineserver's for uid 1002, and the request that uses it.\<close>

definition ex_launch_ticket :: string where
  "ex_launch_ticket = ''0123456789abcdef0123456789abcdef''"

definition ex_launch_file :: ticket_file where
  "ex_launch_file = \<lparr>tf_text = ''kind=launch'' @ LF # ''uid='' @ show_u32 1001 @ LF # ''for='' @ show_u32 1002 @ LF #
       ''expires='' @ show_int 200 @ [LF],
     tf_regular = True, tf_mode = 384, tf_uid = 990, tf_mtime = 100\<rparr>"

definition ex_launch_env :: "string list" where
  "ex_launch_env = [''LAUNCH_TICKET='' @ ex_launch_ticket]"

definition ex_launch_state :: broker where
  "ex_launch_state = \<lparr>logon_rate = rate_empty, tickets = [ex_launch_ticket \<mapsto> ex_launch_file]\<rparr>"

lemma ex_launch_read: "read_ticket ex_launch_file = \<lparr>tk_kind = True, tk_uid = 1001, tk_for = 1002, tk_expires = 200\<rparr>"
proof -
  define r2 where "r2 = ''expires='' @ show_int 200 @ [LF]"
  define r1 where "r1 = ''for='' @ show_u32 1002 @ LF # r2"
  define r0 where "r0 = ''uid='' @ show_u32 1001 @ LF # r1"
  have whole: "tf_text ex_launch_file = ''kind=launch'' @ LF # r0"
    by (simp add: ex_launch_file_def r0_def r1_def r2_def)
  have len: "length (tf_text ex_launch_file) \<le> 255"
    using show_u32_length[of 1001] show_u32_length[of 1002] show_int_length[of 200] by (simp add: ex_launch_file_def)
  have nul: "nul_free (tf_text ex_launch_file)"
    by (simp add: ex_launch_file_def nul_free_def show_u32_line show_int_line)
  have "read_ticket ex_launch_file = parse_ticket (''kind=launch'' @ LF # r0) no_fields"
    using len nul whole by (simp only: read_ticket_def take_all cstr_whole)
  then show ?thesis
    unfolding parse_kind r0_def parse_uid r1_def parse_for r2_def by (simp add: parse_expires[simplified] no_fields_def)
qed

lemma ex_no_surface: "find_surface default_cfg ex_broker_os uid = None"
proof -
  have "try_seats ex_broker_os uid ss = None" for ss
    by (induction ss) (simp_all add: surface_connect_def ex_broker_os_def Let_def)
  then show ?thesis by (simp add: find_surface_def find_surface_in_def) (simp add: ex_broker_os_def)
qed

lemma ex_launch_asks:
  "\<exists>st' fx blob. handle_launch default_cfg ex_broker_os 100 1002 ex_launch_env [''notepad''] ex_launch_state = (st', fx) \<and>
     LaunchAs 1001 blob \<in> set fx"
proof -
  have "env_value ''LAUNCH_TICKET='' ex_launch_env = Some ex_launch_ticket" "env_value ''LAUNCH_CWD='' ex_launch_env = None"
    "ticket_name ex_launch_ticket"
    by (simp_all add: env_value_def ex_launch_env_def ticket_name_def ex_launch_ticket_def starts_def)
  moreover have "ticket_usable ex_broker_os ex_launch_file"
    by (simp add: ticket_usable_def ex_launch_file_def ex_broker_os_def)
  moreover have "launch_blob [] ex_launch_ticket [] 1002 [''notepad''] \<noteq> None"
    using show_u32_length[of 1002]
    by (simp add: launch_blob_def launch_head_def MAXBLOB_def ex_launch_ticket_def)
  ultimately show ?thesis
    by (auto simp: handle_launch_def ex_launch_state_def ex_launch_read ex_no_surface)
qed

theorem launch_request_witness:
  "\<exists>st' fx blob ctl. handle_launch default_cfg ex_broker_os 100 1002 ex_launch_env [''notepad''] ex_launch_state = (st', fx) \<and>
     LaunchAs 1001 blob \<in> set fx \<and> spawn_fields blob = Some ([], ex_launch_ticket, ctl, show_u32 1002, [''notepad''])"
proof -
  obtain st' fx blob where h: "handle_launch default_cfg ex_broker_os 100 1002 ex_launch_env [''notepad''] ex_launch_state = (st', fx)"
    "LaunchAs 1001 blob \<in> set fx" using ex_launch_asks by blast
  have "\<forall>e\<in>set ex_launch_env. nul_free e" "\<forall>a\<in>set [''notepad'']. nul_free a"
    "\<forall>sf. find_surface default_cfg ex_broker_os 1002 = Some sf \<longrightarrow> nul_free (sf_control sf)"
    by (simp_all add: ex_launch_env_def ex_launch_ticket_def ex_no_surface)
  from launch_request_exact[OF h this] obtain ticket f ctl where
    t: "tickets ex_launch_state ticket = Some f" "spawn_fields blob = Some (case env_value ''LAUNCH_CWD='' ex_launch_env of
        Some c \<Rightarrow> c | None \<Rightarrow> [], ticket, ctl, show_u32 1002, take 254 [''notepad''])" by blast
  have "ticket = ex_launch_ticket" using t(1) by (auto simp: ex_launch_state_def split: if_splits)
  moreover have "env_value ''LAUNCH_CWD='' ex_launch_env = None"
    by (simp add: env_value_def ex_launch_env_def starts_def)
  ultimately show ?thesis using h t(2) by auto
qed

end
