(* ===== verification/Sg_Broker.thy ===== *)
theory Sg_Broker
  imports Sg_Launch
begin

text \<open>
  The broker's main loop, \<open>broker/sg-brokerd.c\<close> lines 1012 to 1041 and 1218 to 1398: how
  a request is read and taken apart, and what is done with it: LogonUser, a program as
  another account, shadow consent, polkit, and elevation.  The connection is the uid and
  pid the kernel gives for it (\<open>SO_PEERCRED\<close>), the bytes it sends and the number of
  descriptors sent along with the first ones.
\<close>

section \<open>The settings\<close>

definition main_cfg :: "(string \<Rightarrow> string option) \<Rightarrow> broker_cfg" where
  "main_cfg getenv =
     (let val = (\<lambda>name dflt. case getenv name of Some v \<Rightarrow> v | None \<Rightarrow> dflt)
      in \<lparr>g_admin_group = val ''SG_ADMIN_GROUP'' (g_admin_group default_cfg),
          g_system_user = val ''SG_SYSTEM_USER'' (g_system_user default_cfg),
          g_polkit_respond = val ''SG_POLKIT_RESPOND'' (g_polkit_respond default_cfg),
          g_ticket_dir = val ''SG_LOGON_TICKET_DIR'' (g_ticket_dir default_cfg),
          g_elevated_run = val ''SG_ELEVATED_RUN'' (g_elevated_run default_cfg),
          g_launch_wine = val ''SG_LAUNCH_WINE'' (g_launch_wine default_cfg),
          g_launch_prefix = val ''SG_LAUNCH_PREFIX'' (g_launch_prefix default_cfg),
          g_seat_dir = val ''SG_SEAT_DIR'' (g_seat_dir default_cfg),
          g_consent_ui = val ''SG_CONSENT_UI'' (g_consent_ui default_cfg)\<rparr>)"

section \<open>Reading a request\<close>

text \<open>The length, and whether a standard error came with it.\<close>

definition read_request_len :: "nat \<Rightarrow> bytes \<Rightarrow> (u32 \<times> bool \<times> bytes) option" where
  "read_request_len nfds bs = (case read_u32 bs of None \<Rightarrow> None | Some (len, rest) \<Rightarrow> Some (len, 0 < nfds, rest))"

definition read_blob :: "nat \<Rightarrow> bytes \<Rightarrow> (bytes \<times> bool) option" where
  "read_blob nfds bs =
     (case read_request_len nfds bs of
        None \<Rightarrow> None
      | Some (len, errfd, rest) \<Rightarrow>
          if len = 0 \<or> unat len > MAXBLOB then None
          else case read_full (unat len) rest of
            None \<Rightarrow> None
          | Some (blob, _) \<Rightarrow> Some (butlast blob @ [NUL], errfd))"

text \<open>The environment entries up to an empty string, and what is left of the buffer.\<close>

function split_env :: "bytes \<Rightarrow> string list \<times> bytes" where
  "split_env p =
     (if p = [] \<or> hd p = NUL then ([], p)
      else case split_env (cskip p) of (es, r) \<Rightarrow> (cstr p # es, r))"
  by pat_completeness auto
termination by (relation "measure length") (auto intro: length_cskip_less)

declare split_env.simps [simp del]

record request =
  rq_cwd :: string
  rq_envp :: "string list"
  rq_argv :: "string list"

definition parse_request :: "bytes \<Rightarrow> request" where
  "parse_request blob =
     (case split_env (cskip blob) of
        (es, r) \<Rightarrow> \<lparr>rq_cwd = cstr blob, rq_envp = take 63 es, rq_argv = cstrings 255 (tl r)\<rparr>)"

section \<open>What is done with it\<close>

text \<open>Shadow consent: for root, or for the broker's own account where that is not SYSTEM.\<close>

definition shadow_allowed :: "broker_cfg \<Rightarrow> broker_os \<Rightarrow> uid_t \<Rightarrow> passwd \<Rightarrow> bool" where
  "shadow_allowed cfg os uid rpw \<longleftrightarrow> uid = 0 \<or> uid = bo_euid os \<and> pw_name rpw \<noteq> g_system_user cfg"

definition handle_shadow :: "broker_cfg \<Rightarrow> broker_os \<Rightarrow> time_t \<Rightarrow> ui_input \<Rightarrow> uid_t \<Rightarrow> passwd \<Rightarrow> string list \<Rightarrow> effect list" where
  "handle_shadow cfg os now inp uid rpw envp =
     (if \<not> shadow_allowed cfg os uid rpw then [status_reply 1]
      else let target = (case env_value ''SHADOW_UID='' envp of Some v \<Rightarrow> strtol10 v | None \<Rightarrow> - 1)
      in case (env_value ''SHADOW_REQUESTER='' envp, env_value ''SHADOW_MODE='' envp) of
           (Some who, Some mode) \<Rightarrow>
             if plain_name who \<and> (mode = ''view'' \<or> mode = ''control'') \<and> target > 0 then
               (case obtain_shadow_consent cfg os now inp who (word_of_int target) mode of
                  (ok, fx) \<Rightarrow> fx @ [status_reply (if ok then 0 else 1)])
             else [status_reply 1]
         | _ \<Rightarrow> [status_reply 1])"

text \<open>Whether polkit listed the uid among those it would take.\<close>

definition polkit_takes :: "string \<Rightarrow> uid_t \<Rightarrow> bool" where
  "polkit_takes ids uid \<longleftrightarrow> list_ex (\<lambda>tok. strtou32 tok = uid) (strtok_all {CHR '',''} (snprintf_s MAXFIELD ids))"

definition polkit_finish :: "broker_os \<Rightarrow> uid_t \<Rightarrow> string \<Rightarrow> string \<Rightarrow> string \<Rightarrow> string \<Rightarrow> effect list" where
  "polkit_finish os uid by cookie action ids =
     (case getpwnam (bo_accounts os) by of
        None \<Rightarrow> [status_reply 2]
      | Some bpw \<Rightarrow>
          if \<not> polkit_takes ids (pw_uid bpw) then [status_reply 2]
          else if polkit_respond (bo_monitor os) uid (pw_uid bpw) cookie
          then [AnswerPolkit uid (pw_uid bpw) cookie,
                Audit 4672 True 12548 [by, computer_name os, ADMIN_PRIVILEGES, action], status_reply 0]
          else [AnswerPolkit uid (pw_uid bpw) cookie, status_reply 2])"

definition handle_polkit :: "broker_cfg \<Rightarrow> broker_os \<Rightarrow> time_t \<Rightarrow> ui_input \<Rightarrow> uid_t \<Rightarrow> passwd \<Rightarrow> string list \<Rightarrow> string list
    \<Rightarrow> effect list" where
  "handle_polkit cfg os now inp uid rpw envp argv =
     (case (env_value ''POLKIT_COOKIE='' envp, env_value ''POLKIT_ACTION='' envp, env_value ''POLKIT_IDENTITIES='' envp) of
        (Some cookie, Some action, Some ids) \<Rightarrow>
          (case obtain_consent cfg os now inp (is_admin_name cfg (bo_accounts os) (pw_name rpw)) (pw_name rpw) uid argv MAXFIELD of
             (Some who, _, fx) \<Rightarrow> fx @ polkit_finish os uid (if who \<noteq> [] then who else pw_name rpw) cookie action ids
           | (None, _, fx) \<Rightarrow> fx @ [status_reply 1])
      | _ \<Rightarrow> [status_reply 2])"

definition elevation_audit :: "broker_os \<Rightarrow> string \<Rightarrow> string \<Rightarrow> string \<Rightarrow> effect list" where
  "elevation_audit os requester by prog =
     (if by \<noteq> requester
      then [Audit 4648 True 12544 [requester, computer_name os, by, computer_name os, prog]] else [])
     @ [Audit 4672 True 12548 [by, computer_name os, ADMIN_PRIVILEGES, prog]]"

definition handle_elevate :: "broker_cfg \<Rightarrow> broker_os \<Rightarrow> time_t \<Rightarrow> ui_input \<Rightarrow> uid_t \<Rightarrow> passwd \<Rightarrow> request \<Rightarrow> bool \<Rightarrow> effect list" where
  "handle_elevate cfg os now inp uid rpw rq errfd =
     (case obtain_consent cfg os now inp (is_admin_name cfg (bo_accounts os) (pw_name rpw)) (pw_name rpw) uid
             (rq_argv rq) MAXFIELD of
        (Some who, used, fx) \<Rightarrow>
          fx @ elevation_audit os (pw_name rpw) (if who \<noteq> [] then who else pw_name rpw) (hd (rq_argv rq))
          @ (case launch cfg os (rq_argv rq) (rq_envp rq) (rq_cwd rq) used uid errfd of
               Some lx \<Rightarrow> lx
             | None \<Rightarrow> [status_reply 2])
      | (None, _, fx) \<Rightarrow> fx @ [status_reply 1])"

text \<open>A whole request, once it is read.\<close>

definition serve_request :: "broker_cfg \<Rightarrow> broker_os \<Rightarrow> time_t \<Rightarrow> ui_input \<Rightarrow> uid_t \<Rightarrow> int \<Rightarrow> passwd \<Rightarrow> bool \<Rightarrow> request
    \<Rightarrow> broker \<Rightarrow> broker \<times> effect list" where
  "serve_request cfg os now inp uid pid rpw errfd rq st =
     (if rq_cwd rq = ''@logon'' then handle_logon cfg os now uid pid rpw (rq_envp rq) st
      else if rq_cwd rq = ''@launch'' then handle_launch cfg os now uid (rq_envp rq) (rq_argv rq) st
      else if rq_argv rq = [] then (st, [status_reply 2])
      else if rq_cwd rq = ''@shadow'' then (st, handle_shadow cfg os now inp uid rpw (rq_envp rq))
      else if rq_cwd rq = ''@polkit'' then (st, handle_polkit cfg os now inp uid rpw (rq_envp rq) (rq_argv rq))
      else (st, handle_elevate cfg os now inp uid rpw rq errfd))"

definition serve_conn :: "broker_cfg \<Rightarrow> broker_os \<Rightarrow> time_t \<Rightarrow> ui_input \<Rightarrow> uid_t \<Rightarrow> int \<Rightarrow> nat \<Rightarrow> bytes
    \<Rightarrow> broker \<Rightarrow> broker \<times> effect list" where
  "serve_conn cfg os now inp uid pid nfds bs st =
     (case getpwuid (bo_accounts os) uid of
        None \<Rightarrow> (st, [])
      | Some rpw \<Rightarrow>
          (case read_blob nfds bs of
             None \<Rightarrow> (st, [])
           | Some (blob, errfd) \<Rightarrow> serve_request cfg os now inp uid pid rpw errfd (parse_request blob) st))"

section \<open>Every request is answered once\<close>

definition answer :: "effect list \<Rightarrow> bytes" where
  "answer fx = concat (map (\<lambda>e. case e of Reply b \<Rightarrow> b | _ \<Rightarrow> []) fx)"

lemma answer_simps [simp]:
  "answer [] = []" "answer (fx @ gx) = answer fx @ answer gx" "answer (status_reply n # fx) = char_of n # answer fx"
  "answer (Reply b # fx) = b @ answer fx" "answer (AskPam u p # fx) = answer fx"
  "answer (Audit i k c s # fx) = answer fx" "answer (Command a cmd # fx) = answer fx"
  "answer (StartUi a m1 m d # fx) = answer fx" "answer (TellUi m # fx) = answer fx" "answer (StopUi # fx) = answer fx"
  "answer (AnswerPolkit v1 v2 ck # fx) = answer fx" "answer (LaunchAs w blob # fx) = answer fx"
  "answer (LaunchElevated ch err # fx) = answer fx"
  by (simp_all add: answer_def status_reply_def)

text \<open>What a conversation does: it starts nothing and answers nobody.\<close>

definition quiet :: "effect \<Rightarrow> bool" where
  "quiet e = (case e of AskPam _ _ \<Rightarrow> True | Audit _ _ _ _ \<Rightarrow> True | Command _ _ \<Rightarrow> True | StartUi _ _ _ _ \<Rightarrow> True
     | TellUi _ \<Rightarrow> True | StopUi \<Rightarrow> True | _ \<Rightarrow> False)"

lemma quiet_simps [simp]:
  "quiet (AskPam u p)" "quiet (Audit i k c s)" "quiet (Command a cmd)" "quiet (StartUi a m1 m d)" "quiet (TellUi m)"
  "quiet StopUi" "\<not> quiet (Reply b)" "\<not> quiet (AnswerPolkit v1 v2 ck)" "\<not> quiet (LaunchAs w blob)"
  "\<not> quiet (LaunchElevated ch err)" "\<not> quiet (status_reply sn)"
  by (simp_all add: quiet_def status_reply_def)

lemma answer_quiet: "list_all quiet fx \<Longrightarrow> answer fx = []"
  by (induction fx) (auto simp: answer_def quiet_def split: effect.splits)

lemma quiet_not: "list_all quiet fx \<Longrightarrow> \<not> quiet e \<Longrightarrow> e \<notin> set fx"
  by (auto simp: list_all_iff)

lemma quiet_not_started [simp]:
  "list_all quiet fx \<Longrightarrow> LaunchElevated c err \<notin> set fx" "list_all quiet fx \<Longrightarrow> AnswerPolkit a u k \<notin> set fx"
  by (rule quiet_not; simp)+

lemma status_reply_not [simp]:
  "LaunchElevated c err \<noteq> status_reply n" "AnswerPolkit a u k \<noteq> status_reply n" "LaunchAs w blob \<noteq> status_reply n"
  by (simp_all add: status_reply_def)

lemma check_cred_quiet: "list_all quiet (snd (check_cred cfg os wholen arg))"
  by (auto simp: check_cred_def bad_password_def Let_def split: option.splits)

lemma consent_loop_quiet: "list_all quiet (snd (consent_loop cfg os admin requester wholen deadline k inp))"
proof (induction cfg os admin requester wholen deadline k inp rule: consent_loop.induct)
  case (1 cfg os admin requester wholen deadline k inp)
  show ?case
  proof (cases "consent_read_line 1024 deadline inp")
    case None
    then show ?thesis by (subst consent_loop.simps) simp
  next
    case (Some lr)
    obtain line rest where lr: "lr = (line, rest)" by fastforce
    obtain who1 fx1 where cc: "check_cred cfg os wholen (drop 5 line) = (who1, fx1)" by fastforce
    then have "list_all quiet fx1" using check_cred_quiet[of cfg os wholen "drop 5 line"] by simp
    then show ?thesis
      using "1.IH"[OF Some lr[symmetric]] Some lr cc
      by (subst consent_loop.simps) (auto split: option.splits prod.splits)
  qed
qed

lemma test_consent_quiet: "list_all quiet (snd (test_consent cfg os admin requester wholen))"
  by (auto simp: test_consent_def bad_password_def split: option.splits)

lemma obtain_consent_quiet:
  "obtain_consent cfg os now inp admin requester uid argv wholen = (who, sf, fx) \<Longrightarrow> list_all quiet fx"
  using test_consent_quiet[of cfg os admin requester wholen]
    consent_loop_quiet[of cfg os admin requester wholen "now + env_timeout os ''SG_CONSENT_TIMEOUT'' 120" 0 inp]
  by (auto simp: obtain_consent_def Let_def split: if_splits option.splits prod.splits)

lemma obtain_shadow_consent_quiet:
  "obtain_shadow_consent cfg os now inp requester target mode = (ok, fx) \<Longrightarrow> list_all quiet fx"
  by (auto simp: obtain_shadow_consent_def Let_def split: if_splits option.splits)

lemma elevation_audit_quiet [simp]: "list_all quiet (elevation_audit os requester by prog)"
  by (simp add: elevation_audit_def)

lemma logon_account_quiet: "list_all quiet (snd (logon_account cfg os u p))"
  by (auto simp: logon_account_def split: option.splits)

text \<open>The answers there are.\<close>

definition valid_answer :: "bytes \<Rightarrow> bool" where
  "valid_answer b \<longleftrightarrow> (\<exists>s\<le>2. b = [char_of (s :: nat)]) \<or> (\<exists>name. b = char_of (0 :: nat) # ticket_reply name)"

lemma valid_status [simp]: "s \<le> 2 \<Longrightarrow> valid_answer [char_of (s :: nat)]"
  by (auto simp: valid_answer_def)

lemma valid_ticket [simp]: "valid_answer (char_of (0 :: nat) # ticket_reply name)"
  by (auto simp: valid_answer_def)

lemma handle_logon_shape:
  obtains asked end_fx st' where "handle_logon cfg os now uid pid rpw envp st = (st', asked @ end_fx)"
    and "list_all quiet asked" and "valid_answer (answer end_fx)" and "\<forall>e\<in>set end_fx. quiet e \<or> (\<exists>b. e = Reply b)"
proof -
  obtain limited rate where r: "logon_rate_limited (logon_limit os) now uid False (logon_rate st) = (limited, rate)" by fastforce
  obtain tpw asked where a: "(if limited then (None, []) else
      logon_account cfg os (env_value ''LOGON_USER='' envp) (env_value ''LOGON_PASSWORD='' envp)) = (tpw, asked)" by fastforce
  have q: "list_all quiet asked"
    using a logon_account_quiet[of cfg os "env_value ''LOGON_USER='' envp" "env_value ''LOGON_PASSWORD='' envp"]
    by (auto split: if_splits)
  have "\<exists>end_fx st'. handle_logon cfg os now uid pid rpw envp st = (st', asked @ end_fx) \<and>
      valid_answer (answer end_fx) \<and> (\<forall>e\<in>set end_fx. quiet e \<or> (\<exists>b. e = Reply b))"
    by (cases tpw; cases "make_ticket os now (pw_uid (the tpw)) uid (logon_type envp) (sweep_tickets now (tickets st))")
       (simp_all add: handle_logon_def Let_def r a status_reply_def[symmetric] split: prod.split, simp_all add: status_reply_def)
  then show ?thesis using that q by blast
qed

lemma handle_launch_shape:
  "valid_answer (answer (snd (handle_launch cfg os now uid envp argv st))) \<and>
   LaunchElevated c err \<notin> set (snd (handle_launch cfg os now uid envp argv st)) \<and>
   AnswerPolkit a u k \<notin> set (snd (handle_launch cfg os now uid envp argv st))"
  by (simp add: handle_launch_def Let_def split: option.split)

lemma handle_shadow_shape:
  "valid_answer (answer (handle_shadow cfg os now inp uid rpw envp)) \<and>
   LaunchElevated c err \<notin> set (handle_shadow cfg os now inp uid rpw envp) \<and>
   AnswerPolkit a u k \<notin> set (handle_shadow cfg os now inp uid rpw envp)"
  by (auto simp: handle_shadow_def Let_def answer_quiet split: option.split prod.split
      dest!: obtain_shadow_consent_quiet)

lemma polkit_finish_shape:
  "valid_answer (answer (polkit_finish os uid by cookie action ids)) \<and>
   LaunchElevated c err \<notin> set (polkit_finish os uid by cookie action ids)"
  by (simp add: polkit_finish_def split: option.split)

lemma handle_polkit_shape:
  "valid_answer (answer (handle_polkit cfg os now inp uid rpw envp argv)) \<and>
   LaunchElevated c err \<notin> set (handle_polkit cfg os now inp uid rpw envp argv)"
  using polkit_finish_shape
  by (auto simp: handle_polkit_def answer_quiet split: option.split prod.split
      dest!: obtain_consent_quiet)

lemma launch_shape: "launch cfg os argv envp cwd sf uid errfd = Some lx \<Longrightarrow> \<exists>c err. lx = [status_reply 0, LaunchElevated c err]"
  by (auto simp: launch_def split: if_splits prod.splits)

lemma handle_elevate_shape:
  "valid_answer (answer (handle_elevate cfg os now inp uid rpw rq errfd)) \<and>
   AnswerPolkit a u k \<notin> set (handle_elevate cfg os now inp uid rpw rq errfd)"
  by (auto simp: handle_elevate_def answer_quiet split: option.split prod.split dest!: obtain_consent_quiet launch_shape)


section \<open>Who gets what\<close>

lemma handle_logon_starts_nothing:
  "LaunchElevated c err \<notin> set (snd (handle_logon cfg os now uid pid rpw envp st)) \<and>
   AnswerPolkit a u k \<notin> set (snd (handle_logon cfg os now uid pid rpw envp st))"
proof -
  obtain asked fx st' where h: "handle_logon cfg os now uid pid rpw envp st = (st', asked @ fx)"
    "list_all quiet asked" "\<forall>e\<in>set fx. quiet e \<or> (\<exists>b. e = Reply b)" by (rule handle_logon_shape)
  have "e \<notin> set (asked @ fx)" if "\<not> quiet e" "\<forall>b. e \<noteq> Reply b" for e
    using h(2,3) that by (auto simp: list_all_iff)
  then show ?thesis by (simp add: h(1))
qed

lemma elevated_only_by_elevate:
  assumes "LaunchElevated c err \<in> set (snd (serve_conn cfg os now inp uid pid nfds bs st))"
  obtains rpw blob errfd where "getpwuid (bo_accounts os) uid = Some rpw" and "read_blob nfds bs = Some (blob, errfd)"
    and "rq_argv (parse_request blob) \<noteq> []"
    and "snd (serve_conn cfg os now inp uid pid nfds bs st) = handle_elevate cfg os now inp uid rpw (parse_request blob) errfd"
  using assms handle_logon_starts_nothing handle_launch_shape handle_shadow_shape handle_polkit_shape that
  by (auto simp: serve_conn_def serve_request_def split: option.splits prod.splits if_splits)

lemma handle_elevate_launches:
  assumes "LaunchElevated c err \<in> set (handle_elevate cfg os now inp uid rpw rq errfd)"
  obtains who sf fx where "obtain_consent cfg os now inp (is_admin_name cfg (bo_accounts os) (pw_name rpw)) (pw_name rpw) uid
      (rq_argv rq) MAXFIELD = (Some who, sf, fx)"
    and "(c, err) = launch_child cfg os (rq_argv rq) (rq_envp rq) (rq_cwd rq) sf uid errfd"
    and "handle_elevate cfg os now inp uid rpw rq errfd =
      fx @ elevation_audit os (pw_name rpw) (if who \<noteq> [] then who else pw_name rpw) (hd (rq_argv rq))
      @ [status_reply 0, LaunchElevated c err]"
proof -
  obtain w sf fx where oc: "obtain_consent cfg os now inp (is_admin_name cfg (bo_accounts os) (pw_name rpw)) (pw_name rpw) uid
      (rq_argv rq) MAXFIELD = (w, sf, fx)" by (cases rule: prod_cases3)
  have nfx: "LaunchElevated c err \<notin> set fx" by (rule quiet_not[OF obtain_consent_quiet[OF oc]]) simp
  obtain who where w: "w = Some who"
    using assms nfx oc by (cases w) (simp_all add: handle_elevate_def)
  let ?au = "elevation_audit os (pw_name rpw) (if who \<noteq> [] then who else pw_name rpw) (hd (rq_argv rq))"
  have nau: "LaunchElevated c err \<notin> set ?au" by (rule quiet_not[OF elevation_audit_quiet]) simp
  obtain lx where lx: "launch cfg os (rq_argv rq) (rq_envp rq) (rq_cwd rq) sf uid errfd = Some lx" "LaunchElevated c err \<in> set lx"
    using assms nfx nau oc w by (cases "launch cfg os (rq_argv rq) (rq_envp rq) (rq_cwd rq) sf uid errfd")
      (simp_all add: handle_elevate_def)
  then have l: "lx = [status_reply 0, LaunchElevated c err]"
    "(c, err) = launch_child cfg os (rq_argv rq) (rq_envp rq) (rq_cwd rq) sf uid errfd"
    by (auto simp: launch_def split: if_splits prod.splits)
  show ?thesis by (rule that[OF oc[unfolded w] l(2)]) (simp add: handle_elevate_def oc w lx(1) l(1))
qed

text \<open>
  What is asked of the account database: no account without a name, and no name of
  \<open>MAXFIELD\<close> bytes or more (useradd allows 32).
\<close>

definition sane_accounts :: "accounts \<Rightarrow> bool" where
  "sane_accounts acc \<longleftrightarrow> getpwnam acc [] = None \<and> (\<forall>u pw. getpwuid acc u = Some pw \<longrightarrow> length (pw_name pw) < MAXFIELD)"

lemma is_admin_not_empty: "sane_accounts (bo_accounts os) \<Longrightarrow> is_admin_name cfg (bo_accounts os) who \<Longrightarrow> who \<noteq> []"
  by (auto simp: sane_accounts_def is_admin_name_def split: option.splits)

text \<open>The consent of a conversation: who gave it, how, and on which screen.\<close>

definition consented :: "broker_cfg \<Rightarrow> broker_os \<Rightarrow> uid_t \<Rightarrow> string \<Rightarrow> effect list \<Rightarrow> string \<Rightarrow> bool" where
  "consented cfg os uid requester fx who \<longleftrightarrow>
     is_admin_name cfg (bo_accounts os) who \<and>
     (who = requester \<or> (\<exists>p. AskPam who p \<in> set fx \<and> check_password (bo_monitor os) who p)) \<and>
     (\<exists>sf p. bo_socket os (sf_control (sf :: surface)) = Some p \<and> peer_uid p = Some uid \<and>
        surface_command os sf (''SECURE'' @ [LF]) 64 = Some ''OK secure'')"

lemma obtain_consent_consented:
  assumes "obtain_consent cfg os now inp (is_admin_name cfg (bo_accounts os) (pw_name rpw)) (pw_name rpw) uid argv MAXFIELD
      = (Some who, sf, fx)"
    and "bo_getenv os ''SG_BROKER_TEST'' = None" and "sane_accounts (bo_accounts os)"
    and "getpwuid (bo_accounts os) uid = Some rpw" and "set fx \<subseteq> set fx'"
  shows "consented cfg os uid (pw_name rpw) fx' who \<and> who \<noteq> []"
proof -
  have "length (pw_name rpw) < MAXFIELD" using assms(3,4) by (simp add: sane_accounts_def)
  note s = obtain_consent_sound[OF assms(1,2) this]
  then have "who \<noteq> []" using is_admin_not_empty[OF assms(3)] by (elim conjE)
  moreover have "consented cfg os uid (pw_name rpw) fx' who"
    unfolding consented_def using s assms(5) by (elim conjE exE) (intro conjI exI, assumption, blast, assumption+)
  ultimately show ?thesis by simp
qed


lemma polkit_only_by_polkit:
  assumes "AnswerPolkit agent ident cookie \<in> set (snd (serve_conn cfg os now inp uid pid nfds bs st))"
  obtains rpw blob errfd where "getpwuid (bo_accounts os) uid = Some rpw" and "read_blob nfds bs = Some (blob, errfd)"
    and "snd (serve_conn cfg os now inp uid pid nfds bs st) =
      handle_polkit cfg os now inp uid rpw (rq_envp (parse_request blob)) (rq_argv (parse_request blob))"
  using assms handle_logon_starts_nothing handle_launch_shape handle_shadow_shape handle_elevate_shape that
  by (auto simp: serve_conn_def serve_request_def split: option.splits prod.splits if_splits)

lemma polkit_finish_answers:
  "AnswerPolkit agent ident cookie \<in> set (polkit_finish os uid by ck action ids) \<Longrightarrow>
     agent = uid \<and> cookie = ck \<and> polkit_takes ids ident \<and> (\<exists>bpw. getpwnam (bo_accounts os) by = Some bpw \<and> pw_uid bpw = ident)"
  by (auto simp: polkit_finish_def split: option.splits if_splits)


lemma handle_shadow_sound:
  assumes "answer (handle_shadow cfg os now inp uid rpw envp) = [char_of (0 :: nat)]"
    and "bo_getenv os ''SG_BROKER_TEST'' = None"
  shows "(uid = 0 \<or> uid = bo_euid os \<and> pw_name rpw \<noteq> g_system_user cfg) \<and>
    (\<exists>who mode target. env_value ''SHADOW_REQUESTER='' envp = Some who \<and> plain_name who \<and>
      env_value ''SHADOW_MODE='' envp = Some mode \<and> mode \<in> {''view'', ''control''} \<and>
      env_value ''SHADOW_UID='' envp = Some target \<and> strtol10 target > 0 \<and>
      shadow_agreed os now inp (word_of_int (strtol10 target)))"
proof -
  have no: "char_of (Suc 0) \<noteq> (char_of (0 :: nat) :: char)" by code_simp
  have al: "shadow_allowed cfg os uid rpw"
    using assms(1) no by (auto simp: handle_shadow_def split: if_splits)
  define target where "target = (case env_value ''SHADOW_UID='' envp of Some v \<Rightarrow> strtol10 v | None \<Rightarrow> - 1)"
  obtain who mode where wm: "env_value ''SHADOW_REQUESTER='' envp = Some who" "env_value ''SHADOW_MODE='' envp = Some mode"
    "plain_name who" "mode = ''view'' \<or> mode = ''control''" "target > 0"
    and h: "handle_shadow cfg os now inp uid rpw envp = (case obtain_shadow_consent cfg os now inp who (word_of_int target) mode of
                  (ok, fx) \<Rightarrow> fx @ [status_reply (if ok then 0 else 1)])"
    using assms(1) no al unfolding target_def
    by (auto simp: handle_shadow_def Let_def split: if_splits option.splits)
  obtain ok fx where oc: "obtain_shadow_consent cfg os now inp who (word_of_int target) mode = (ok, fx)" by fastforce
  have "ok" using assms(1) no answer_quiet[OF obtain_shadow_consent_quiet[OF oc]] by (cases ok) (auto simp: h oc)
  then have yes: "obtain_shadow_consent cfg os now inp who (word_of_int target) mode = (True, fx)" using oc by simp
  note obtain_shadow_consent_agreed[OF yes assms(2)]
  moreover obtain tv where "env_value ''SHADOW_UID='' envp = Some tv" "target = strtol10 tv"
    using wm(5) unfolding target_def by (cases "env_value ''SHADOW_UID='' envp") auto
  ultimately show ?thesis using al wm by (auto simp: shadow_allowed_def)
qed

text \<open>
  Only root, or the broker's own account where that is not SYSTEM, can have a
  session shadowed, and then only by a request that names a plain requester and mode
  and with the word of the session's user: otherwise the answer to a shadow request is
  never 0.
\<close>

theorem shadow_request_sound:
  assumes "answer (handle_shadow cfg os now inp uid rpw envp) = [char_of (0 :: nat)]"
    and "bo_getenv os ''SG_BROKER_TEST'' = None"
  shows "(uid = 0 \<or> uid = bo_euid os \<and> pw_name rpw \<noteq> g_system_user cfg) \<and>
    (\<exists>who mode target. env_value ''SHADOW_REQUESTER='' envp = Some who \<and> plain_name who \<and>
      env_value ''SHADOW_MODE='' envp = Some mode \<and> mode \<in> {''view'', ''control''} \<and>
      env_value ''SHADOW_UID='' envp = Some target \<and> strtol10 target > 0 \<and>
      shadow_agreed os now inp (word_of_int (strtol10 target)))"
  using assms by (rule handle_shadow_sound)

section \<open>An example\<close>

text \<open>alice, an administrator, asks for the registry editor and says yes.\<close>

definition ex_blob :: bytes where
  "ex_blob = cput ''/'' @ [NUL] @ cput ''regedit''"

definition ex_request :: bytes where
  "ex_request = le32 11 @ ex_blob"

lemma ex_sane: "sane_accounts (bo_accounts ex_seat_os)"
  by (auto simp: sane_accounts_def ex_seat_os_def ex_broker_os_def ex_defs MAXFIELD_def split: if_splits)

lemma ex_request_read: "read_blob 0 ex_request = Some (ex_blob, False)"
  using read_u32_le32[of 11 ex_blob]
  by (simp add: ex_request_def read_blob_def read_request_len_def read_full_def MAXBLOB_def) (simp add: ex_blob_def cput_def)

lemma ex_request_parsed:
  "parse_request ex_blob = \<lparr>rq_cwd = ''/'', rq_envp = [], rq_argv = [''regedit'']\<rparr>"
  by (simp add: parse_request_def split_env.simps cstr_def cskip_def cput_def cstrings.simps ex_blob_def)

lemma ex_alice: "getpwuid (bo_accounts ex_seat_os) 1001 = Some (ex_account ''alice'' 1001)"
  by (simp add: ex_seat_os_def ex_broker_os_def ex_defs)

lemma ex_alice_consents:
  obtains sf fx where "obtain_consent default_cfg ex_seat_os 100 ex_yes True ''alice'' 1001 argv MAXFIELD = (Some ''alice'', sf, fx)"
proof -
  have "consent_loop default_cfg ex_seat_os True ''alice'' MAXFIELD (100 + env_timeout ex_seat_os ''SG_CONSENT_TIMEOUT'' 120) 0 ex_yes
      = (Some ''alice'', [])"
    by (subst consent_loop.simps) (simp add: ex_yes_line env_timeout_def ex_no_test MAXFIELD_def)
  then have "fst (obtain_consent default_cfg ex_seat_os 100 ex_yes True ''alice'' 1001 argv MAXFIELD) = Some ''alice''"
    using ex_surface_found[of False] ex_surface_secure
    by (simp add: obtain_consent_def find_surface_def ex_no_test Let_def ex_ui_starts)
  then show ?thesis using that by (metis prod.collapse)
qed

lemma ex_alice_name: "pw_name (ex_account ''alice'' 1001) = ''alice''"
  by (simp add: ex_account_def)

lemma ex_elevated:
  "\<exists>c err. LaunchElevated c err \<in> set (snd (serve_conn default_cfg ex_seat_os 100 ex_yes 1001 7 0 ex_request st))"
proof -
  obtain sf fx where oc: "obtain_consent default_cfg ex_seat_os 100 ex_yes True ''alice'' 1001 [''regedit''] MAXFIELD
      = (Some ''alice'', sf, fx)" by (rule ex_alice_consents)
  have "bo_can_fork ex_seat_os" by (simp add: ex_seat_os_def ex_broker_os_def)
  moreover obtain c err where "launch_child default_cfg ex_seat_os [''regedit''] [] ''/'' sf 1001 False = (c, err)" by fastforce
  ultimately have "launch default_cfg ex_seat_os [''regedit''] [] ''/'' sf 1001 False = Some [status_reply 0, LaunchElevated c err]"
    by (simp add: launch_def)
  then show ?thesis
    by (auto simp: serve_conn_def ex_request_read ex_request_parsed ex_alice serve_request_def handle_elevate_def
        ex_alice_name ex_alice_admin oc)
qed

definition ex_start :: broker where
  "ex_start = \<lparr>logon_rate = [], tickets = Map.empty\<rparr>"


text \<open>The same with polkit's question for alice.\<close>

definition ex_polkit_blob :: bytes where
  "ex_polkit_blob = cput ''@polkit'' @ cput ''POLKIT_COOKIE=c1'' @ cput ''POLKIT_ACTION=a'' @ cput ''POLKIT_IDENTITIES=1001''
     @ [NUL] @ cput ''gparted''"

lemma ex_polkit_read:
  "read_blob 0 (le32 73 @ ex_polkit_blob) = Some (ex_polkit_blob, False)"
  using read_u32_le32[of 73 ex_polkit_blob]
  by (simp add: read_blob_def read_request_len_def read_full_def MAXBLOB_def) (simp add: ex_polkit_blob_def cput_def)

lemma ex_polkit_parsed:
  "parse_request ex_polkit_blob = \<lparr>rq_cwd = ''@polkit'',
     rq_envp = [''POLKIT_COOKIE=c1'', ''POLKIT_ACTION=a'', ''POLKIT_IDENTITIES=1001''], rq_argv = [''gparted'']\<rparr>"
  by (simp add: parse_request_def split_env.simps cstr_def cskip_def cput_def cstrings.simps ex_polkit_blob_def)

lemma ex_polkit_takes: "polkit_takes ''1001'' 1001"
proof -
  have "strtou32 ''1001'' = 1001" using strtou32_show[of "[]" 1001] by (simp add: show_1001)
  moreover have "strtok_all {CHR '',''} ''1001'' = [''1001'']" by (simp add: strtok_all.simps before_def)
  ultimately show ?thesis by (simp add: polkit_takes_def MAXFIELD_def)
qed

lemma ex_polkit_answers:
  "AnswerPolkit 1001 1001 ''c1'' \<in> set (snd (serve_conn default_cfg ex_seat_os 100 ex_yes 1001 7 0 (le32 73 @ ex_polkit_blob) st))"
proof -
  obtain sf fx where oc: "obtain_consent default_cfg ex_seat_os 100 ex_yes True ''alice'' 1001 [''gparted''] MAXFIELD
      = (Some ''alice'', sf, fx)" by (rule ex_alice_consents)
  have pw: "getpwnam (bo_accounts ex_seat_os) ''alice'' = Some (ex_account ''alice'' 1001)" "pw_uid (ex_account ''alice'' 1001) = 1001"
    by (simp_all add: ex_seat_os_def ex_broker_os_def ex_defs)
  have ev: "env_value ''POLKIT_COOKIE='' [''POLKIT_COOKIE=c1'', ''POLKIT_ACTION=a'', ''POLKIT_IDENTITIES=1001''] = Some ''c1''"
    "env_value ''POLKIT_ACTION='' [''POLKIT_COOKIE=c1'', ''POLKIT_ACTION=a'', ''POLKIT_IDENTITIES=1001''] = Some ''a''"
    "env_value ''POLKIT_IDENTITIES='' [''POLKIT_COOKIE=c1'', ''POLKIT_ACTION=a'', ''POLKIT_IDENTITIES=1001''] = Some ''1001''"
    by (simp_all add: env_value_def starts_def)
  have "AnswerPolkit 1001 1001 ''c1'' \<in> set (polkit_finish ex_seat_os 1001 ''alice'' ''c1'' ''a'' ''1001'')"
    by (simp add: polkit_finish_def pw ex_polkit_takes)
  then show ?thesis
    by (simp add: serve_conn_def ex_polkit_read ex_polkit_parsed ex_alice serve_request_def handle_polkit_def
        ex_alice_name ex_alice_admin oc ev)
qed


definition ex_shadow_env :: "string list" where
  "ex_shadow_env = [''SHADOW_UID=1001'', ''SHADOW_REQUESTER=bob'', ''SHADOW_MODE=view'']"

lemma ex_shadow_values:
  "env_value ''SHADOW_UID='' ex_shadow_env = Some ''1001''" "env_value ''SHADOW_REQUESTER='' ex_shadow_env = Some ''bob''"
  "env_value ''SHADOW_MODE='' ex_shadow_env = Some ''view''" "strtol10 ''1001'' = 1001" "plain_name ''bob''"
  by (simp_all add: env_value_def starts_def ex_shadow_env_def) code_simp+

theorem shadow_request_sound_witness:
  "shadow_agreed ex_seat_os 100 ex_yes (word_of_int (strtol10 ''1001''))"
proof -
  have "\<exists>fx. obtain_shadow_consent default_cfg ex_seat_os 100 ex_yes ''bob'' 1001 ''view'' = (True, fx)"
    using ex_surface_found[of True] ex_surface_secure
    by (simp add: obtain_shadow_consent_def ex_no_test Let_def ex_yes_line env_timeout_def ex_ui_starts)
  then obtain fx where oc: "obtain_shadow_consent default_cfg ex_seat_os 100 ex_yes ''bob'' 1001 ''view'' = (True, fx)" ..
  have "answer (handle_shadow default_cfg ex_seat_os 100 ex_yes 0 (ex_account ''root'' 0) ex_shadow_env) = [char_of (0 :: nat)]"
    using answer_quiet[OF obtain_shadow_consent_quiet[OF oc]]
    by (simp add: handle_shadow_def shadow_allowed_def ex_shadow_values oc)
  from shadow_request_sound[OF this ex_no_test] show ?thesis
    unfolding ex_shadow_values(1) option.inject by (elim exE conjE) (hypsubst, assumption)
qed

end
