(* ===== verification/Sg_Elevate.thy ===== *)
theory Sg_Elevate
  imports Sg_Broker
begin

text \<open>
  The broker's clients.  \<open>broker/sg-elevate.c\<close>: its options, the request it builds, the
  way it ends.  \<open>broker/sg-polkit-agent.c\<close>: what it makes of polkit's question
  (\<open>ask_broker\<close>, \<open>action_exec_path\<close>), the answer it gives polkit and its list of requests
  in progress.  \<open>broker/sg-polkit-respond.c\<close>: the arguments it takes.

  Wine's \<open>reg query\<close>, polkit's messages and its list of actions are arguments: what
  they print or hold.
\<close>

section \<open>sg-elevate\<close>

text \<open>Appending a string with its NUL; \<open>None\<close> is the overflow marker.\<close>

definition put :: "nat \<Rightarrow> string \<Rightarrow> bytes option \<Rightarrow> bytes option" where
  "put cap s buf =
     (case buf of
        None \<Rightarrow> None
      | Some b \<Rightarrow> if length b + (length s + 1) > cap then None else Some (b @ cput s))"

definition isxdigit :: "char \<Rightarrow> bool" where
  "isxdigit c \<longleftrightarrow> isdigit c \<or> 97 \<le> code c \<and> code c \<le> 102 \<or> 65 \<le> code c \<and> code c \<le> 70"

definition xdigit_val :: "char \<Rightarrow> nat" where
  "xdigit_val c = (if isdigit c then code c - 48 else if code c \<ge> 97 then code c - 87 else code c - 55)"

text \<open>\<open>sscanf (s, " %lx")\<close>: the number, if there is one.\<close>

definition scan_hex :: "string \<Rightarrow> nat option" where
  "scan_hex s =
     (let t = dropWhile isspace s;
          neg = (t \<noteq> [] \<and> hd t = CHR ''-'');
          u = (if t \<noteq> [] \<and> (hd t = CHR ''-'' \<or> hd t = CHR ''+'') then tl t else t);
          u' = (if starts ''0x'' u \<or> starts ''0X'' u then drop 2 u else u);
          ds = takeWhile isxdigit u';
          v = foldl (\<lambda>a c. 16 * a + xdigit_val c) 0 ds;
          v' = (if v \<ge> 2 ^ 64 then 2 ^ 64 - 1 else if neg then (2 ^ 64 - v) mod 2 ^ 64 else v)
      in if ds = [] then None else Some v')"

text \<open>\<open>reg_dword\<close> on what \<open>reg query\<close> prints: the last line that fits.\<close>

definition reg_line :: "string \<Rightarrow> bytes \<Rightarrow> nat option \<Rightarrow> nat option" where
  "reg_line val raw found =
     (let line = cstr raw
      in case strstr line ''REG_DWORD'' of
           None \<Rightarrow> found
         | Some t \<Rightarrow> if strstr line val = None then found
                     else (case scan_hex (drop 9 t) of Some v \<Rightarrow> Some v | None \<Rightarrow> found))"

definition reg_dword :: "(string \<Rightarrow> string \<Rightarrow> bytes option) \<Rightarrow> string \<Rightarrow> string \<Rightarrow> nat option" where
  "reg_dword query key val =
     (case query key val of None \<Rightarrow> None | Some out \<Rightarrow> fold (reg_line val) (fgets_all 512 out) None)"

fun hex_n :: "nat \<Rightarrow> nat \<Rightarrow> string" where
  "hex_n 0 v = []"
| "hex_n (Suc n) v = hex_n n (v div 16) @ [hex_digit (v mod 16)]"

definition look_entries :: "(string \<times> string \<times> string \<times> bool) list" where
  "look_entries =
     (let personalize = ''HKCU'' @ [BSL] @ ''Software'' @ [BSL] @ ''Microsoft'' @ [BSL] @ ''Windows'' @ [BSL]
            @ ''CurrentVersion'' @ [BSL] @ ''Themes'' @ [BSL] @ ''Personalize'';
          dwm = ''HKCU'' @ [BSL] @ ''Software'' @ [BSL] @ ''Microsoft'' @ [BSL] @ ''Windows'' @ [BSL] @ ''DWM''
      in [(personalize, ''AppsUseLightTheme'', ''SG_USER_APPS_LIGHT'', False),
          (personalize, ''SystemUsesLightTheme'', ''SG_USER_SYSTEM_LIGHT'', False),
          (dwm, ''AccentColor'', ''SG_USER_ACCENT'', True)])"

definition look_env :: "(string \<Rightarrow> string \<Rightarrow> bytes option) \<Rightarrow> (string \<times> string \<times> string \<times> bool) \<Rightarrow> string list" where
  "look_env query = (\<lambda>(key, val, name, hex).
     case reg_dword query key val of
       None \<Rightarrow> []
     | Some v \<Rightarrow> [name @ ''='' @ (if hex then hex_n 8 (v mod 2 ^ 32) else if v \<noteq> 0 then ''1'' else ''0'')])"

definition env_entry :: "nat \<Rightarrow> (string \<Rightarrow> string option) \<Rightarrow> string \<Rightarrow> string list" where
  "env_entry sz getenv name = (case getenv name of Some v \<Rightarrow> [snprintf_s sz (name @ ''='' @ v)] | None \<Rightarrow> [])"

definition elevate_env :: "(string \<Rightarrow> string option) \<Rightarrow> (string \<Rightarrow> string \<Rightarrow> bytes option) \<Rightarrow> bool \<Rightarrow> string list" where
  "elevate_env getenv query wine_mode =
     env_entry 4200 getenv ''WINEPREFIX'' @ env_entry 4200 getenv ''LANG''
     @ (if getenv ''WINEDEBUG'' = Some [] then [] else env_entry 600 getenv ''WINEDEBUG'')
     @ (if wine_mode then concat (map (look_env query) look_entries) else [])"

text \<open>The options: the ready file, the Wine mode and the program with its arguments.\<close>

definition elevate_args :: "string list \<Rightarrow> (string option \<times> bool \<times> string list) option" where
  "elevate_args args =
     (let (ready, a1) = (case args of o1 # f # r \<Rightarrow> if o1 = ''--ready'' then (Some f, r) else (None, args)
                                    | _ \<Rightarrow> (None, args));
          (wine, a2) = (case a1 of o1 # r \<Rightarrow> if o1 = ''--wine'' then (True, r) else (False, a1) | [] \<Rightarrow> (False, a1));
          a3 = (case a2 of o1 # r \<Rightarrow> if o1 = ''--'' then r else a2 | [] \<Rightarrow> a2)
      in if a3 = [] then None else Some (ready, wine, a3))"

definition elevate_blob :: "string \<Rightarrow> string list \<Rightarrow> bool \<Rightarrow> string list \<Rightarrow> bytes option" where
  "elevate_blob cwd envp wine_mode argv =
     fold (put MAXBLOB) (cwd # envp @ [[]] @ (if wine_mode then [''wine''] else []) @ argv) (Some [])"

text \<open>What is sent, when the request fits: the length, then the request.\<close>

definition elevate_send :: "(string \<Rightarrow> string option) \<Rightarrow> (string \<Rightarrow> string \<Rightarrow> bytes option) \<Rightarrow> string option \<Rightarrow> bool \<Rightarrow> string list
    \<Rightarrow> bytes option" where
  "elevate_send getenv query cwd wine_mode argv =
     (case elevate_blob (case cwd of Some c \<Rightarrow> c | None \<Rightarrow> ''/'') (elevate_env getenv query wine_mode) wine_mode argv of
        None \<Rightarrow> None
      | Some blob \<Rightarrow> Some (le32 (word_of_nat (length blob)) @ blob))"

text \<open>The exit status, and the character for the ready file, from what the broker answers.\<close>

definition elevate_ready :: "bytes \<Rightarrow> char" where
  "elevate_ready reply = (case reply of [] \<Rightarrow> CHR ''2'' | s # _ \<Rightarrow> char_of (48 + (if code s > 2 then 2 else code s)))"

definition elevate_exit :: "bytes \<Rightarrow> nat" where
  "elevate_exit reply =
     (case reply of
        [] \<Rightarrow> 2
      | s # rest \<Rightarrow>
          if code s = 0 then
            (case read_u32 rest of
               None \<Rightarrow> 0
             | Some (c, _) \<Rightarrow> if c = 3010 \<or> c = 1641 then 0 else if c > 255 then 255 else unat c)
          else if code s = 1 then 1 else 2)"

section \<open>sg-polkit-agent\<close>

text \<open>The program an action names: the first with that name and an absolute path that fits.\<close>

fun action_exec_path :: "(string \<times> string option) list \<Rightarrow> string \<Rightarrow> nat \<Rightarrow> string option" where
  "action_exec_path [] action sz = None"
| "action_exec_path ((ident, path) # rest) action sz =
     (case path of
        Some p \<Rightarrow> if ident = action \<and> starts ''/'' p \<and> length p < sz then Some p else action_exec_path rest action sz
      | None \<Rightarrow> action_exec_path rest action sz)"

text \<open>The program polkit's message quotes: between a backquote and a quote.\<close>

definition quoted_program :: "string \<Rightarrow> string option" where
  "quoted_program message =
     (case strchr message CHR 0x60 of
        None \<Rightarrow> None
      | Some p \<Rightarrow>
          (case strchr (tl p) CHR 0x27 of
             None \<Rightarrow> None
           | Some _ \<Rightarrow> let q = before (tl p) {CHR 0x27} in if q \<noteq> [] \<and> length q < 1024 then Some q else None))"

text \<open>The uids, comma-separated, as long as they fit.\<close>

definition add_id :: "string \<times> u32 option \<Rightarrow> string \<Rightarrow> string" where
  "add_id = (\<lambda>(kind, uid) ids.
     case uid of
       Some u \<Rightarrow> let one = (if ids \<noteq> [] then '','' else []) @ show_u32 u
                 in if kind = ''unix-user'' \<and> length ids + length one < 1024 then ids @ one else ids
     | None \<Rightarrow> ids)"

text \<open>\<open>g_strsplit (s, " ", n)\<close>: at most \<open>n\<close> pieces, the last with what is left.\<close>

fun strsplit :: "nat \<Rightarrow> string \<Rightarrow> string list" where
  "strsplit 0 s = [s]"
| "strsplit (Suc 0) s = [s]"
| "strsplit (Suc (Suc n)) s =
     (case strchr s CHR '' '' of None \<Rightarrow> [s] | Some r \<Rightarrow> before s {CHR '' ''} # strsplit (Suc n) (tl r))"

definition cmdline_words :: "string option \<Rightarrow> string list" where
  "cmdline_words cmdline =
     (case cmdline of
        None \<Rightarrow> []
      | Some c \<Rightarrow>
          (case strchr c CHR '' '' of
             None \<Rightarrow> []
           | Some r \<Rightarrow> filter (\<lambda>w. w \<noteq> []) (if tl r = [] then [] else strsplit 64 (tl r))))"

record polkit_ask =
  pa_cookie :: string
  pa_action :: string
  pa_message :: string
  pa_program :: "string option"
  pa_cmdline :: "string option"
  pa_idents :: "(string \<times> u32 option) list"

definition ask_program :: "(string \<times> string option) list \<Rightarrow> polkit_ask \<Rightarrow> string option" where
  "ask_program actions q =
     (case pa_program q of
        Some p \<Rightarrow> Some p
      | None \<Rightarrow> (case quoted_program (pa_message q) of
                   Some p \<Rightarrow> Some p
                 | None \<Rightarrow> action_exec_path actions (pa_action q) 1024))"

definition ask_argv :: "(string \<times> string option) list \<Rightarrow> polkit_ask \<Rightarrow> string list" where
  "ask_argv actions q =
     (case ask_program actions q of
        Some p \<Rightarrow> if p \<noteq> [] then p # cmdline_words (pa_cmdline q)
                  else [if pa_message q \<noteq> [] then pa_message q else pa_action q]
      | None \<Rightarrow> [if pa_message q \<noteq> [] then pa_message q else pa_action q])"

text \<open>The request for the broker; \<open>None\<close>: nobody polkit would take, or it does not fit.\<close>

definition ask_blob :: "(string \<times> string option) list \<Rightarrow> polkit_ask \<Rightarrow> bytes option" where
  "ask_blob actions q =
     (let ids = fold add_id (pa_idents q) [];
          blob = concat (map cput ([''@polkit'', snprintf_s 4096 (''POLKIT_COOKIE='' @ pa_cookie q),
            snprintf_s 4096 (''POLKIT_ACTION='' @ pa_action q), snprintf_s 4096 (''POLKIT_IDENTITIES='' @ ids), []]
            @ ask_argv actions q))
      in if ids = [] then None else if length blob > 16384 then None else Some blob)"

definition ask_broker :: "(bytes \<Rightarrow> bytes option) \<Rightarrow> (string \<times> string option) list \<Rightarrow> polkit_ask \<Rightarrow> nat" where
  "ask_broker broker actions q =
     (case ask_blob actions q of
        None \<Rightarrow> 2
      | Some blob \<Rightarrow>
          (case broker (le32 (word_of_nat (length blob)) @ blob) of
             Some (s # _) \<Rightarrow> code s
           | _ \<Rightarrow> 2))"

datatype polkit_answer = Authorised | Cancelled | Failed

definition begin_answer :: "nat \<Rightarrow> polkit_answer" where
  "begin_answer status = (if status = 0 then Authorised else if status = 1 then Cancelled else Failed)"

text \<open>The requests in progress, by number: their cookie and whether they were shut down.\<close>

type_synonym agent = "(nat \<times> string \<times> bool) list"

definition begin_request :: "nat \<Rightarrow> string \<Rightarrow> agent \<Rightarrow> agent" where
  "begin_request n cookie a = (n, cookie, False) # a"

definition end_request :: "nat \<Rightarrow> agent \<Rightarrow> agent" where
  "end_request n a = filter (\<lambda>(m, _). m \<noteq> n) a"

definition cancel_request :: "string \<Rightarrow> agent \<Rightarrow> agent" where
  "cancel_request cookie a = map (\<lambda>(n, c, shut). (n, c, shut \<or> c = cookie)) a"

section \<open>sg-polkit-respond\<close>

text \<open>The agent's uid, the cookie and the identity told to polkitd; \<open>None\<close>: exit code 2.\<close>

definition respond_args :: "string list \<Rightarrow> (u32 \<times> string \<times> u32) option" where
  "respond_args args =
     (case args of
        [a, cookie, i] \<Rightarrow>
          if strtol_end a \<noteq> [] \<or> a = [] then None
          else if strtol_end i \<noteq> [] \<or> i = [] then None
          else Some (strtou32 a, cookie, strtou32 i)
      | _ \<Rightarrow> None)"

section \<open>Requests arrive as they were meant\<close>

lemma split_env_cput:
  assumes "\<forall>e\<in>set es. nul_free e \<and> e \<noteq> []"
  shows "split_env (concat (map cput es) @ NUL # r) = (es, NUL # r)"
  using assms
proof (induction es)
  case Nil
  then show ?case by (simp add: split_env.simps)
next
  case (Cons e es)
  then have "hd (cput e @ x) \<noteq> NUL" "cput e @ x \<noteq> []" for x by (cases e; simp add: cput_def)+
  then show ?case
    using Cons by (subst split_env.simps) (simp add: cskip_cput cstr_cput)
qed

lemma parse_request_written:
  assumes "nul_free cwd" and "\<forall>e\<in>set envp. nul_free e \<and> e \<noteq> []" and "\<forall>a\<in>set argv. nul_free a"
  shows "parse_request (concat (map cput (cwd # envp @ [[]] @ argv)))
    = \<lparr>rq_cwd = cwd, rq_envp = take 63 envp, rq_argv = take 255 argv\<rparr>"
proof -
  have "cput [] = [NUL]" by (simp add: cput_def)
  then show ?thesis
    using split_env_cput[OF assms(2), of "concat (map cput argv)"] assms(1,3)
    by (simp add: parse_request_def cskip_cput cstr_cput cstrings_cput)
qed

lemma concat_cput_last: "ss \<noteq> [] \<Longrightarrow> last (concat (map cput ss)) = NUL"
  by (induction ss rule: rev_induct) (simp_all add: cput_def)

lemma concat_cput_Nil [simp]: "concat (map cput ss) = [] \<longleftrightarrow> ss = []"
  by (cases ss) simp_all

lemma read_blob_written:
  assumes "length blob \<le> MAXBLOB" and "blob = concat (map cput ss)" and "ss \<noteq> []"
  shows "read_blob nfds (le32 (word_of_nat (length blob)) @ blob @ rest) = Some (blob, 0 < nfds)"
proof -
  have b: "blob \<noteq> []" "last blob = NUL" using assms(2,3) concat_cput_last[OF assms(3)] by auto
  have len: "unat (word_of_nat (length blob) :: u32) = length blob"
    using assms(1) by (intro unat_word_of_nat_u32) (simp add: MAXBLOB_def)
  then have "(word_of_nat (length blob) :: u32) \<noteq> 0" using b(1) by (metis length_0_conv unat_0)
  then show ?thesis
    using assms(1) len append_butlast_last_id[OF b(1)] b(2)
    by (simp add: read_blob_def read_request_len_def read_u32_le32 read_full_append)
qed

lemma put_None [simp]: "fold (put cap) ss None = None"
  by (induction ss) (simp_all add: put_def)

lemma put_all: "fold (put cap) ss (Some b) = Some b' \<Longrightarrow> b' = b @ concat (map cput ss) \<and> (ss \<noteq> [] \<longrightarrow> length b' \<le> cap)"
proof (induction ss arbitrary: b)
  case (Cons s ss)
  have s: "put cap s (Some b) = (if length (b @ cput s) > cap then None else Some (b @ cput s))" by (simp add: put_def)
  have fits: "length (b @ cput s) \<le> cap" "fold (put cap) ss (Some (b @ cput s)) = Some b'"
    using Cons.prems by (auto simp: s split: if_splits)
  then show ?case using Cons.IH[OF fits(2)] fits(1) by (cases ss) auto
qed simp

lemma hex_digit_not_NUL: "hex_digit n \<noteq> NUL" if "n < 16"
proof -
  have "code (hex_digit n) \<noteq> 0" using that by (simp add: hex_digit_def)
  moreover have "code NUL = 0" by simp
  ultimately show ?thesis by metis
qed

lemma hex_n_nul_free: "nul_free (hex_n n v)"
  by (induction n arbitrary: v) (simp_all add: hex_digit_not_NUL)

lemma look_env_entry:
  assumes "e \<in> set (look_env query (key, val, name, hex))" and "nul_free name" and "name \<noteq> []"
  shows "nul_free e \<and> e \<noteq> []"
  using assms by (auto simp: look_env_def hex_n_nul_free split: option.splits if_splits)

lemma look_entries_names: "(key, val, name, hex) \<in> set look_entries \<Longrightarrow> nul_free name \<and> name \<noteq> []"
  by (auto simp: look_entries_def Let_def)

lemma length_look_env: "length (look_env query e) \<le> 1"
  by (cases e) (simp add: look_env_def split: option.splits)

lemma env_entry_entries:
  assumes "\<forall>v\<in>ran getenv. nul_free v" and "e \<in> set (env_entry sz getenv name)" and "nul_free name" and "1 < sz"
  shows "nul_free e \<and> e \<noteq> []"
proof -
  obtain v where v: "getenv name = Some v" "e = take (sz - 1) (name @ ''='' @ v)"
    using assms(2) by (cases "getenv name") (simp_all add: env_entry_def snprintf_s_def)
  then have "nul_free (name @ ''='' @ v)" using assms(1,3) by (auto simp: ran_def)
  then show ?thesis using v(2) assms(4) nul_free_take by auto
qed

lemma length_env_entry: "length (env_entry sz getenv name) \<le> 1"
  by (simp add: env_entry_def split: option.split)

lemma elevate_env_entries:
  assumes "\<forall>v\<in>ran getenv. nul_free v" and "e \<in> set (elevate_env getenv query wine)"
  shows "nul_free e \<and> e \<noteq> []"
proof -
  consider (var) sz name where "e \<in> set (env_entry sz getenv name)" "nul_free name" "1 < sz"
    | (look) key val name hex where "(key, val, name, hex) \<in> set look_entries" "e \<in> set (look_env query (key, val, name, hex))"
    using assms(2) by (fastforce simp: elevate_env_def split: if_splits)
  then show ?thesis
  proof cases
    case var
    then show ?thesis using env_entry_entries[OF assms(1)] by blast
  next
    case look
    then show ?thesis using look_env_entry look_entries_names by blast
  qed
qed

lemma length_elevate_env: "length (elevate_env getenv query wine) \<le> 6"
proof -
  have "length (concat (map (look_env query) es)) \<le> length es" for es
  proof (induction es)
    case (Cons e es)
    then show ?case using length_look_env[of query e] by simp
  qed simp
  from this[of look_entries] have "length (concat (map (look_env query) look_entries)) \<le> 3"
    by (rule le_trans) (simp add: look_entries_def Let_def)
  moreover have "length (if getenv ''WINEDEBUG'' = Some [] then [] else env_entry 600 getenv ''WINEDEBUG'') \<le> 1"
    using length_env_entry[of 600 getenv "''WINEDEBUG''"] by simp
  ultimately show ?thesis
    using length_env_entry[of 4200 getenv "''WINEPREFIX''"] length_env_entry[of 4200 getenv "''LANG''"]
    by (simp only: elevate_env_def length_append split: if_split) auto
qed

text \<open>
  C6.  What sg-elevate sends is what the broker acts on: whenever the request fits, the
  broker reads from it exactly the caller's directory, exactly the variables sg-elevate
  chose, and the program with its arguments in order, empty ones too, up to the 255 the
  broker keeps.
\<close>

theorem elevate_round_trip:
  assumes "elevate_send getenv query (Some cwd) wine argv = Some bs"
    and "\<forall>v\<in>ran getenv. nul_free v" and "nul_free cwd" and "\<forall>a\<in>set argv. nul_free a"
  shows "\<exists>blob. read_blob nfds bs = Some (blob, 0 < nfds) \<and> parse_request blob =
    \<lparr>rq_cwd = cwd, rq_envp = elevate_env getenv query wine, rq_argv = take 255 ((if wine then [''wine''] else []) @ argv)\<rparr>"
proof -
  let ?args = "(if wine then [''wine''] else []) @ argv"
  let ?ss = "cwd # elevate_env getenv query wine @ [[]] @ ?args"
  obtain blob where b: "elevate_blob cwd (elevate_env getenv query wine) wine argv = Some blob"
    "bs = le32 (word_of_nat (length blob)) @ blob"
    using assms(1) by (auto simp: elevate_send_def split: option.splits)
  have "fold (put MAXBLOB) ?ss (Some []) = Some blob" using b(1) by (simp only: elevate_blob_def)
  from put_all[OF this] have blob: "blob = concat (map cput ?ss)" "length blob \<le> MAXBLOB" by auto
  have "read_blob nfds bs = Some (blob, 0 < nfds)"
    using read_blob_written[OF blob(2,1), of nfds "[]"] b(2) by simp
  moreover have "parse_request blob = \<lparr>rq_cwd = cwd, rq_envp = take 63 (elevate_env getenv query wine), rq_argv = take 255 ?args\<rparr>"
    unfolding blob(1) by (rule parse_request_written) (use assms(3,4) elevate_env_entries[OF assms(2)] in auto)
  ultimately show ?thesis using length_elevate_env[of getenv query wine] by simp
qed

definition ex_getenv :: "string \<Rightarrow> string option" where
  "ex_getenv n = (if n = ''LANG'' then Some ''de_DE.UTF-8'' else None)"

lemma ex_getenv_nul_free: "\<forall>v\<in>ran ex_getenv. nul_free v"
  by (auto simp: ex_getenv_def ran_def split: if_splits)

theorem elevate_round_trip_witness:
  "\<exists>bs blob. elevate_send ex_getenv (\<lambda>_ _. None) (Some ''/home/bob'') True [''setup.exe'', '''', ''/quiet''] = Some bs \<and>
     read_blob 1 bs = Some (blob, True) \<and> rq_argv (parse_request blob) = [''wine'', ''setup.exe'', '''', ''/quiet'']"
proof -
  have "\<exists>bs. elevate_send ex_getenv (\<lambda>_ _. None) (Some ''/home/bob'') True [''setup.exe'', '''', ''/quiet''] = Some bs"
    by (simp add: elevate_send_def elevate_blob_def elevate_env_def env_entry_def ex_getenv_def look_entries_def look_env_def reg_dword_def
        put_def MAXBLOB_def cput_def Let_def)
  then obtain bs where bs: "elevate_send ex_getenv (\<lambda>_ _. None) (Some ''/home/bob'') True [''setup.exe'', '''', ''/quiet''] = Some bs" ..
  from elevate_round_trip[where nfds = 1, OF bs ex_getenv_nul_free] bs show ?thesis by auto
qed

section \<open>The exit status comes back\<close>

section \<open>polkit's question arrives as it was meant\<close>

definition unix_uids :: "(string \<times> u32 option) list \<Rightarrow> u32 list" where
  "unix_uids ids = List.map_filter (\<lambda>(kind, uid). if kind = ''unix-user'' then uid else None) ids"

fun commas :: "string list \<Rightarrow> string" where
  "commas [] = []"
| "commas [s] = s"
| "commas (s # ss) = s @ '','' @ commas ss"

lemma commas_snoc: "commas (ss @ [s]) = (if ss = [] then s else commas ss @ '','' @ s)"
  by (induction ss rule: commas.induct) auto

lemma commas_Nil: "\<forall>s\<in>set ss. s \<noteq> [] \<Longrightarrow> commas ss = [] \<longleftrightarrow> ss = []"
  by (cases ss rule: commas.cases) auto

lemma strtok_commas:
  "\<forall>s\<in>set ss. s \<noteq> [] \<and> CHR '','' \<notin> set s \<Longrightarrow> strtok_all {CHR '',''} (commas ss) = ss"
proof (induction ss rule: commas.induct)
  case 1
  then show ?case by (simp add: strtok_all.simps)
next
  case (2 s)
  then obtain c t where s: "s = c # t" "c \<noteq> CHR '',''" "dropWhile (\<lambda>c. c \<noteq> CHR '','') t = []" "takeWhile (\<lambda>c. c \<noteq> CHR '','') t = t"
    by (cases s) auto
  then show ?case
    by (subst strtok_all.simps) (simp add: strtok_all.simps[of _ "[]"] del: dropWhile_eq_Nil_conv takeWhile_eq_all_conv)
next
  case (3 s s2 ss)
  let ?t = "commas (s2 # ss)"
  have d: "dropWhile (\<lambda>c. c = CHR '','') (s @ '','' @ ?t) = s @ '','' @ ?t" "takeWhile (\<lambda>c. c \<noteq> CHR '','') (s @ '','' @ ?t) = s"
    "dropWhile (\<lambda>c. c \<noteq> CHR '','') (s @ '','' @ ?t) = '','' @ ?t"
    using "3.prems" by (cases s; auto simp: takeWhile_append dropWhile_append)+
  have c: "strtok_all {CHR '',''} ('','' @ ?t) = strtok_all {CHR '',''} ?t"
    by (subst (1 2) strtok_all.simps) simp
  have "strtok_all {CHR '',''} (s @ '','' @ ?t) = s # strtok_all {CHR '',''} ('','' @ ?t)"
    using d by (subst strtok_all.simps) (auto split: list.split)
  then show ?case using 3 c by simp
qed

lemma show_u32_word: "show_u32 w \<noteq> [] \<and> CHR '','' \<notin> set (show_u32 w)"
  using show_nat_avoids[of "CHR '',''"] by (simp add: show_u32_def isdigit_def)

lemma add_id_grows: "length ids \<le> length (fold add_id xs ids)"
proof (induction xs arbitrary: ids)
  case (Cons x xs)
  have "length ids \<le> length (add_id x ids)" by (cases x) (simp add: add_id_def Let_def split: option.split)
  then show ?case using Cons[of "add_id x ids"] by simp
qed simp

lemma add_ids:
  "length (fold add_id xs (commas (map show_u32 us))) < 1000 \<Longrightarrow>
     fold add_id xs (commas (map show_u32 us)) = commas (map show_u32 (us @ unix_uids xs))"
proof (induction xs arbitrary: us)
  case Nil
  then show ?case by (simp add: unix_uids_def map_filter_simps)
next
  case (Cons x xs)
  obtain kind uid where x: "x = (kind, uid)" by fastforce
  let ?ids = "commas (map show_u32 us)"
  have short: "length (add_id x ?ids) < 1000" using Cons.prems add_id_grows[of "add_id x ?ids" xs] by simp
  show ?case
  proof (cases "kind = ''unix-user'' \<and> uid \<noteq> None")
    case False
    then have "add_id x ?ids = ?ids" "unix_uids (x # xs) = unix_uids xs"
      by (auto simp: add_id_def x unix_uids_def map_filter_simps Let_def split: option.splits)
    then show ?thesis using Cons by simp
  next
    case True
    then obtain u where u: "uid = Some u" "kind = ''unix-user''" by auto
    have "?ids = [] \<longleftrightarrow> us = []" using commas_Nil[of "map show_u32 us"] show_u32_word by auto
    moreover have "length ?ids < 1000" using add_id_grows[of ?ids "x # xs"] Cons.prems by simp
    ultimately have "add_id x ?ids = commas (map show_u32 (us @ [u]))"
      using show_u32_length[of u] by (simp add: add_id_def x u Let_def commas_snoc)
    then show ?thesis
      using Cons.IH[of "us @ [u]"] Cons.prems by (simp add: unix_uids_def map_filter_simps x u)
  qed
qed

lemma commas_nul_free: "\<forall>s\<in>set ss. nul_free s \<Longrightarrow> nul_free (commas ss)"
  by (induction ss rule: commas.induct) auto

lemma polkit_takes_uids:
  assumes "length (fold add_id idents []) < MAXFIELD"
  shows "polkit_takes (fold add_id idents []) u \<longleftrightarrow> u \<in> set (unix_uids idents)"
proof -
  have c: "fold add_id idents [] = commas (map show_u32 (unix_uids idents))"
    using add_ids[of idents "[]"] assms by (simp add: MAXFIELD_def)
  moreover have "strtok_all {CHR '',''} (commas (map show_u32 (unix_uids idents))) = map show_u32 (unix_uids idents)"
    using show_u32_word by (intro strtok_commas) auto
  moreover have "strtou32 (show_u32 w) = w" for w using strtou32_show[of "[]" w] by simp
  ultimately show ?thesis using assms by (auto simp: polkit_takes_def list_ex_iff)
qed

lemma nul_free_before: "nul_free s \<Longrightarrow> nul_free (before s cs)"
  by (auto simp: before_def nul_free_def dest: set_takeWhileD)

lemma nul_free_strchr: "strchr s c = Some r \<Longrightarrow> nul_free s \<Longrightarrow> nul_free (tl r)"
proof -
  assume "strchr s c = Some r" "nul_free s"
  moreover from this have "r = dropWhile (\<lambda>x. x \<noteq> c) s" by (auto simp: strchr_def split: list.splits)
  ultimately have "nul_free r" by (auto simp: nul_free_def dest: set_dropWhileD)
  then show ?thesis by (cases r) auto
qed

lemma strsplit_nul_free: "nul_free s \<Longrightarrow> w \<in> set (strsplit n s) \<Longrightarrow> nul_free w"
proof (induction n s rule: strsplit.induct)
  case (3 n s)
  show ?case
  proof (cases "strchr s CHR '' ''")
    case None
    then show ?thesis using 3 by simp
  next
    case (Some r)
    then show ?thesis
      using 3 nul_free_strchr[OF Some "3.prems"(1)] nul_free_before[OF "3.prems"(1), of "{CHR '' ''}"] by auto
  qed
qed auto

text \<open>What polkit sends: strings without NUL.\<close>

definition ask_ok :: "polkit_ask \<Rightarrow> bool" where
  "ask_ok q \<longleftrightarrow> nul_free (pa_cookie q) \<and> nul_free (pa_action q) \<and> length (pa_cookie q) < 4082 \<and> length (pa_action q) < 4082 \<and>
     length (fold add_id (pa_idents q) []) < MAXFIELD"

lemma env_value_last: "env_value p (es @ [p @ v]) = Some v"
  by (simp add: env_value_def)

lemma env_value_skip: "\<not> starts p e \<Longrightarrow> env_value p (es @ [e]) = env_value p es"
  by (simp add: env_value_def)

definition ask_env :: "string \<Rightarrow> string \<Rightarrow> string \<Rightarrow> string list" where
  "ask_env cookie action ids = [''POLKIT_COOKIE='' @ cookie, ''POLKIT_ACTION='' @ action, ''POLKIT_IDENTITIES='' @ ids]"

lemma ask_env_values:
  "env_value ''POLKIT_COOKIE='' (ask_env cookie action ids) = Some cookie"
  "env_value ''POLKIT_ACTION='' (ask_env cookie action ids) = Some action"
  "env_value ''POLKIT_IDENTITIES='' (ask_env cookie action ids) = Some ids"
  by (simp_all add: ask_env_def env_value_def starts_def)

text \<open>
  The broker sees polkit's question as it was put: from the agent's request it reads
  that cookie and that action, the program to show, and identities among which it finds
  exactly the user ids polkit listed as users -- provided the list of them is shorter
  than the broker's buffer.
\<close>

theorem polkit_ask_round_trip:
  assumes "ask_blob actions q = Some blob" and "ask_ok q" and "\<forall>a\<in>set (ask_argv actions q). nul_free a"
  shows "\<exists>ids. read_blob 0 (le32 (word_of_nat (length blob)) @ blob) = Some (blob, False) \<and>
    rq_cwd (parse_request blob) = ''@polkit'' \<and>
    env_value ''POLKIT_COOKIE='' (rq_envp (parse_request blob)) = Some (pa_cookie q) \<and>
    env_value ''POLKIT_ACTION='' (rq_envp (parse_request blob)) = Some (pa_action q) \<and>
    env_value ''POLKIT_IDENTITIES='' (rq_envp (parse_request blob)) = Some ids \<and>
    (\<forall>u. polkit_takes ids u \<longleftrightarrow> u \<in> set (unix_uids (pa_idents q))) \<and>
    rq_argv (parse_request blob) = take 255 (ask_argv actions q)"
proof -
  define ids where "ids = fold add_id (pa_idents q) []"
  have ok: "nul_free (pa_cookie q)" "nul_free (pa_action q)" "length ids < MAXFIELD"
    "length (pa_cookie q) < 4082" "length (pa_action q) < 4082"
    using assms(2) by (simp_all add: ask_ok_def ids_def)
  have c: "ids = commas (map show_u32 (unix_uids (pa_idents q)))"
    using add_ids[of "pa_idents q" "[]"] ok(3) by (simp add: MAXFIELD_def ids_def)
  have nf: "nul_free ids" unfolding c by (rule commas_nul_free) auto
  let ?ss = "''@polkit'' # ask_env (pa_cookie q) (pa_action q) ids @ [[]] @ ask_argv actions q"
  have b: "blob = concat (map cput ?ss)" "length blob \<le> MAXBLOB"
    using assms(1) ok(3-5) by (auto simp: ask_blob_def Let_def ids_def ask_env_def MAXBLOB_def MAXFIELD_def split: if_splits)
  have "\<forall>e\<in>set (ask_env (pa_cookie q) (pa_action q) ids). nul_free e \<and> e \<noteq> []"
    using ok(1,2) nf by (simp add: ask_env_def)
  then have p: "parse_request blob = \<lparr>rq_cwd = ''@polkit'', rq_envp = take 63 (ask_env (pa_cookie q) (pa_action q) ids),
      rq_argv = take 255 (ask_argv actions q)\<rparr>"
    unfolding b(1) by (intro parse_request_written) (simp_all add: assms(3))
  have "take 63 (ask_env (pa_cookie q) (pa_action q) ids) = ask_env (pa_cookie q) (pa_action q) ids"
    by (simp add: ask_env_def)
  then show ?thesis
    using read_blob_written[OF b(2,1), of 0 "[]"] polkit_takes_uids[of "pa_idents q"] ok(3)
    by (intro exI[of _ ids]) (simp add: p ask_env_values ids_def)
qed

definition ex_ask :: polkit_ask where
  "ex_ask = \<lparr>pa_cookie = ''c1'', pa_action = ''org.gparted'', pa_message = ''Authentication is needed to run `/usr/sbin/gparted' as the super user'',
     pa_program = None, pa_cmdline = None, pa_idents = [(''unix-user'', Some 1001), (''unix-group'', Some 27)]\<rparr>"

theorem polkit_ask_round_trip_witness:
  "\<exists>blob ids. ask_blob [] ex_ask = Some blob \<and> rq_argv (parse_request blob) = [''/usr/sbin/gparted''] \<and>
     env_value ''POLKIT_IDENTITIES='' (rq_envp (parse_request blob)) = Some ids \<and> polkit_takes ids 1001 \<and> \<not> polkit_takes ids 27"
proof -
  have ids: "fold add_id (pa_idents ex_ask) [] = ''1001''" "set (unix_uids (pa_idents ex_ask)) = {1001}"
    by (simp_all add: ex_ask_def add_id_def show_1001 unix_uids_def map_filter_simps)
  have av: "ask_argv [] ex_ask = [''/usr/sbin/gparted'']"
    by (simp add: ask_argv_def ask_program_def ex_ask_def quoted_program_def strchr_def before_def cmdline_words_def)
  have "\<exists>blob. ask_blob [] ex_ask = Some blob" by (simp add: ask_blob_def ids av Let_def) (simp add: ex_ask_def cput_def)
  then obtain blob where b: "ask_blob [] ex_ask = Some blob" ..
  have ok: "ask_ok ex_ask" by (simp add: ask_ok_def ids MAXFIELD_def) (simp add: ex_ask_def)
  have nf: "\<forall>a\<in>set (ask_argv [] ex_ask). nul_free a" by (simp add: av)
  from polkit_ask_round_trip[OF b ok nf] obtain ids' where r: "env_value ''POLKIT_IDENTITIES='' (rq_envp (parse_request blob)) = Some ids'"
    "\<forall>u. polkit_takes ids' u \<longleftrightarrow> u \<in> set (unix_uids (pa_idents ex_ask))"
    "rq_argv (parse_request blob) = take 255 (ask_argv [] ex_ask)"
    by (elim exE conjE)
  then show ?thesis using b by (intro exI[of _ blob] exI[of _ ids']) (simp add: ids(2) av)
qed

end
