(* ===== verification/Sg_Elevated_Run.thy ===== *)
theory Sg_Elevated_Run
  imports Sg_Elevate
begin

text \<open>
  \<open>broker/sg-elevated-run.c\<close>: what runs an elevated program on a display of its own.  Its
  options and the account it may switch to, the cookie of the display, the compositor it
  hands the display to, the display's number, the program's environment, arguments and
  directory, and the wait for the program and for all it leaves running.

  The file system (directory listings, the program's file), the compositor at the other
  end of the socket and what \<open>waitpid\<close> and the kernel's list of children give in each
  round of the wait are arguments.  Xwayland and \<open>wine reg\<close> are programs it runs.
\<close>

section \<open>Options\<close>

record run_opts =
  ro_control :: "string option"
  ro_uid :: int
  ro_as :: int

fun run_options :: "string list \<Rightarrow> run_opts \<Rightarrow> run_opts \<times> string list" where
  "run_options [] o1 = (o1, [])"
| "run_options [a] o1 = (o1, if a = ''--'' then [] else [a])"
| "run_options (a # v # r) o1 =
     (if a = ''--control'' then run_options r (o1\<lparr>ro_control := Some v\<rparr>)
      else if a = ''--uid'' then run_options r (o1\<lparr>ro_uid := strtol10 v\<rparr>)
      else if a = ''--as-uid'' then run_options r (o1\<lparr>ro_as := strtol10 v\<rparr>)
      else if a = ''--'' then (o1, v # r)
      else (o1, a # v # r))"

definition run_main_opts :: "(string \<Rightarrow> string option) \<Rightarrow> string list \<Rightarrow> (run_opts \<times> string \<times> string list) option" where
  "run_main_opts getenv args =
     (case run_options args \<lparr>ro_control = getenv ''SG_ELEVATED_CONTROL'', ro_uid = - 1, ro_as = - 1\<rparr> of
        (o1, prog) \<Rightarrow>
          (case ro_control o1 of
             Some control \<Rightarrow> if ro_uid o1 < 0 \<or> prog = [] then None else Some (o1, control, prog)
           | None \<Rightarrow> None))"

text \<open>The account a program is started as, and SYSTEM's for the X server; \<open>None\<close>: refused.\<close>

definition as_account :: "accounts \<Rightarrow> (string \<Rightarrow> string option) \<Rightarrow> uid_t \<Rightarrow> int \<Rightarrow> (passwd \<times> passwd) option" where
  "as_account acc getenv euid as_uid =
     (let sys = (case getenv ''SG_SYSTEM_USER'' of Some s \<Rightarrow> if s \<noteq> [] then s else ''sgsystem'' | None \<Rightarrow> ''sgsystem'')
      in if euid \<noteq> 0 \<or> as_uid < 1000 then None
         else case getpwuid acc (word_of_int as_uid) of
           None \<Rightarrow> None
         | Some as_pw \<Rightarrow>
             (case getpwnam acc sys of
                None \<Rightarrow> None
              | Some sys_pw \<Rightarrow> if word_of_int as_uid = pw_uid sys_pw then None else Some (as_pw, sys_pw)))"

text \<open>The descriptor the broker listens on; \<open>can_set\<close> is \<open>fcntl\<close>'s success.\<close>

definition status_fd :: "(int \<Rightarrow> bool) \<Rightarrow> string option \<Rightarrow> int" where
  "status_fd can_set env_fd =
     (case env_fd of
        None \<Rightarrow> - 1
      | Some s \<Rightarrow> let v = strtol10 s in if strtol_end s = [] \<and> v > 2 \<and> v < 1024 \<and> can_set v then v else - 1)"

section \<open>The display\<close>

text \<open>One Xauthority entry, for any display: family, address, number, name and data.\<close>

definition cookie_name :: string where
  "cookie_name = ''MIT-MAGIC-COOKIE-1''"

definition cookie_record :: "bytes \<Rightarrow> bytes" where
  "cookie_record cookie =
     [CHR 0xFF, CHR 0xFF, NUL, NUL, NUL, NUL, NUL, char_of (length cookie_name)] @ cookie_name
     @ [NUL, char_of (length cookie)] @ cookie"

definition write_cookie :: "bytes option \<Rightarrow> bool \<Rightarrow> bytes option" where
  "write_cookie rnd can_create =
     (case rnd of Some cookie \<Rightarrow> if can_create then Some (cookie_record cookie) else None | None \<Rightarrow> None)"

text \<open>Handing the display's ends to the compositor at \<open>control\<close>, which must be \<open>uid\<close>'s.\<close>

definition hand_over :: "(string \<Rightarrow> peer option) \<Rightarrow> string \<Rightarrow> uid_t \<Rightarrow> bool" where
  "hand_over socket control uid =
     (if length control \<ge> 108 then False
      else case socket control of
        None \<Rightarrow> False
      | Some p \<Rightarrow>
          if peer_uid p \<noteq> Some uid then False
          else case peer_answer p (''ELEVATED'' @ [LF]) of
            Some reply \<Rightarrow> starts ''OK elevated'' (take 63 reply)
          | None \<Rightarrow> False)"

text \<open>What Xwayland writes, read by read, until there is a line, the buffer is full or it stops.\<close>

fun read_display :: "bytes list \<Rightarrow> bytes \<Rightarrow> bytes" where
  "read_display [] buf = buf"
| "read_display (chunk # rest) buf =
     (if \<not> length buf < 31 \<or> LF \<in> set buf then buf
      else if chunk = [] then buf else read_display rest (buf @ take (31 - length buf) chunk))"

definition display_number :: "bytes \<Rightarrow> int option" where
  "display_number buf =
     (if LF \<notin> set buf \<or> atoi (cstr buf) < 0 \<or> \<not> isdigit (hd (buf @ [NUL])) then None else Some (atoi (cstr buf)))"

section \<open>The program\<close>

definition prefix_dir :: "env \<Rightarrow> string" where
  "prefix_dir e = (case e ''WINEPREFIX'' of Some p \<Rightarrow> if p \<noteq> [] then p else ''/var/lib/stained-glass/prefix''
                                         | None \<Rightarrow> ''/var/lib/stained-glass/prefix'')"

definition strcaseeq :: "string \<Rightarrow> string \<Rightarrow> bool" where
  "strcaseeq s t \<longleftrightarrow> map tolower s = map tolower t"

text \<open>Each part of a path, looked up without regard to case; \<open>ls\<close> lists a directory.\<close>

fun walk_path :: "(string \<Rightarrow> string list option) \<Rightarrow> nat \<Rightarrow> string list \<Rightarrow> string \<Rightarrow> string option" where
  "walk_path ls n [] out = Some out"
| "walk_path ls n (part # parts) out =
     (case ls out of
        None \<Rightarrow> None
      | Some names \<Rightarrow>
          (case List.find (\<lambda>e. strcaseeq e part) names of
             None \<Rightarrow> None
           | Some found \<Rightarrow> walk_path ls n parts (snprintf_s n (out @ ''/'' @ found))))"

definition drive_letter :: "string \<Rightarrow> bool" where
  "drive_letter win \<longleftrightarrow> (case win of c # d # _ \<Rightarrow> isalpha c \<and> d = CHR '':'' | _ \<Rightarrow> False)"

definition unix_path :: "(string \<Rightarrow> string list option) \<Rightarrow> string \<Rightarrow> nat \<Rightarrow> string \<Rightarrow> string option" where
  "unix_path ls prefix n win =
     (let seps = {BSL, CHR ''/''}
      in if length win \<ge> 4096 then None
         else if drive_letter win
           then walk_path ls n (strtok_all seps (drop 2 win)) (snprintf_s n (prefix @ ''/dosdevices/'' @ [tolower (hd win)] @ '':''))
         else if BSL \<notin> set win \<and> CHR ''/'' \<notin> set win
           then walk_path ls n (strtok_all seps (snprintf_s 4096 (''windows'' @ [BSL] @ ''system32'' @ [BSL] @ win @
                  (if length win > 4 \<and> strcaseeq (drop (length win - 4) win) ''.exe'' then [] else ''.exe''))))
                  (snprintf_s n (prefix @ ''/drive_c''))
         else None)"

text \<open>\<open>pread (fd, buf, n, off) == n\<close>\<close>

definition pread :: "bytes \<Rightarrow> nat \<Rightarrow> nat \<Rightarrow> bytes option" where
  "pread file n off = (if off + n \<le> length file then Some (take n (drop off file)) else None)"

text \<open>Whether the file is a program for the Windows console.\<close>

definition is_console_file :: "bytes \<Rightarrow> bool" where
  "is_console_file file =
     (case pread file 64 0 of
        None \<Rightarrow> False
      | Some hdr \<Rightarrow>
          if \<not> starts ''MZ'' hdr then False
          else let off = unat (un_le32 (drop 60 hdr))
          in if off \<ge> 2 ^ 20 then False
             else case pread file 96 off of
               None \<Rightarrow> False
             | Some pe \<Rightarrow> starts (''PE'' @ [NUL, NUL]) pe \<and> code (pe ! 92) + 256 * code (pe ! 93) = 3)"

definition is_console_program :: "(string \<Rightarrow> string list option) \<Rightarrow> (string \<Rightarrow> bytes option) \<Rightarrow> string \<Rightarrow> string \<Rightarrow> bool" where
  "is_console_program ls files prefix win =
     (case unix_path ls prefix 4096 win of
        None \<Rightarrow> False
      | Some path \<Rightarrow> (case files path of None \<Rightarrow> False | Some file \<Rightarrow> is_console_file file))"

definition console_args :: "(string \<Rightarrow> bool) \<Rightarrow> string list \<Rightarrow> string list" where
  "console_args is_console args =
     (case args of
        w # p # r \<Rightarrow> if w = ''wine'' \<and> is_console p then w # ''wineconsole'' # p # r else args
      | _ \<Rightarrow> args)"

definition elevated_identity :: "accounts \<Rightarrow> uid_t \<Rightarrow> env \<Rightarrow> env" where
  "elevated_identity acc uid e =
     (let e1 = setenv ''SG_ELEVATED_IDENTITY'' ''1'' e
      in case getpwuid acc uid of
           Some rpw \<Rightarrow> if pw_name rpw \<noteq> [] then setenv ''LOGNAME'' (pw_name rpw) (setenv ''USER'' (pw_name rpw) e1) else e1
         | None \<Rightarrow> e1)"

text \<open>The registry file for the display's desktop.\<close>

definition look_text :: "string \<Rightarrow> string" where
  "look_text desktop =
     ''Windows Registry Editor Version 5.00'' @ [CR, LF, CR, LF]
     @ ''[HKEY_CURRENT_USER'' @ [BSL] @ ''Software'' @ [BSL] @ ''Wine'' @ [BSL] @ ''Explorer'' @ [BSL] @ ''Desktops'' @ [BSL]
     @ desktop @ '']'' @ [CR, LF, DQ] @ ''ShowSystray'' @ [DQ] @ ''=dword:00000000'' @ [CR, LF, CR, LF]
     @ ''[HKEY_CURRENT_USER'' @ [BSL] @ ''Software'' @ [BSL] @ ''Wine'' @ [BSL] @ ''X11 Driver]'' @ [CR, LF, DQ] @ ''Decorated''
     @ [DQ] @ ''='' @ [DQ] @ ''N'' @ [DQ, CR, LF, CR, LF]"

definition apply_user_look :: "env \<Rightarrow> env" where
  "apply_user_look e = e(''SG_USER_APPS_LIGHT'' := None, ''SG_USER_SYSTEM_LIGHT'' := None, ''SG_USER_ACCENT'' := None)"

definition display_env :: "int \<Rightarrow> string \<Rightarrow> env \<Rightarrow> env" where
  "display_env display cookie e =
     (e(''SG_ELEVATED_STATUS_FD'' := None))
       (''DISPLAY'' \<mapsto> '':'' @ show_int display, ''XAUTHORITY'' \<mapsto> cookie,
        ''WAYLAND_DISPLAY'' := None, ''SG_WINSTATION'' \<mapsto> ''WinSta0'' @ [BSL] @ ''sg-elevated-'' @ show_int display)"

definition program_env :: "accounts \<Rightarrow> passwd option \<Rightarrow> int \<Rightarrow> int \<Rightarrow> string \<Rightarrow> env \<Rightarrow> env" where
  "program_env acc as_pw uid display cookie e =
     (let e1 = display_env display cookie e
      in if as_pw = None
         then apply_user_look (elevated_identity acc (word_of_int uid) (setenv ''SG_SESSION_UID'' (show_int uid) e1))
         else e1)"

text \<open>The directory the program starts in: the system directory instead of the root.\<close>

definition program_dir :: "env \<Rightarrow> bool \<Rightarrow> string \<Rightarrow> string" where
  "program_dir e can_enter cwd = (if cwd = ''/'' \<and> can_enter then snprintf_s 4096 (prefix_dir e @ ''/drive_c/windows/system32'') else cwd)"

text \<open>Whether the process gave up root: \<open>setuid (0)\<close> must fail afterwards.\<close>

definition drops_root :: "passwd option \<Rightarrow> bool" where
  "drops_root as_pw = (case as_pw of Some pw \<Rightarrow> pw_uid pw \<noteq> 0 | None \<Rightarrow> True)"

record run_os =
  ru_accounts :: accounts
  ru_euid :: uid_t
  ru_socket :: "string \<Rightarrow> peer option"
  ru_random :: "bytes option"
  ru_can_create :: bool
  ru_ls :: "string \<Rightarrow> string list option"
  ru_files :: "string \<Rightarrow> bytes option"
  ru_can_enter :: bool

text \<open>
  All up to the program's start: its account (\<open>None\<close>: that of sg-elevated-run itself), its
  environment, arguments and directory; \<open>None\<close>: it is not started (sg-elevated-run ends
  with 125, or the process that cannot give up root with 126).  \<open>dir\<close> is the directory made
  for the cookie, \<open>xout\<close> what Xwayland writes.
\<close>

definition elevated_start :: "run_os \<Rightarrow> env \<Rightarrow> string \<Rightarrow> string \<Rightarrow> bytes list \<Rightarrow> string list
    \<Rightarrow> (passwd option \<times> env \<times> string list \<times> string) option" where
  "elevated_start os e cwd dir xout args =
     (case run_main_opts e args of
        None \<Rightarrow> None
      | Some (o1, control, prog) \<Rightarrow>
          let as1 = as_account (ru_accounts os) e (ru_euid os) (ro_as o1)
          in if ro_as o1 \<ge> 0 \<and> as1 = None then None
             else if write_cookie (ru_random os) (ru_can_create os) = None then None
             else if \<not> hand_over (ru_socket os) control (word_of_int (ro_uid o1)) then None
             else case display_number (read_display xout []) of
               None \<Rightarrow> None
             | Some display \<Rightarrow>
                 let as_pw = (if ro_as o1 \<ge> 0 then map_option fst as1 else None);
                     e' = program_env (ru_accounts os) as_pw (ro_uid o1) display (snprintf_s 64 (dir @ ''/Xauthority'')) e
                 in if \<not> drops_root as_pw then None
                    else Some (as_pw, e', console_args (is_console_program (ru_ls os) (ru_files os) (prefix_dir e')) prog,
                          program_dir e' (ru_can_enter os) cwd))"

section \<open>The wait\<close>

text \<open>The kernel's list of our children: how many of them are not \<open>except\<close>.\<close>

function child_pids :: "string \<Rightarrow> int list" where
  "child_pids p = (if p = [] \<or> length (strtol_end p) \<ge> length p then [] else strtol10 p # child_pids (strtol_end p))"
  by pat_completeness auto
termination by (relation "measure length") auto

declare child_pids.simps [simp del]

definition other_children :: "bytes option \<Rightarrow> int \<Rightarrow> int" where
  "other_children listing except =
     (case listing of
        None \<Rightarrow> - 1
      | Some b \<Rightarrow> int (length (filter (\<lambda>p. p \<noteq> except) (child_pids (cstr (take 4095 b))))))"

text \<open>
  One round: the children reaped, then the list of those there are, and whether
  \<open>waitpid\<close> said that there are none.
\<close>

type_synonym wait_round = "(int \<times> wait_status) list \<times> bytes option \<times> bool"

definition exit_code :: "wait_status \<Rightarrow> nat" where
  "exit_code st = (case st of Exited n \<Rightarrow> n | Signaled n \<Rightarrow> 128 + n)"

text \<open>
  The state: the exit status, whether the broker still listens, what it was told, and the
  X server (-1 once it ended).
\<close>

type_synonym wait_state = "nat \<times> bool \<times> u32 list \<times> int"

definition tell_exit :: "nat \<Rightarrow> bool \<times> u32 list \<Rightarrow> bool \<times> u32 list" where
  "tell_exit c = (\<lambda>(fd_open, told). if \<not> fd_open then (fd_open, told) else (False, told @ [word_of_nat c]))"

definition reap :: "int \<Rightarrow> int \<times> wait_status \<Rightarrow> wait_state \<Rightarrow> wait_state" where
  "reap pid = (\<lambda>(w, st) (code1, fd_open, told, xpid).
     let (code2, fd_open2, told2) = (if w = pid then (exit_code st, tell_exit (exit_code st) (fd_open, told))
                                     else (code1, fd_open, told))
     in (code2, fd_open2, told2, if w = xpid then - 1 else xpid))"

text \<open>The loop; \<open>None\<close>: still waiting when the rounds end.\<close>

fun wait_rounds :: "int \<Rightarrow> wait_round list \<Rightarrow> wait_state \<Rightarrow> wait_state option" where
  "wait_rounds pid [] s = None"
| "wait_rounds pid ((reaped, listing, none) # rest) s =
     (case fold (reap pid) reaped s of
        (code1, fd_open, told, xpid) \<Rightarrow>
          let others = other_children listing xpid;
              (fd_open2, told2) = tell_exit code1 (fd_open, told)
          in if others = 0 \<or> others < 0 \<and> none then Some (code1, fd_open2, told2, xpid)
             else wait_rounds pid rest (code1, fd_open, told, xpid))"

definition wait_program :: "bool \<Rightarrow> int \<Rightarrow> int \<Rightarrow> wait_round list \<Rightarrow> wait_state option" where
  "wait_program fd_open pid xpid rounds = wait_rounds pid rounds (125, fd_open, [], xpid)"

section \<open>The broker hears of the program's end once, and at once\<close>

text \<open>The state after some children have been reaped, the program at most once among them.\<close>

definition wait_inv :: "int \<Rightarrow> (int \<times> wait_status) list \<Rightarrow> wait_state \<Rightarrow> bool" where
  "wait_inv pid rs s \<longleftrightarrow>
     (case map_of rs pid of
        None \<Rightarrow> \<exists>x. s = (125, True, [], x)
      | Some st \<Rightarrow> \<exists>x. s = (exit_code st, False, [word_of_nat (exit_code st)], x))"

definition reaped_once :: "int \<Rightarrow> (int \<times> wait_status) list \<Rightarrow> bool" where
  "reaped_once pid rs \<longleftrightarrow> length (filter (\<lambda>(p, _). p = pid) rs) \<le> 1"

lemma reaped_once_append: "reaped_once pid (rs @ rs') \<Longrightarrow> reaped_once pid rs"
  by (simp add: reaped_once_def)

lemma reaped_once_snoc: "reaped_once pid (rs @ [(pid, st)]) \<Longrightarrow> map_of rs pid = None"
  by (auto simp: reaped_once_def map_of_eq_None_iff filter_empty_conv)

lemma reap_inv:
  assumes "wait_inv pid rs s" and "reaped_once pid (rs @ [r])"
  shows "wait_inv pid (rs @ [r]) (reap pid r s)"
proof (cases r)
  case (Pair w st)
  show ?thesis
  proof (cases "w = pid")
    case True
    then have "map_of rs pid = None" using assms(2) Pair reaped_once_snoc by simp
    then show ?thesis using assms(1) Pair True by (auto simp: wait_inv_def reap_def tell_exit_def map_add_def)
  next
    case False
    then show ?thesis
      using assms(1) Pair by (auto simp: wait_inv_def reap_def map_add_def split: option.splits)
  qed
qed

lemma fold_reap_inv:
  "wait_inv pid rs s \<Longrightarrow> reaped_once pid (rs @ rs') \<Longrightarrow> wait_inv pid (rs @ rs') (fold (reap pid) rs' s)"
proof (induction rs' arbitrary: rs s)
  case (Cons r rs')
  have "reaped_once pid (rs @ [r])" using Cons.prems(2) reaped_once_append[of pid "rs @ [r]" rs'] by simp
  then have "wait_inv pid (rs @ [r]) (reap pid r s)" using Cons.prems(1) reap_inv by blast
  then show ?case using Cons.IH[of "rs @ [r]" "reap pid r s"] Cons.prems(2) by simp
qed simp

lemma other_children_none: "other_children (Some []) x = 0"
  by (simp add: other_children_def child_pids.simps)

lemma wait_rounds_reports:
  assumes "(reaped, Some [], none) \<in> set rounds" and "wait_inv pid rs s" and "reaped_once pid (rs @ concat (map fst rounds))"
  shows "\<exists>k c x. wait_rounds pid rounds s = Some (c, False, [word_of_nat c], x) \<and>
    c = (case map_of (rs @ concat (map fst (take k rounds))) pid of Some st \<Rightarrow> exit_code st | None \<Rightarrow> 125)"
  using assms
proof (induction rounds arbitrary: rs s)
  case (Cons r rounds)
  obtain rp ls no where r: "r = (rp, ls, no)" by (cases r) auto
  obtain c1 o1 t1 x1 where f: "fold (reap pid) rp s = (c1, o1, t1, x1)" by (cases "fold (reap pid) rp s") auto
  have "reaped_once pid (rs @ rp)"
    using Cons.prems(3) reaped_once_append[of pid "rs @ rp" "concat (map fst rounds)"] r by simp
  then have inv: "wait_inv pid (rs @ rp) (c1, o1, t1, x1)" using fold_reap_inv[OF Cons.prems(2)] f by metis
  show ?case
  proof (cases "other_children ls x1 = 0 \<or> other_children ls x1 < 0 \<and> no")
    case True
    have "wait_rounds pid (r # rounds) s = Some (c1, False, [word_of_nat c1], x1)"
      using True inv by (auto simp: r f wait_inv_def tell_exit_def split: option.splits)
    moreover have "c1 = (case map_of (rs @ concat (map fst (take 1 (r # rounds)))) pid of Some st \<Rightarrow> exit_code st | None \<Rightarrow> 125)"
      using inv by (auto simp: r wait_inv_def split: option.splits)
    ultimately show ?thesis by blast
  next
    case False
    then have "(reaped, Some [], none) \<in> set rounds" using Cons.prems(1) other_children_none r by auto
    from Cons.IH[OF this inv] Cons.prems(3) r obtain k c x where
      k: "wait_rounds pid rounds (c1, o1, t1, x1) = Some (c, False, [word_of_nat c], x)"
      "c = (case map_of ((rs @ rp) @ concat (map fst (take k rounds))) pid of Some st \<Rightarrow> exit_code st | None \<Rightarrow> 125)" by auto
    have "wait_rounds pid (r # rounds) s = Some (c, False, [word_of_nat c], x)" using False k(1) by (auto simp: r f Let_def split: prod.split)
    moreover have "c = (case map_of (rs @ concat (map fst (take (Suc k) (r # rounds)))) pid of Some st \<Rightarrow> exit_code st | None \<Rightarrow> 125)"
      using k(2) by (simp add: r)
    ultimately show ?thesis by blast
  qed
qed simp



section \<open>The program is the one the broker meant\<close>

lemma strtol10_uid: "strtol10 (show_u32 w) = uint w"
proof -
  have "unat w < 2 ^ 63" by (rule less_trans[OF unat_u32_less]) simp
  then show ?thesis using strtol10_show[of "unat w" "[]"] by (simp only: show_u32_def uint_nat append_Nil2 simp_thms)
qed

lemma run_options_elevated:
  "run_options ([''--control'', ctl, ''--uid'', u, ''--''] @ prog) o1 = (o1\<lparr>ro_control := Some ctl, ro_uid := strtol10 u\<rparr>, prog)"
  by (cases prog) simp_all

lemma run_main_elevated:
  assumes "prog \<noteq> []"
  shows "run_main_opts getenv ([''--control'', ctl, ''--uid'', show_u32 uid, ''--''] @ prog) =
    Some (\<lparr>ro_control = Some ctl, ro_uid = uint uid, ro_as = - 1\<rparr>, ctl, prog)"
  using assms unfolding run_main_opts_def run_options_elevated by (simp add: strtol10_uid)

lemma run_options_as:
  "run_options ([''--control'', ctl, ''--uid'', u, ''--as-uid'', a, ''--''] @ prog) o1 =
     (o1\<lparr>ro_control := Some ctl, ro_uid := strtol10 u, ro_as := strtol10 a\<rparr>, prog)"
  by (cases prog) simp_all

lemma run_main_as:
  "run_main_opts getenv ([''--control'', ctl, ''--uid'', u, ''--as-uid'', show_u32 uid, ''--''] @ prog) = Some (o1, control, prog') \<Longrightarrow>
     ro_as o1 = uint uid \<and> prog' = prog"
  unfolding run_main_opts_def run_options_as by (auto simp: strtol10_uid split: if_splits)

text \<open>
  C8.  A program for another account is never root's, SYSTEM's or a system account's: when
  the monitor's command line reaches sg-elevated-run, the account it switches to is the
  one the monitor checked, its uid is at least 1000, and it is not SYSTEM's.
\<close>

theorem spawn_reaches_run:
  assumes "spawn_child cfg mos uid blob = Some c" and "ch_user c = None"
    and "run_main_opts getenv (tl (ch_argv c)) = Some (o1, control, prog)"
    and "as_account (mo_accounts mos) getenv euid (ro_as o1) = Some (as_pw, sys_pw)"
  shows "getpwuid (mo_accounts mos) uid = Some as_pw \<and> uid \<ge> 1000 \<and> euid = 0 \<and> uid \<noteq> pw_uid sys_pw \<and>
    hd prog = g_launch_wine cfg"
proof -
  obtain ctl requester args pw where a: "ch_argv c = g_elevated_run cfg #
      [''--control'', ctl, ''--uid'', requester, ''--as-uid'', show_u32 uid, ''--''] @ take 255 (g_launch_wine cfg # args)"
    "\<not> uid < 1000"
    using assms(1,2) by (auto simp: spawn_child_def Let_def split: option.splits if_splits)
  have o1: "ro_as o1 = uint uid" "prog = take 255 (g_launch_wine cfg # args)"
    using run_main_as[OF assms(3)[unfolded a(1) list.sel]] by simp_all
  have "getpwuid (mo_accounts mos) uid = Some as_pw" "euid = 0" "uid \<noteq> pw_uid sys_pw"
    using assms(4) unfolding o1(1) by (auto simp: as_account_def Let_def split: if_splits option.splits)
  moreover have "hd prog = g_launch_wine cfg" using o1(2) by (simp add: take_Cons')
  ultimately show ?thesis using a(2) by auto
qed

theorem spawn_reaches_run_witness:
  "\<exists>c o1 control prog as_pw sys_pw. spawn_child default_cfg ex_os 1001
       (''/tmp'' @ [NUL] @ ''t'' @ [NUL] @ ''/c'' @ [NUL] @ ''1002'' @ [NUL] @ ''notepad'' @ [NUL]) = Some c \<and>
     run_main_opts (\<lambda>_. None) (tl (ch_argv c)) = Some (o1, control, prog) \<and>
     as_account (mo_accounts ex_os) (\<lambda>_. None) 0 (ro_as o1) = Some (as_pw, sys_pw) \<and> hd prog = g_launch_wine default_cfg"
proof -
  let ?blob = "''/tmp'' @ [NUL] @ ''t'' @ [NUL] @ ''/c'' @ [NUL] @ ''1002'' @ [NUL] @ ''notepad'' @ [NUL]"
  let ?prog = "take 255 (g_launch_wine default_cfg # [''notepad''])"
  have f: "spawn_fields ?blob = Some (''/tmp'', ''t'', ''/c'', ''1002'', [''notepad''])"
    by (simp add: spawn_fields_def cskip_def cstr_def cstrings.simps)
  have "\<exists>c. spawn_child default_cfg ex_os 1001 ?blob = Some c \<and> ch_user c = None \<and>
      ch_argv c = g_elevated_run default_cfg # [''--control'', ''/c'', ''--uid'', ''1002'', ''--as-uid'', show_u32 1001, ''--''] @ ?prog"
    unfolding spawn_child_def f by (simp add: ex_os_def ex_defs default_cfg_def)
  then obtain c where c: "spawn_child default_cfg ex_os 1001 ?blob = Some c" "ch_user c = None"
    "ch_argv c = g_elevated_run default_cfg # [''--control'', ''/c'', ''--uid'', ''1002'', ''--as-uid'', show_u32 1001, ''--''] @ ?prog"
    by blast
  define o1 where "o1 = \<lparr>ro_control = Some ''/c'', ro_uid = 1002, ro_as = 1001\<rparr>"
  have n: "strtol10 ''1002'' = 1002" "strtol10 (show_u32 1001) = 1001" using strtol10_uid[of 1001] by (code_simp, simp)
  have r: "run_main_opts (\<lambda>_. None) (tl (ch_argv c)) = Some (o1, ''/c'', ?prog)"
    unfolding c(3) list.sel run_main_opts_def run_options_as n by (simp add: o1_def)
  have a: "as_account (mo_accounts ex_os) (\<lambda>_. None) 0 (ro_as o1) = Some (ex_account ''alice'' 1001, ex_account ''sgsystem'' 990)"
    by (simp add: as_account_def o1_def ex_os_def ex_defs Let_def)
  from spawn_reaches_run[OF c(1,2) r a] have "hd ?prog = g_launch_wine default_cfg" by (elim conjE)
  with c(1) r a show ?thesis by (intro exI conjI)
qed

section \<open>The display is the program's own\<close>

lemma hand_over_peer: "hand_over socket control uid \<Longrightarrow> \<exists>p. socket control = Some p \<and> peer_uid p = Some uid"
  by (auto simp: hand_over_def split: if_splits option.splits)

lemma display_number_pos: "display_number buf = Some n \<Longrightarrow> 0 \<le> n"
  by (auto simp: display_number_def split: if_splits)

lemma elevated_identity_other: "k \<notin> {''SG_ELEVATED_IDENTITY'', ''USER'', ''LOGNAME''} \<Longrightarrow> elevated_identity acc uid e k = e k"
  by (simp add: elevated_identity_def Let_def split: option.split)

lemma program_env_display:
  "program_env acc as_pw uid display cookie e ''DISPLAY'' = Some ('':'' @ show_int display)"
  "program_env acc as_pw uid display cookie e ''XAUTHORITY'' = Some cookie"
  "program_env acc as_pw uid display cookie e ''WAYLAND_DISPLAY'' = None"
  "program_env acc as_pw uid display cookie e ''SG_ELEVATED_STATUS_FD'' = None"
  "program_env acc None uid display cookie e ''SG_SESSION_UID'' = Some (show_int uid)"
  by (simp_all add: program_env_def display_env_def apply_user_look_def elevated_identity_other Let_def)

text \<open>
  A program is started only on a display that the compositor of the requester's uid
  took over, and it cannot reach the session's: its X display is the one Xwayland named,
  its cookie file the new one, the session's Wayland display and the broker's status
  descriptor are gone from its environment, and for an elevated program the Wine session
  is the requester's.  As another account it never starts as root.
\<close>

theorem elevated_display_own:
  assumes "elevated_start os e cwd dir xout args = Some (as_pw, e', argv, d)"
  shows "\<exists>o1 control prog n. run_main_opts e args = Some (o1, control, prog) \<and>
    (\<exists>p. ru_socket os control = Some p \<and> peer_uid p = Some (word_of_int (ro_uid o1))) \<and>
    0 \<le> n \<and> e' ''DISPLAY'' = Some ('':'' @ show_int n) \<and> e' ''XAUTHORITY'' = Some (snprintf_s 64 (dir @ ''/Xauthority'')) \<and>
    e' ''WAYLAND_DISPLAY'' = None \<and> e' ''SG_ELEVATED_STATUS_FD'' = None \<and>
    (as_pw = None \<longrightarrow> e' ''SG_SESSION_UID'' = Some (show_int (ro_uid o1))) \<and>
    (\<forall>pw. as_pw = Some pw \<longrightarrow> pw_uid pw \<noteq> 0)"
proof -
  obtain o1 control prog where o: "run_main_opts e args = Some (o1, control, prog)"
    using assms by (auto simp: elevated_start_def split: option.splits)
  obtain n where n: "display_number (read_display xout []) = Some n"
    using assms o by (auto simp: elevated_start_def Let_def split: if_splits option.splits)
  have h: "hand_over (ru_socket os) control (word_of_int (ro_uid o1))"
    using assms o by (auto simp: elevated_start_def Let_def split: if_splits)
  have e': "e' = program_env (ru_accounts os) as_pw (ro_uid o1) n (snprintf_s 64 (dir @ ''/Xauthority'')) e" "drops_root as_pw"
    using assms o n by (auto simp: elevated_start_def Let_def split: if_splits)
  show ?thesis
    using o hand_over_peer[OF h] display_number_pos[OF n] e'(2) unfolding e'(1)
    by (intro exI[of _ o1] exI[of _ control] exI[of _ prog] exI[of _ n])
       (auto simp: program_env_display drops_root_def)
qed

definition ex_run_os :: run_os where
  "ex_run_os = \<lparr>ru_accounts = ex_accounts, ru_euid = 990,
     ru_socket = (\<lambda>path. if path = ''/c'' then Some \<lparr>peer_uid = Some 1001, peer_answer = (\<lambda>_. Some (''OK elevated'' @ [LF]))\<rparr> else None),
     ru_random = Some (replicate 16 CHR 0x2A), ru_can_create = True, ru_ls = (\<lambda>_. None), ru_files = (\<lambda>_. None), ru_can_enter = True\<rparr>"

lemma ex_run_start:
  "\<exists>e' argv d. elevated_start ex_run_os Map.empty ''/'' ''/tmp/sg-elevated-1'' [''7'' @ [LF]] [''--control'', ''/c'', ''--uid'', ''1001'', ''--'', ''wine'']
     = Some (None, e', argv, d)"
proof -
  have s: "strtol10 ''1001'' = 1001" using strtol10_uid[of 1001] show_1001 by simp
  have d: "display_number [CHR ''7'', LF] = Some 7"
  proof -
    have "atoi [CHR ''7'', LF] = 7" by code_simp
    then show ?thesis by (simp add: display_number_def isdigit_def cstr_def)
  qed
  show ?thesis
    by (simp add: elevated_start_def run_main_opts_def s d hand_over_def ex_run_os_def write_cookie_def drops_root_def starts_def
        as_account_def Let_def)
qed

theorem elevated_display_own_witness:
  "\<exists>e' argv d. elevated_start ex_run_os Map.empty ''/'' ''/tmp/sg-elevated-1'' [''7'' @ [LF]] [''--control'', ''/c'', ''--uid'', ''1001'', ''--'', ''wine'']
     = Some (None, e', argv, d) \<and> e' ''WAYLAND_DISPLAY'' = None \<and> e' ''XAUTHORITY'' = Some ''/tmp/sg-elevated-1/Xauthority''"
proof -
  obtain e' argv d where s: "elevated_start ex_run_os Map.empty ''/'' ''/tmp/sg-elevated-1'' [''7'' @ [LF]]
      [''--control'', ''/c'', ''--uid'', ''1001'', ''--'', ''wine''] = Some (None, e', argv, d)"
    using ex_run_start by (elim exE)
  from elevated_display_own[OF s] have "e' ''WAYLAND_DISPLAY'' = None" "e' ''XAUTHORITY'' = Some ''/tmp/sg-elevated-1/Xauthority''"
    by (elim exE conjE, simp)+
  with s show ?thesis by (intro exI conjI)
qed

end
