(* ===== verification/Sg_Lock.thy ===== *)
theory Sg_Lock
  imports Sg_Logon
begin

text \<open>
  The lock service, \<open>greeter/sg-lockd.c\<close>: its root monitor (PAM and nothing else), the
  compositor and the search for the session of the seat, the user's lock-screen picture
  and scale, the lock UI's conversation and the service's loop.

  The PAM helper, the compositor, the file system and what the lock UI writes are
  arguments.  What the service does is a list of \<open>lock_effect\<close>s.
\<close>

section \<open>The root monitor\<close>

definition LOCK_MAXFIELD :: nat where "LOCK_MAXFIELD = 512"

type_synonym pam_helper = "bytes \<Rightarrow> (wait_status \<times> bytes) option"

definition lock_pamcheck :: "pam_helper \<Rightarrow> string \<Rightarrow> string \<Rightarrow> bool" where
  "lock_pamcheck helper user pass =
     (case helper (cput user @ cput pass) of
        None \<Rightarrow> False
      | Some (st, out) \<Rightarrow> st = Exited 0 \<and> starts ''OK'' (take 63 out))"

text \<open>A request: the name and the password; \<open>Inl\<close> is the monitor's exit status.\<close>

definition lock_read :: "(nat, bytes \<times> bytes) reader" where
  "lock_read bs =
     or_exit 0 (read_u32 bs) (\<lambda>(ulen, b1).
     or_exit 0 (read_u32 b1) (\<lambda>(plen, b2).
       if unat ulen \<ge> LOCK_MAXFIELD \<or> unat plen \<ge> LOCK_MAXFIELD then Inl 1
       else or_exit 0 (read_full (unat ulen) b2) (\<lambda>(user, b3).
            or_exit 0 (read_full (unat plen) b3) (\<lambda>(pass, b4). Inr ((user, pass), b4)))))"

definition lock_answer :: "pam_helper \<Rightarrow> bytes \<times> bytes \<Rightarrow> bool" where
  "lock_answer helper = (\<lambda>(user, pass). lock_pamcheck helper (cstr user) (cstr pass))"

lemma lock_read_shrinks: "lock_read bs = Inr (r, rest) \<Longrightarrow> length rest < length bs"
  by (auto simp: lock_read_def or_exit_Inr read_full_Some split: if_splits dest!: read_u32_shrinks)

function lock_monitor :: "pam_helper \<Rightarrow> bytes \<Rightarrow> bool list \<times> nat" where
  "lock_monitor helper bs =
     (case lock_read bs of
        Inl e \<Rightarrow> ([], e)
      | Inr (r, rest) \<Rightarrow> (case lock_monitor helper rest of (as, e) \<Rightarrow> (lock_answer helper r # as, e)))"
  by pat_completeness auto
termination by (relation "measure (\<lambda>(helper, bs). length bs)") (auto dest: lock_read_shrinks)

declare lock_monitor.simps [simp del]

text \<open>The client's side; \<open>mon\<close> is the monitor's answer to the bytes written.\<close>

definition lock_enc :: "bytes \<times> bytes \<Rightarrow> bytes" where
  "lock_enc = (\<lambda>(user, pass). le32 (word_of_nat (length user)) @ le32 (word_of_nat (length pass)) @ user @ pass)"

definition lock_check_password :: "(bytes \<Rightarrow> bool option) \<Rightarrow> string \<Rightarrow> string \<Rightarrow> bool" where
  "lock_check_password mon user pass =
     (if unat (word_of_nat (length user) :: u32) \<ge> LOCK_MAXFIELD \<or> unat (word_of_nat (length pass) :: u32) \<ge> LOCK_MAXFIELD
      then False else mon (lock_enc (user, pass)) = Some True)"

definition lock_monitor_reply :: "pam_helper \<Rightarrow> bytes \<Rightarrow> bool option" where
  "lock_monitor_reply helper bs = (case lock_monitor helper bs of (a # _, _) \<Rightarrow> Some a | ([], _) \<Rightarrow> None)"

section \<open>The compositor\<close>

record lock_file =
  lf_uid :: uid_t
  lf_regular :: bool
  lf_size :: int
  lf_bytes :: bytes

record lock_os =
  lk_accounts :: accounts
  lk_getenv :: "string \<Rightarrow> string option"
  lk_monitor :: "bytes \<Rightarrow> bool option"
  lk_socket :: "string \<Rightarrow> peer option"
  lk_ls :: "string \<Rightarrow> string list option"
  lk_file :: "string \<Rightarrow> lock_file option"
  lk_can_stage :: bool
  lk_can_fork :: bool

definition control_connect :: "lock_os \<Rightarrow> string \<Rightarrow> peer option" where
  "control_connect os control = (if length control \<ge> 108 then None else lk_socket os control)"

definition control_command :: "lock_os \<Rightarrow> string \<Rightarrow> string \<Rightarrow> nat \<Rightarrow> string option" where
  "control_command os control cmd sz =
     (case control_connect os control of
        None \<Rightarrow> None
      | Some p \<Rightarrow>
          (case peer_answer p cmd of
             None \<Rightarrow> None
           | Some raw \<Rightarrow> if take (sz - 1) raw = [] then None else Some (cstr (take (sz - 1) raw))))"

text \<open>The session of the seat: its control socket and its privileged one.\<close>

fun find_session_in :: "lock_os \<Rightarrow> string \<Rightarrow> string list \<Rightarrow> (string \<times> string) option" where
  "find_session_in os seat [] = None"
| "find_session_in os seat (name # names) =
     (let control = seat @ ''/'' @ name @ ''/control.sock'';
          priv = seat @ ''/'' @ name @ ''/priv.sock'';
          want = strtol10 name
      in if name = [] \<or> strtol_end name \<noteq> [] \<or> want < 0 \<or> length control \<ge> 256 then find_session_in os seat names
         else case control_connect os control of
           None \<Rightarrow> find_session_in os seat names
         | Some p \<Rightarrow>
             (case peer_uid p of
                Some u \<Rightarrow> if uint u = want \<and> length priv < 256 then Some (control, priv) else find_session_in os seat names
              | None \<Rightarrow> find_session_in os seat names))"

definition find_session :: "lock_os \<Rightarrow> string \<Rightarrow> (string \<times> string) option" where
  "find_session os seat = (case lk_ls os seat of None \<Rightarrow> None | Some names \<Rightarrow> find_session_in os seat names)"

section \<open>The user's picture and scale\<close>

definition SG_LOCKPIC_MAX :: nat where "SG_LOCKPIC_MAX = 33554432"

definition lockpic_dir :: "lock_os \<Rightarrow> string" where
  "lockpic_dir os = (case lk_getenv os ''SG_LOCKSCREEN_DIR'' of
     Some d \<Rightarrow> if d \<noteq> [] then d else ''/var/lib/stained-glass/lockscreen'' | None \<Rightarrow> ''/var/lib/stained-glass/lockscreen'')"

text \<open>The file, if it is regular, of the user's and of an acceptable size.\<close>

definition open_owned :: "lock_os \<Rightarrow> string \<Rightarrow> uid_t \<Rightarrow> nat \<Rightarrow> lock_file option" where
  "open_owned os name uid max_size =
     (let path = lockpic_dir os @ ''/'' @ name
      in if CHR ''/'' \<in> set name \<or> length path \<ge> 1024 then None
         else case lk_file os path of
           None \<Rightarrow> None
         | Some f \<Rightarrow> if \<not> lf_regular f \<or> lf_uid f \<noteq> uid \<or> lf_size f \<le> 0 \<or> lf_size f > int max_size then None else Some f)"

definition is_picture :: "bytes \<Rightarrow> bool" where
  "is_picture h \<longleftrightarrow>
     starts [CHR 0xFF, CHR 0xD8, CHR 0xFF] h
     \<or> starts [CHR 0x89, CHR ''P'', CHR ''N'', CHR ''G'', CR, LF, CHR 0x1A, LF] h
     \<or> starts ''BM'' h \<or> starts ''GIF87a'' h \<or> starts ''GIF89a'' h"

text \<open>Whether the sign-in pane shows the picture, and the bytes of the staged copy, if any.\<close>

definition lockpic_stage :: "lock_os \<Rightarrow> string \<Rightarrow> bool \<times> bytes option" where
  "lockpic_stage os user =
     (case getpwnam (lk_accounts os) user of
        None \<Rightarrow> (True, None)
      | Some pw \<Rightarrow>
          let signin = (case open_owned os (snprintf_s 528 (user @ ''.signin'')) (pw_uid pw) 16 of
                          Some f \<Rightarrow> \<not> starts ''0'' (lf_bytes f) | None \<Rightarrow> True)
          in (signin,
              case open_owned os user (pw_uid pw) SG_LOCKPIC_MAX of
                None \<Rightarrow> None
              | Some f \<Rightarrow>
                  if \<not> lk_can_stage os \<or> lf_bytes f = [] \<or> \<not> is_picture (take 65536 (lf_bytes f))
                     \<or> length (lf_bytes f) > SG_LOCKPIC_MAX
                  then None else Some (lf_bytes f)))"

definition lockscale_read :: "lock_os \<Rightarrow> string \<Rightarrow> int" where
  "lockscale_read os user =
     (case getpwnam (lk_accounts os) user of
        None \<Rightarrow> 0
      | Some pw \<Rightarrow>
          (case open_owned os (snprintf_s 528 (user @ ''.scale'')) (pw_uid pw) 16 of
             None \<Rightarrow> 0
           | Some f \<Rightarrow>
               let b = take 16 (lf_bytes f); v = atoi (cstr b)
               in if b = [] then 0 else if v \<ge> 100 \<and> v \<le> 500 then v else 0))"

section \<open>The lock UI\<close>

record ui_env =
  ue_picture :: "bytes option"
  ue_scale :: "int option"
  ue_signin :: bool
  ue_sas :: bool

text \<open>\<open>LkTell None\<close>: a message that does not fit its buffer.\<close>

datatype lock_effect =
    LkPam string string
  | LkControl string
  | LkTell "bytes option"
  | LkStart ui_env
  | LkStop

text \<open>
  The UI that runs and whether it is the security screen, what it has yet to write, and
  what those started after it will write.
\<close>

record lock =
  lk_ui :: "bool option"
  lk_in :: bytes
  lk_next :: "bytes list"

definition ui_start :: "lock_os \<Rightarrow> string \<Rightarrow> bool \<Rightarrow> lock \<Rightarrow> lock \<times> lock_effect list" where
  "ui_start os user sas st =
     (if \<not> lk_can_fork os then (st\<lparr>lk_ui := None\<rparr>, [])
      else let (signin, pic) = lockpic_stage os user;
               v = lockscale_read os user
      in (\<lparr>lk_ui = Some sas, lk_in = (case lk_next st of [] \<Rightarrow> [] | b # _ \<Rightarrow> b), lk_next = tl (lk_next st)\<rparr>,
          [LkStart \<lparr>ue_picture = pic, ue_scale = (if v \<noteq> 0 then Some v else None), ue_signin = signin, ue_sas = sas\<rparr>]))"

definition ui_stop :: "lock \<Rightarrow> lock \<times> lock_effect list" where
  "ui_stop st = (if lk_ui st = None then (st, []) else (st\<lparr>lk_ui := None\<rparr>, [LkStop]))"

text \<open>\<open>vsnprintf\<close> into 1022 of 1024 bytes; the newline goes after all it would have printed.\<close>

definition ui_send :: "string \<Rightarrow> lock_effect" where
  "ui_send msg = LkTell (if length msg < 1022 then Some (msg @ [LF]) else None)"

fun read_line :: "nat \<Rightarrow> bytes \<Rightarrow> bytes \<Rightarrow> (string \<times> bytes) option" where
  "read_line 0 bs buf = Some (cstr buf, bs)"
| "read_line (Suc n) [] buf = None"
| "read_line (Suc n) (c # bs) buf =
     (if c = LF then Some (cstr buf, bs) else if c = CR then read_line (Suc n) bs buf else read_line n bs (buf @ [c]))"

definition prompt :: "string \<Rightarrow> lock_effect" where
  "prompt user = ui_send (''PROMPT_SECRET Password for '' @ user @ '':'')"

definition UNLOCK :: lock_effect where
  "UNLOCK = LkControl (''UNLOCK'' @ [LF])"

text \<open>One line of the UI: whether the session is unlocked, and what was done.\<close>

definition sas_line :: "string \<Rightarrow> lock_effect list" where
  "sas_line line =
     (if line = ''SAS lock'' then [LkControl (''LOCK'' @ [LF])]
      else if line = ''SAS cancel'' \<or> line = ''SAS taskmgr'' \<or> line = ''SAS signout'' then [LkControl (line @ [LF])]
      else [])"

definition unlocked_reply :: "lock_os \<Rightarrow> string \<Rightarrow> bool" where
  "unlocked_reply os control =
     (case control_command os control (''UNLOCK'' @ [LF]) 64 of Some r \<Rightarrow> starts ''OK unlocked'' r | None \<Rightarrow> False)"

definition ui_line :: "lock_os \<Rightarrow> string \<Rightarrow> string \<Rightarrow> bool \<Rightarrow> string \<Rightarrow> bool \<times> lock_effect list" where
  "ui_line os control user sas line =
     (if sas then (False, sas_line line)
      else if starts ''HELLO'' line then (False, [prompt user])
      else if starts ''REPLY '' line then
        (let pass = drop 6 line
         in if \<not> lock_check_password (lk_monitor os) user pass
            then (False, [LkPam user pass, ui_send ''FAILURE The password is incorrect.'', prompt user])
            else if \<not> unlocked_reply os control
            then (False, [LkPam user pass, UNLOCK, ui_send ''FAILURE The session could not be unlocked.''])
            else (True, [LkPam user pass, UNLOCK, ui_send ''SUCCESS'']))
      else (False, []))"

section \<open>The loop\<close>

text \<open>A line of the compositor's.\<close>

definition watch_line :: "lock_os \<Rightarrow> string \<Rightarrow> string \<Rightarrow> lock \<Rightarrow> lock \<times> lock_effect list" where
  "watch_line os user ev st =
     (if (ev = ''locked'' \<or> ev = ''OK locked'') \<and> lk_ui st \<noteq> Some False then
        (case ui_stop st of (st1, fx1) \<Rightarrow> (case ui_start os user False st1 of (st2, fx2) \<Rightarrow> (st2, fx1 @ fx2)))
      else if ev = ''sas'' \<and> lk_ui st = None then ui_start os user True st
      else if ev = ''unlocked'' \<or> ev = ''OK unlocked'' then ui_stop st
      else (st, []))"

text \<open>The UI can be read: a line of it, or its end.\<close>

definition ui_ready :: "lock_os \<Rightarrow> string \<Rightarrow> string \<Rightarrow> lock \<Rightarrow> lock \<times> lock_effect list" where
  "ui_ready os control user st =
     (case lk_ui st of
        None \<Rightarrow> (st, [])
      | Some sas \<Rightarrow>
          (case read_line (LOCK_MAXFIELD + 15) (lk_in st) [] of
             None \<Rightarrow>
               (case ui_stop st of (st1, fx1) \<Rightarrow> (case ui_start os user sas st1 of (st2, fx2) \<Rightarrow> (st2, fx1 @ fx2)))
           | Some (line, rest) \<Rightarrow>
               (case ui_line os control user sas line of
                  (unlocked, fx) \<Rightarrow>
                    if unlocked then (case ui_stop (st\<lparr>lk_in := rest\<rparr>) of (st1, fx1) \<Rightarrow> (st1, fx @ fx1))
                    else (st\<lparr>lk_in := rest\<rparr>, fx))))"

text \<open>
  One wake-up of \<open>poll\<close>: which of the two can be read (the UI only if there was one).
  \<open>None\<close>: the compositor is gone.
\<close>

definition lock_wake :: "lock_os \<Rightarrow> string \<Rightarrow> string \<Rightarrow> bool \<Rightarrow> bool \<Rightarrow> bytes \<Rightarrow> lock \<Rightarrow> (bytes \<times> lock) option \<times> lock_effect list" where
  "lock_wake os control user watch ui w st =
     (let ui' = (ui \<and> lk_ui st \<noteq> None)
      in case (if watch then read_line 63 w [] else Some ([], w)) of
           None \<Rightarrow> (None, [])
         | Some (ev, w') \<Rightarrow>
             (case (if watch then watch_line os user ev st else (st, [])) of
                (st1, fx1) \<Rightarrow>
                  (case (if ui' then ui_ready os control user st1 else (st1, [])) of
                     (st2, fx2) \<Rightarrow> (Some (w', st2), fx1 @ fx2))))"

text \<open>The inner loop: what is done until the compositor goes or the wake-ups end.\<close>

fun lock_loop :: "lock_os \<Rightarrow> string \<Rightarrow> string \<Rightarrow> (bool \<times> bool) list \<Rightarrow> bytes \<Rightarrow> lock \<Rightarrow> lock_effect list" where
  "lock_loop os control user [] w st = []"
| "lock_loop os control user ((watch, ui) # rest) w st =
     (case lock_wake os control user watch ui w st of
        (None, fx) \<Rightarrow> fx @ snd (ui_stop st)
      | (Some (w', st'), fx) \<Rightarrow> fx @ lock_loop os control user rest w' st')"

text \<open>One session: whose it is comes from the connection to the compositor.\<close>

definition lock_session :: "lock_os \<Rightarrow> string \<Rightarrow> (bool \<times> bool) list \<Rightarrow> bytes \<Rightarrow> bytes list \<Rightarrow> (string \<times> lock_effect list) option" where
  "lock_session os control sched w uis =
     (case control_connect os control of
        None \<Rightarrow> None
      | Some p \<Rightarrow>
          (case peer_uid p of
             None \<Rightarrow> None
           | Some u \<Rightarrow>
               (case getpwuid (lk_accounts os) u of
                  None \<Rightarrow> None
                | Some pw \<Rightarrow>
                    let user = snprintf_s LOCK_MAXFIELD (pw_name pw)
                    in Some (user, lock_loop os control user sched w \<lparr>lk_ui = None, lk_in = [], lk_next = uis\<rparr>))))"

section \<open>The monitor and the service stay in step\<close>

definition lock_req_ok :: "bytes \<times> bytes \<Rightarrow> bool" where
  "lock_req_ok = (\<lambda>(user, pass). length user < LOCK_MAXFIELD \<and> length pass < LOCK_MAXFIELD)"

lemma lock_read_enc: "lock_req_ok r \<Longrightarrow> lock_read (lock_enc r @ rest) = Inr (r, rest)"
  by (cases r) (simp add: lock_req_ok_def lock_enc_def lock_read_def wire_simps LOCK_MAXFIELD_def)

interpretation lock_mon: served lock_enc lock_req_ok lock_read "lock_answer helper" "lock_monitor helper"
  for helper
proof unfold_locales
  fix r rest
  show "lock_req_ok r \<Longrightarrow> lock_read (lock_enc r @ rest) = Inr (r, rest)" by (rule lock_read_enc)
next
  fix bs r rest
  show "lock_read bs = Inr (r, rest) \<Longrightarrow> length rest < length bs" by (rule lock_read_shrinks)
  show "lock_read bs = Inr (r, rest) \<Longrightarrow>
      lock_monitor helper bs = (lock_answer helper r # fst (lock_monitor helper rest), snd (lock_monitor helper rest))"
    by (subst lock_monitor.simps) (simp split: prod.splits)
next
  fix bs e
  show "lock_read bs = Inl e \<Longrightarrow> lock_monitor helper bs = ([], e)" by (subst lock_monitor.simps) simp
qed

lemma lock_monitor_Nil: "lock_monitor helper [] = ([], 0)"
  by (subst lock_monitor.simps) (simp add: lock_read_def read_u32_def read_full_def)

lemma lock_check_password_iff:
  assumes "nul_free user" and "nul_free pass" and "length user < 2 ^ 32" and "length pass < 2 ^ 32"
  shows "lock_check_password (lock_monitor_reply helper) user pass \<longleftrightarrow>
    length user < LOCK_MAXFIELD \<and> length pass < LOCK_MAXFIELD \<and> lock_pamcheck helper user pass"
proof (cases "lock_req_ok (user, pass)")
  case True
  then have "lock_monitor helper (lock_enc (user, pass)) = ([lock_pamcheck helper user pass], 0)"
    using lock_mon.loop_requests[of "[(user, pass)]" helper "[]"] assms(1,2)
    by (simp add: lock_monitor_Nil lock_answer_def cstr_whole)
  then show ?thesis
    using True by (simp add: lock_check_password_def lock_monitor_reply_def lock_req_ok_def wire_simps LOCK_MAXFIELD_def)
next
  case False
  then show ?thesis
    using assms(3,4) by (auto simp: lock_check_password_def lock_req_ok_def wire_simps)
qed

section \<open>Unlocking takes the session user's password\<close>

text \<open>Every UNLOCK comes right after a password of the user's that was accepted.\<close>

definition unlocks_earned :: "lock_os \<Rightarrow> string \<Rightarrow> lock_effect list \<Rightarrow> bool" where
  "unlocks_earned os user fx \<longleftrightarrow> (\<forall>a b. fx = a @ UNLOCK # b \<longrightarrow>
     (\<exists>a' p. a = a' @ [LkPam user p] \<and> lock_check_password (lk_monitor os) user p))"

lemma unlocks_earned_none: "UNLOCK \<notin> set fx \<Longrightarrow> unlocks_earned os user fx"
  by (auto simp: unlocks_earned_def)

lemma unlocks_earned_append:
  assumes "unlocks_earned os user fx" and "unlocks_earned os user gx"
  shows "unlocks_earned os user (fx @ gx)"
  unfolding unlocks_earned_def
proof (intro allI impI)
  fix a b assume "fx @ gx = a @ UNLOCK # b"
  then consider (left) c where "fx = a @ UNLOCK # c" | (right) c where "a = fx @ c" "gx = c @ UNLOCK # b"
    by (auto simp: append_eq_append_conv2 append_eq_Cons_conv)
  then show "\<exists>a' p. a = a' @ [LkPam user p] \<and> lock_check_password (lk_monitor os) user p"
  proof cases
    case left
    then show ?thesis using assms(1) unfolding unlocks_earned_def by blast
  next
    case right
    then obtain a' p where "c = a' @ [LkPam user p]" "lock_check_password (lk_monitor os) user p"
      using assms(2) unfolding unlocks_earned_def by blast
    then show ?thesis using right(1) by (intro exI[of _ "fx @ a'"]) auto
  qed
qed

lemma unlocks_earned_pair:
  "lock_check_password (lk_monitor os) user p \<Longrightarrow> UNLOCK \<notin> set fx \<Longrightarrow> unlocks_earned os user (LkPam user p # UNLOCK # fx)"
  unfolding unlocks_earned_def
proof (intro allI impI)
  fix a b
  assume "lock_check_password (lk_monitor os) user p" "UNLOCK \<notin> set fx" "LkPam user p # UNLOCK # fx = a @ UNLOCK # b"
  then show "\<exists>a' p. a = a' @ [LkPam user p] \<and> lock_check_password (lk_monitor os) user p"
    by (auto simp: Cons_eq_append_conv UNLOCK_def)
qed

lemma not_UNLOCK [simp]: "UNLOCK \<noteq> ui_send m" "UNLOCK \<noteq> prompt user" "UNLOCK \<noteq> LkPam u p" "UNLOCK \<noteq> LkStart e" "UNLOCK \<noteq> LkStop"
  by (simp_all add: UNLOCK_def ui_send_def prompt_def)

lemma sas_line_no_unlock: "UNLOCK \<notin> set (sas_line line)"
  by (auto simp: sas_line_def UNLOCK_def)

lemma ui_line_earned: "unlocks_earned os user (snd (ui_line os control user sas line))"
  using sas_line_no_unlock[of line] unlocks_earned_pair[of os user "drop 6 line"]
  by (simp add: ui_line_def Let_def unlocks_earned_none)

lemma ui_start_no_unlock: "UNLOCK \<notin> set (snd (ui_start os user sas st))"
  by (simp add: ui_start_def Let_def split: prod.split)

lemma ui_stop_no_unlock: "UNLOCK \<notin> set (snd (ui_stop st))"
  by (simp add: ui_stop_def)

lemmas ui_no_unlock = ui_start_no_unlock ui_stop_no_unlock

lemma watch_line_no_unlock: "UNLOCK \<notin> set (snd (watch_line os user ev st))"
  using ui_start_no_unlock[of os user] ui_stop_no_unlock
  by (simp add: watch_line_def split: prod.split) (metis snd_conv)

lemma ui_ready_earned: "unlocks_earned os user (snd (ui_ready os control user st))"
proof (cases "lk_ui st")
  case None
  then show ?thesis by (simp add: ui_ready_def unlocks_earned_none)
next
  case (Some sas)
  note ui = Some
  show ?thesis
  proof (cases "read_line (LOCK_MAXFIELD + 15) (lk_in st) []")
    case None
    obtain st1 fx1 st2 fx2 where s: "ui_stop st = (st1, fx1)" "ui_start os user sas st1 = (st2, fx2)" by fastforce
    then have "UNLOCK \<notin> set (fx1 @ fx2)" using ui_stop_no_unlock[of st] ui_start_no_unlock[of os user sas st1] by simp
    then show ?thesis using unlocks_earned_none by (simp add: ui_ready_def ui None s)
  next
    case (Some lr)
    obtain line rest where lr: "lr = (line, rest)" by fastforce
    obtain u fx where l: "ui_line os control user sas line = (u, fx)" by fastforce
    obtain st1 fx1 where s: "ui_stop (st\<lparr>lk_in := rest\<rparr>) = (st1, fx1)" by fastforce
    have "unlocks_earned os user fx" using ui_line_earned[of os user control sas line] l by simp
    moreover have "unlocks_earned os user fx1"
      using ui_stop_no_unlock[of "st\<lparr>lk_in := rest\<rparr>"] s by (simp add: unlocks_earned_none)
    ultimately show ?thesis using unlocks_earned_append by (simp add: ui_ready_def ui Some lr l s)
  qed
qed

lemma lock_wake_earned: "unlocks_earned os user (snd (lock_wake os control user watch ui w st))"
proof (cases "if watch then read_line 63 w [] else Some ([], w)")
  case None
  then show ?thesis by (simp add: lock_wake_def unlocks_earned_none)
next
  case (Some ew)
  obtain ev w' where ew: "ew = (ev, w')" by fastforce
  obtain st1 fx1 where s1: "(if watch then watch_line os user ev st else (st, [])) = (st1, fx1)" by fastforce
  obtain st2 fx2 where s2: "(if ui \<and> lk_ui st \<noteq> None then ui_ready os control user st1 else (st1, [])) = (st2, fx2)" by fastforce
  have "unlocks_earned os user fx1"
    using s1 watch_line_no_unlock[of os user ev st] by (auto intro!: unlocks_earned_none split: if_splits)
  moreover have "unlocks_earned os user fx2"
    using s2 ui_ready_earned[of os user control st1] by (auto intro!: unlocks_earned_none split: if_splits)
  ultimately show ?thesis
    using unlocks_earned_append by (simp only: lock_wake_def Let_def Some ew option.case prod.case s1 s2 snd_conv)
qed

lemma lock_loop_earned: "unlocks_earned os user (lock_loop os control user sched w st)"
proof (induction sched arbitrary: w st)
  case (Cons r sched)
  obtain watch ui where r: "r = (watch, ui)" by fastforce
  obtain res fx where k: "lock_wake os control user watch ui w st = (res, fx)" by fastforce
  then have "unlocks_earned os user fx" using lock_wake_earned[of os user control watch ui w st] by simp
  moreover have "unlocks_earned os user (snd (ui_stop st))" using ui_stop_no_unlock unlocks_earned_none by blast
  ultimately show ?case using Cons unlocks_earned_append by (simp add: r k split: option.split prod.split)
qed (simp add: unlocks_earned_none)

lemma lock_session_Some:
  assumes "lock_session os control sched w uis = Some (user, fx)"
  obtains p u pw where "lk_socket os control = Some p" and "peer_uid p = Some u" and "getpwuid (lk_accounts os) u = Some pw"
    and "user = snprintf_s LOCK_MAXFIELD (pw_name pw)"
    and "fx = lock_loop os control user sched w \<lparr>lk_ui = None, lk_in = [], lk_next = uis\<rparr>"
proof -
  obtain p u pw where s: "control_connect os control = Some p" "peer_uid p = Some u" "getpwuid (lk_accounts os) u = Some pw"
    using assms by (auto simp: lock_session_def split: option.splits)
  have "lk_socket os control = Some p" using s(1) by (simp add: control_connect_def split: if_splits)
  then show ?thesis by (rule that) (use assms s in \<open>auto simp: lock_session_def Let_def\<close>)
qed

text \<open>
  C4.  The session is unlocked only with its user's password: whatever the lock UI and the
  compositor write, in whatever order they are read, each UNLOCK the service sends comes
  right after a password it had PAM check -- for the account whose uid the kernel gives
  for the compositor, and no other name the UI could choose -- and PAM accepted.
\<close>

theorem unlock_needs_password:
  assumes "lock_session os control sched w uis = Some (user, fx)" and "fx = a @ UNLOCK # b"
  shows "\<exists>p pw u a' pass. lk_socket os control = Some p \<and> peer_uid p = Some u \<and> getpwuid (lk_accounts os) u = Some pw \<and>
    user = snprintf_s LOCK_MAXFIELD (pw_name pw) \<and>
    a = a' @ [LkPam user pass] \<and> lock_check_password (lk_monitor os) user pass"
proof -
  obtain p u pw where s: "lk_socket os control = Some p" "peer_uid p = Some u" "getpwuid (lk_accounts os) u = Some pw"
    "user = snprintf_s LOCK_MAXFIELD (pw_name pw)"
    "fx = lock_loop os control user sched w \<lparr>lk_ui = None, lk_in = [], lk_next = uis\<rparr>"
    by (rule lock_session_Some[OF assms(1)])
  have "unlocks_earned os user fx" unfolding s(5) by (rule lock_loop_earned)
  then obtain a' pass where "a = a' @ [LkPam user pass]" "lock_check_password (lk_monitor os) user pass"
    using assms(2) unfolding unlocks_earned_def by blast
  then show ?thesis using s(1-4) by blast
qed

section \<open>While locked, the lock screen is there\<close>

text \<open>
  The states a session goes through, with whether the machine is locked -- from the
  compositor's event to its next one or to the service's own unlocking -- and what has
  been done so far.
\<close>

inductive lock_reach :: "lock_os \<Rightarrow> string \<Rightarrow> string \<Rightarrow> bool \<Rightarrow> lock \<Rightarrow> lock_effect list \<Rightarrow> bool"
  for os control user where
  start: "lk_ui st = None \<Longrightarrow> lock_reach os control user False st []"
| watch: "lock_reach os control user locked st fx \<Longrightarrow> watch_line os user ev st = (st', gx) \<Longrightarrow>
    lock_reach os control user
      (if ev \<in> {''locked'', ''OK locked''} then True else if ev \<in> {''unlocked'', ''OK unlocked''} then False else locked)
      st' (fx @ gx)"
| ui: "lock_reach os control user locked st fx \<Longrightarrow> ui_ready os control user st = (st', gx) \<Longrightarrow>
    lock_reach os control user (locked \<and> \<not> (UNLOCK \<in> set gx \<and> lk_ui st' = None)) st' (fx @ gx)"

definition running :: "lock \<Rightarrow> nat" where
  "running st = (if lk_ui st = None then 0 else 1)"

definition starts_of :: "lock_effect list \<Rightarrow> nat" where
  "starts_of fx = length (filter (\<lambda>e. case e of LkStart _ \<Rightarrow> True | _ \<Rightarrow> False) fx)"

definition stops_of :: "lock_effect list \<Rightarrow> nat" where
  "stops_of fx = length (filter (\<lambda>e. e = LkStop) fx)"

lemma counts_simps [simp]:
  "starts_of [] = 0" "stops_of [] = 0" "starts_of (fx @ gx) = starts_of fx + starts_of gx" "stops_of (fx @ gx) = stops_of fx + stops_of gx"
  "starts_of (LkStart e # fx) = Suc (starts_of fx)" "stops_of (LkStart e # fx) = stops_of fx"
  "starts_of (LkStop # fx) = starts_of fx" "stops_of (LkStop # fx) = Suc (stops_of fx)"
  by (simp_all add: starts_of_def stops_of_def)

lemma ui_start_counts: "lk_ui st = None \<Longrightarrow> ui_start os user sas st = (st', fx) \<Longrightarrow>
    starts_of fx = running st' \<and> stops_of fx = 0 \<and> (lk_can_fork os \<longrightarrow> lk_ui st' = Some sas)"
  by (auto simp: ui_start_def running_def Let_def split: if_splits prod.splits)

lemma ui_stop_counts: "ui_stop st = (st', fx) \<Longrightarrow> lk_ui st' = None \<and> stops_of fx = running st \<and> starts_of fx = 0"
  by (auto simp: ui_stop_def running_def split: if_splits)

lemma ui_line_counts: "starts_of (snd (ui_line os control user sas line)) = 0 \<and> stops_of (snd (ui_line os control user sas line)) = 0"
  by (auto simp: ui_line_def sas_line_def Let_def starts_of_def stops_of_def prompt_def ui_send_def UNLOCK_def)

lemma watch_line_counts:
  assumes "watch_line os user ev st = (st', fx)"
  shows "starts_of fx + running st = stops_of fx + running st'"
proof -
  obtain st1 fx1 where s: "ui_stop st = (st1, fx1)" by fastforce
  obtain st2 fx2 where t: "ui_start os user False st1 = (st2, fx2)" by fastforce
  obtain st3 fx3 where u: "ui_start os user True st = (st3, fx3)" by fastforce
  note c = ui_stop_counts[OF s] ui_start_counts[OF conjunct1[OF ui_stop_counts[OF s]] t]
  have c3: "lk_ui st = None \<Longrightarrow> starts_of fx3 = running st3 \<and> stops_of fx3 = 0" using ui_start_counts[OF _ u] by simp
  show ?thesis
    using assms c c3 s by (auto simp: watch_line_def t u running_def split: if_splits)
qed

lemma ui_ready_counts:
  assumes "ui_ready os control user st = (st', fx)"
  shows "starts_of fx + running st = stops_of fx + running st'"
proof (cases "lk_ui st")
  case None
  then show ?thesis using assms by (simp add: ui_ready_def)
next
  case (Some sas)
  note ui = Some
  show ?thesis
  proof (cases "read_line (LOCK_MAXFIELD + 15) (lk_in st) []")
    case None
    obtain st1 fx1 where s: "ui_stop st = (st1, fx1)" by fastforce
    obtain st2 fx2 where t: "ui_start os user sas st1 = (st2, fx2)" by fastforce
    have "st' = st2" "fx = fx1 @ fx2" using assms by (simp_all add: ui_ready_def ui None s t)
    then show ?thesis using ui_stop_counts[OF s] ui_start_counts[OF _ t] by simp
  next
    case (Some lr)
    obtain line rest where lr: "lr = (line, rest)" by fastforce
    obtain u fx1 where l: "ui_line os control user sas line = (u, fx1)" by fastforce
    obtain st1 fx2 where s: "ui_stop (st\<lparr>lk_in := rest\<rparr>) = (st1, fx2)" by fastforce
    have z: "starts_of fx1 = 0 \<and> stops_of fx1 = 0" using ui_line_counts[of os control user sas line] l by simp
    have r: "(st', fx) = (if u then (st1, fx1 @ fx2) else (st\<lparr>lk_in := rest\<rparr>, fx1))"
      using assms by (cases u) (simp_all add: ui_ready_def ui Some lr l s)
    show ?thesis using r z ui_stop_counts[OF s] by (auto simp: running_def split: if_splits)
  qed
qed

text \<open>A UI that can be read goes on, is replaced by another of its kind, or has unlocked the session.\<close>

lemma ui_ready_keeps:
  assumes "ui_ready os control user st = (st', fx)" and "lk_can_fork os"
  shows "lk_ui st' = lk_ui st \<or> lk_ui st' = None \<and> UNLOCK \<in> set fx"
proof (cases "lk_ui st")
  case None
  then show ?thesis using assms by (simp add: ui_ready_def)
next
  case (Some sas)
  note ui = Some
  show ?thesis
  proof (cases "read_line (LOCK_MAXFIELD + 15) (lk_in st) []")
    case None
    obtain st1 fx1 where s: "ui_stop st = (st1, fx1)" by fastforce
    obtain st2 fx2 where t: "ui_start os user sas st1 = (st2, fx2)" by fastforce
    have "st' = st2" using assms by (simp add: ui_ready_def ui None s t)
    then show ?thesis using ui_stop_counts[OF s] ui_start_counts[OF _ t] assms(2) ui by simp
  next
    case (Some lr)
    obtain line rest where lr: "lr = (line, rest)" by fastforce
    obtain u fx1 where l: "ui_line os control user sas line = (u, fx1)" by fastforce
    obtain st1 fx2 where s: "ui_stop (st\<lparr>lk_in := rest\<rparr>) = (st1, fx2)" by fastforce
    have r: "(st', fx) = (if u then (st1, fx1 @ fx2) else (st\<lparr>lk_in := rest\<rparr>, fx1))"
      using assms(1) by (cases u) (simp_all add: ui_ready_def ui Some lr l s)
    have "u \<Longrightarrow> UNLOCK \<in> set fx1" using l by (auto simp: ui_line_def Let_def split: if_splits)
    then show ?thesis using r ui_stop_counts[OF s] by (auto split: if_splits)
  qed
qed

text \<open>
  C5.  While the machine is locked the lock screen is there -- and never the security
  screen in its place: whatever the UI does, dying included, it is put back, until the
  compositor says unlocked or the service itself has unlocked.  There is never more than
  one UI, and none is left behind: every one started and not running was stopped.
\<close>

theorem lock_screen_there:
  assumes "lock_reach os control user locked st fx"
  shows "(lk_can_fork os \<longrightarrow> locked \<longrightarrow> lk_ui st = Some False) \<and>
    starts_of fx = stops_of fx + (if lk_ui st = None then 0 else 1)"
proof -
  have "(lk_can_fork os \<longrightarrow> locked \<longrightarrow> lk_ui st = Some False) \<and> starts_of fx = stops_of fx + running st"
    using assms
  proof induction
    case (watch locked st fx ev st' gx)
    obtain st1 fx1 where s: "ui_stop st = (st1, fx1)" by fastforce
    obtain st2 fx2 where t: "ui_start os user False st1 = (st2, fx2)" by fastforce
    have n: "lk_can_fork os \<Longrightarrow> lk_ui st2 = Some False" using ui_stop_counts[OF s] ui_start_counts[OF _ t] by simp
    have "lk_can_fork os \<Longrightarrow> ev \<in> {''locked'', ''OK locked''} \<Longrightarrow> lk_ui st' = Some False"
      using watch.hyps(2) n by (auto simp: watch_line_def s t split: if_splits)
    moreover have "ev \<notin> {''locked'', ''OK locked'', ''unlocked'', ''OK unlocked''} \<Longrightarrow> lk_ui st = Some False \<Longrightarrow> lk_ui st' = Some False"
      using watch.hyps(2) by (auto simp: watch_line_def split: if_splits)
    moreover have "starts_of (fx @ gx) = stops_of (fx @ gx) + running st'"
      using watch_line_counts[OF watch.hyps(2)] watch.IH by simp
    ultimately show ?case using watch.IH by simp
  next
    case (ui locked st fx st' gx)
    have "starts_of (fx @ gx) = stops_of (fx @ gx) + running st'"
      using ui_ready_counts[OF ui.hyps(2)] ui.IH by simp
    moreover have "lk_can_fork os \<Longrightarrow> lk_ui st' = lk_ui st \<or> lk_ui st' = None \<and> UNLOCK \<in> set gx"
      by (rule ui_ready_keeps[OF ui.hyps(2)])
    ultimately show ?case using ui.IH by auto
  qed (simp add: running_def)
  then show ?thesis by (simp add: running_def)
qed

lemma read_line_line:
  "LF \<notin> set l \<Longrightarrow> CR \<notin> set l \<Longrightarrow> length l < n \<Longrightarrow> read_line n (l @ LF # r) buf = Some (cstr (buf @ l), r)"
proof (induction l arbitrary: n buf)
  case Nil
  then show ?case by (cases n) simp_all
next
  case (Cons c l)
  then show ?case by (cases n) auto
qed

definition ex_lock_os :: lock_os where
  "ex_lock_os = \<lparr>lk_accounts = ex_accounts, lk_getenv = (\<lambda>_. None),
     lk_monitor = lock_monitor_reply (\<lambda>inp. if inp = cput ''alice'' @ cput ''pw'' then Some (Exited 0, ''OK'') else Some (Exited 1, [])),
     lk_socket = (\<lambda>path. if path = ''/c'' then Some \<lparr>peer_uid = Some 1001, peer_answer = (\<lambda>_. Some (''OK unlocked'' @ [LF]))\<rparr> else None),
     lk_ls = (\<lambda>_. None), lk_file = (\<lambda>_. None), lk_can_stage = True, lk_can_fork = True\<rparr>"

theorem lock_screen_there_witness:
  "\<exists>st fx. lock_reach ex_lock_os ''/c'' ''alice'' True st fx \<and> lk_ui st = Some False"
proof -
  let ?st0 = "\<lparr>lk_ui = None, lk_in = [], lk_next = []\<rparr>"
  have 0: "lock_reach ex_lock_os ''/c'' ''alice'' False ?st0 []" by (rule lock_reach.start) simp
  obtain st1 fx1 where w: "watch_line ex_lock_os ''alice'' ''locked'' ?st0 = (st1, fx1)" by fastforce
  have r: "lock_reach ex_lock_os ''/c'' ''alice'' True st1 ([] @ fx1)"
    using lock_reach.watch[OF 0 w] by simp
  moreover have "lk_can_fork ex_lock_os" by (simp add: ex_lock_os_def)
  ultimately show ?thesis using lock_screen_there[OF r] by blast
qed

lemma ex_lock_pam: "lock_check_password (lk_monitor ex_lock_os) ''alice'' ''pw''"
proof -
  have "lk_monitor ex_lock_os = lock_monitor_reply (\<lambda>inp. if inp = cput ''alice'' @ cput ''pw'' then Some (Exited 0, ''OK'') else Some (Exited 1, []))"
    by (simp add: ex_lock_os_def)
  then show ?thesis
    using lock_check_password_iff[of "''alice''" "''pw''"] by (simp add: LOCK_MAXFIELD_def lock_pamcheck_def starts_def)
qed

lemma ex_lock_unlocks:
  "\<exists>a b. lock_session ex_lock_os ''/c'' [(True, False), (False, True)] (''locked'' @ [LF]) [''REPLY pw'' @ [LF]] = Some (''alice'', a @ UNLOCK # b)"
proof -
  have conn: "control_connect ex_lock_os ''/c'' = Some \<lparr>peer_uid = Some 1001, peer_answer = (\<lambda>_. Some (''OK unlocked'' @ [LF]))\<rparr>"
    "getpwuid (lk_accounts ex_lock_os) 1001 = Some (ex_account ''alice'' 1001)" "pw_name (ex_account ''alice'' 1001) = ''alice''"
    by (simp_all add: control_connect_def ex_lock_os_def ex_defs)
  have l1: "read_line 63 (''locked'' @ [LF]) [] = Some (''locked'', [])" by (simp add: eval_nat_numeral cstr_def)
  have l2: "read_line (LOCK_MAXFIELD + 15) (''REPLY pw'' @ [LF]) [] = Some (''REPLY pw'', [])"
    using read_line_line[of "''REPLY pw''" "LOCK_MAXFIELD + 15" "[]" "[]"] by (simp add: LOCK_MAXFIELD_def cstr_def)
  have ui: "ui_line ex_lock_os ''/c'' ''alice'' False ''REPLY pw'' = (True, [LkPam ''alice'' ''pw'', UNLOCK, ui_send ''SUCCESS''])"
    using ex_lock_pam by (simp add: ui_line_def starts_def Let_def unlocked_reply_def control_command_def conn(1) cstr_def)
  have "\<exists>e. watch_line ex_lock_os ''alice'' ''locked'' \<lparr>lk_ui = None, lk_in = [], lk_next = [''REPLY pw'' @ [LF]]\<rparr>
      = (\<lparr>lk_ui = Some False, lk_in = ''REPLY pw'' @ [LF], lk_next = []\<rparr>, [LkStart e])"
    by (simp add: watch_line_def ui_stop_def ui_start_def Let_def ex_lock_os_def split: prod.split)
  then obtain e where w: "watch_line ex_lock_os ''alice'' ''locked'' \<lparr>lk_ui = None, lk_in = [], lk_next = [''REPLY pw'' @ [LF]]\<rparr>
      = (\<lparr>lk_ui = Some False, lk_in = ''REPLY pw'' @ [LF], lk_next = []\<rparr>, [LkStart e])" ..
  have "lock_session ex_lock_os ''/c'' [(True, False), (False, True)] (''locked'' @ [LF]) [''REPLY pw'' @ [LF]]
      = Some (''alice'', [LkStart e, LkPam ''alice'' ''pw''] @ UNLOCK # [ui_send ''SUCCESS'', LkStop])"
    using l1 l2 w
    by (simp add: lock_session_def conn lock_wake_def ui_ready_def ui ui_stop_def LOCK_MAXFIELD_def Let_def ex_bool_eq
        del: read_line.simps)
  then show ?thesis by (intro exI)
qed

theorem unlock_needs_password_witness:
  "\<exists>a pass. lock_check_password (lk_monitor ex_lock_os) ''alice'' pass \<and> LkPam ''alice'' pass \<in> set a"
proof -
  obtain a b where s: "lock_session ex_lock_os ''/c'' [(True, False), (False, True)] (''locked'' @ [LF]) [''REPLY pw'' @ [LF]]
      = Some (''alice'', a @ UNLOCK # b)" using ex_lock_unlocks by (elim exE)
  from unlock_needs_password[OF s refl] obtain a' pass where "a = a' @ [LkPam ''alice'' pass]"
    "lock_check_password (lk_monitor ex_lock_os) ''alice'' pass" by (elim exE conjE)
  then show ?thesis by (intro exI[of _ a] exI[of _ pass]) simp
qed

section \<open>What the service trusts\<close>

text \<open>Everything the loop does comes from the UI's lines or from starting and stopping a UI.\<close>

lemma lock_loop_all:
  assumes "\<And>sas line e. e \<in> set (snd (ui_line os control user sas line)) \<Longrightarrow> P e"
    and "\<And>env. P (LkStart env)" and "P LkStop"
  shows "e \<in> set (lock_loop os control user sched w st) \<Longrightarrow> P e"
proof (induction sched arbitrary: w st)
  case (Cons r sched)
  obtain watch ui where r: "r = (watch, ui)" by fastforce
  have start: "e \<in> set (snd (ui_start os user sas s)) \<Longrightarrow> P e" for sas s
    using assms(2) by (auto simp: ui_start_def Let_def split: if_splits prod.splits)
  have stop: "e \<in> set (snd (ui_stop s)) \<Longrightarrow> P e" for s
    using assms(3) by (simp add: ui_stop_def split: if_splits)
  have watch: "e \<in> set (snd (watch_line os user ev s)) \<Longrightarrow> P e" for ev s
    using start stop by (auto simp: watch_line_def split: if_splits prod.splits) (metis snd_conv)+
  have ready: "e \<in> set (snd (ui_ready os control user s)) \<Longrightarrow> P e" for s
    using start stop assms(1)
    by (auto simp: ui_ready_def split: option.splits prod.splits if_splits) (metis snd_conv)+
  obtain res fx where k: "lock_wake os control user watch ui w st = (res, fx)" by fastforce
  have "e \<in> set fx \<Longrightarrow> P e"
    using k watch ready by (auto simp: lock_wake_def Let_def split: option.splits prod.splits if_splits) (metis snd_conv)+
  then show ?case using Cons stop by (auto simp: r k split: option.splits prod.splits)
qed simp

text \<open>
  The lock screen shows no file but the user's own picture: a staged copy is, byte for
  byte, a regular file of the session user's under their name in the drop directory, it
  begins like a JPEG, PNG, BMP or GIF and has at most \<open>SG_LOCKPIC_MAX\<close> bytes even if it
  grew after it was looked at; and a scale is taken only from 100 to 500.
\<close>

theorem lock_picture_own:
  "(case lockpic_stage os user of (_, Some b) \<Rightarrow>
      (\<exists>pw f. getpwnam (lk_accounts os) user = Some pw \<and> lk_file os (lockpic_dir os @ ''/'' @ user) = Some f \<and>
         lf_regular f \<and> lf_uid f = pw_uid pw \<and> b = lf_bytes f \<and> CHR ''/'' \<notin> set user \<and>
         is_picture (take 65536 b) \<and> length b \<le> SG_LOCKPIC_MAX)
    | _ \<Rightarrow> True) \<and>
   lockscale_read os user \<in> {0} \<union> {100..500}"
proof
  show "case lockpic_stage os user of (_, Some b) \<Rightarrow>
      (\<exists>pw f. getpwnam (lk_accounts os) user = Some pw \<and> lk_file os (lockpic_dir os @ ''/'' @ user) = Some f \<and>
         lf_regular f \<and> lf_uid f = pw_uid pw \<and> b = lf_bytes f \<and> CHR ''/'' \<notin> set user \<and>
         is_picture (take 65536 b) \<and> length b \<le> SG_LOCKPIC_MAX)
    | _ \<Rightarrow> True"
    by (auto simp: lockpic_stage_def open_owned_def Let_def split: option.splits if_splits)
  show "lockscale_read os user \<in> {0} \<union> {100..500}"
    by (auto simp: lockscale_read_def Let_def split: option.split)
qed

lemma find_session_in_sound:
  "find_session_in os seat names = Some (control, priv) \<Longrightarrow>
     \<exists>name p u. name \<in> set names \<and> control = seat @ ''/'' @ name @ ''/control.sock'' \<and> priv = seat @ ''/'' @ name @ ''/priv.sock'' \<and>
       lk_socket os control = Some p \<and> peer_uid p = Some u \<and> strtol10 name = uint u"
proof (induction names)
  case (Cons name names)
  show ?case
  proof (cases "find_session_in os seat names = Some (control, priv)")
    case True
    show ?thesis
      using Cons.IH[OF True] by (elim exE conjE) (intro exI conjI, rule list.set_intros(2), assumption+)
  next
    case False
    then show ?thesis
      using Cons.prems by (auto simp: Let_def control_connect_def split: if_splits option.splits)
  qed
qed simp

definition ex_seats_os :: lock_os where
  "ex_seats_os = ex_lock_os\<lparr>lk_ls := (\<lambda>_. Some [''.'', ''1002'', ''1001'']),
     lk_socket := (\<lambda>path. Some \<lparr>peer_uid = Some 1001, peer_answer = (\<lambda>_. None)\<rparr>)\<rparr>"

end
