(* ===== verification/Sg_Rdp.thy ===== *)
theory Sg_Rdp
  imports Sg_Elevated_Run
begin

text \<open>
  The Remote Desktop service, \<open>greeter/sg-rdp-authd.c\<close>: the root monitor (the password
  check, the user's session, the shadowing of a console session, the requests and its
  loop), the unprivileged side's question to it, the connection's life from the
  credential to input, and the translation of pointer input.

  FreeRDP, the PAM helper, the compositors, systemd-run, the broker and the file system
  are arguments; FreeRDP's settings of a connection are the record \<open>rdp_settings\<close>.
\<close>

section \<open>The monitor's sessions\<close>

record rdp_os =
  rd_accounts :: accounts
  rd_groups :: "passwd \<Rightarrow> u32 list option"
  rd_getenv :: "string \<Rightarrow> string option"
  rd_helper :: "bool \<Rightarrow> string \<Rightarrow> bytes \<Rightarrow> (wait_status \<times> bytes) option"
  rd_socket :: "nat \<Rightarrow> string \<Rightarrow> peer option"
  rd_uid :: uid_t
  rd_euid :: uid_t
  rd_can_pair :: bool
  rd_mkdir :: "string \<Rightarrow> uid_t option"
  rd_can_chown :: bool
  rd_run :: "string list \<Rightarrow> int"
  rd_broker :: "string \<Rightarrow> bytes \<Rightarrow> bytes option"

text \<open>Sockets are looked at several times; \<open>rd_socket os t\<close> is what is there at the time \<open>t\<close>.\<close>

definition g_seat_root :: "rdp_os \<Rightarrow> string" where
  "g_seat_root os = (case rd_getenv os ''SG_RDP_SEAT_ROOT'' of Some s \<Rightarrow> s | None \<Rightarrow> ''/run/stained-glass-seat'')"

definition g_broker_sock :: "rdp_os \<Rightarrow> string" where
  "g_broker_sock os = (case rd_getenv os ''SG_RDP_BROKER_SOCK'' of Some s \<Rightarrow> s | None \<Rightarrow> ''/run/stained-glass-broker/broker.sock'')"

definition rdp_admin_group :: "rdp_os \<Rightarrow> string" where
  "rdp_admin_group os = (case rd_getenv os ''SG_ADMIN_GROUP'' of Some s \<Rightarrow> s | None \<Rightarrow> ''sg-admins'')"

datatype session_status =
    SESSION_ATTACHED | SESSION_AT_CONSOLE | SESSION_NOT_ALLOWED | SESSION_FAILED | SESSION_NO_CONSOLE | SESSION_DECLINED

text \<open>The connection a session was given by: to which socket, of whose compositor.\<close>

datatype rdp_session =
    TakenOver string uid_t
  | Reconnected string uid_t
  | Started string uid_t "string list" "string list"
  | Shadowed string uid_t bool

definition monitor_check :: "rdp_os \<Rightarrow> string \<Rightarrow> string \<Rightarrow> string \<Rightarrow> bool \<Rightarrow> bool" where
  "monitor_check os user pass rhost keyring =
     (case rd_helper os keyring rhost (cput user @ cput pass) of
        None \<Rightarrow> False
      | Some (st, out) \<Rightarrow> st = Exited 0 \<and> starts ''OK'' (take 255 out))"

definition connect_session :: "rdp_os \<Rightarrow> nat \<Rightarrow> string \<Rightarrow> uid_t \<Rightarrow> peer option" where
  "connect_session os t path uid =
     (if length path \<ge> 108 then None
      else case rd_socket os t path of
        None \<Rightarrow> None
      | Some p \<Rightarrow> if peer_uid p = Some uid then Some p else None)"

definition user_in_group :: "rdp_os \<Rightarrow> passwd \<Rightarrow> string \<Rightarrow> bool" where
  "user_in_group os pw grp =
     (case getgrnam (rd_accounts os) grp of
        None \<Rightarrow> False
      | Some gr \<Rightarrow>
          pw_gid pw = gr_gid gr
          \<or> (case rd_groups os pw of Some gs \<Rightarrow> gr_gid gr \<in> set gs | None \<Rightarrow> False))"

text \<open>The seat directory of a remote session and the session's own inside it.\<close>

definition make_remote_seat :: "rdp_os \<Rightarrow> passwd \<Rightarrow> (string \<times> string) option" where
  "make_remote_seat os pw =
     (let seat = g_seat_root os @ ''/rdp-'' @ show_u32 (pw_uid pw);
          dir = seat @ ''/'' @ show_u32 (pw_uid pw)
      in if length seat \<ge> 512 \<or> length dir \<ge> 600 then None
         else if rd_mkdir os seat \<noteq> Some (rd_euid os) then None
         else case rd_mkdir os dir of
           None \<Rightarrow> None
         | Some owner \<Rightarrow> if owner \<noteq> pw_uid pw \<and> \<not> rd_can_chown os then None else Some (seat, dir))"

definition take_over_console :: "rdp_os \<Rightarrow> string \<Rightarrow> uid_t \<Rightarrow> bool" where
  "take_over_console os control uid =
     (case connect_session os 0 control uid of
        None \<Rightarrow> False
      | Some p \<Rightarrow> rd_can_pair os \<and>
          (case peer_answer p (''REMOTE'' @ [LF]) of Some r \<Rightarrow> starts ''OK remote '' (take 127 r) | None \<Rightarrow> False))"

section \<open>Shadowing the console session\<close>

definition shadow_request :: "string \<Rightarrow> uid_t \<Rightarrow> bool \<Rightarrow> string list" where
  "shadow_request requester target control =
     [''@shadow'', ''SHADOW_REQUESTER='' @ requester, ''SHADOW_MODE='' @ (if control then ''control'' else ''view''),
      ''SHADOW_UID='' @ show_u32 target, [], ''Remote Desktop'']"

definition ask_console_consent :: "rdp_os \<Rightarrow> string \<Rightarrow> uid_t \<Rightarrow> bool \<Rightarrow> bool" where
  "ask_console_consent os requester target control =
     (let blob = concat (map cput (shadow_request requester target control))
      in if length blob \<ge> 600 then False
         else if length (g_broker_sock os) \<ge> 108 then False
         else case rd_broker os (g_broker_sock os) (le32 (word_of_nat (length blob)) @ blob) of
           Some (v # _) \<Rightarrow> code v = 0
         | _ \<Rightarrow> False)"

definition start_shadow :: "rdp_os \<Rightarrow> string \<Rightarrow> uid_t \<Rightarrow> bool \<Rightarrow> bool" where
  "start_shadow os control uid control_input =
     (case connect_session os 0 control uid of
        None \<Rightarrow> False
      | Some p \<Rightarrow> rd_can_pair os \<and>
          (case peer_answer p (''SHADOW '' @ (if control_input then ''control'' else ''view'') @ [LF]) of
             Some r \<Rightarrow> starts ''OK shadow '' (take 127 r) | None \<Rightarrow> False))"

text \<open>A name in a list separated by commas and spaces.\<close>

definition test_listed :: "rdp_os \<Rightarrow> string \<Rightarrow> string \<Rightarrow> bool" where
  "test_listed os var user =
     (case rd_getenv os var of
        None \<Rightarrow> False
      | Some l \<Rightarrow> user \<in> set (strtok_all {CHR '','', CHR '' ''} l)
                  \<or> user = [] \<and> (starts '','' l \<or> starts '' '' l))"

text \<open>The words of the alternate shell: whether to control, and whose session.\<close>

definition shadow_word :: "string \<Rightarrow> bool \<times> string \<Rightarrow> bool \<times> string" where
  "shadow_word tok = (\<lambda>(control, target).
     if strcaseeq tok ''shadow'' then (control, target)
     else if strcaseeq tok ''/control'' then (True, target)
     else if \<not> starts ''/'' tok \<and> target = [] then (control, tok)
     else (control, target))"

definition shadow_words :: "string \<Rightarrow> string \<Rightarrow> bool \<times> string" where
  "shadow_words user spec =
     (case fold shadow_word (strtok_all {CHR '' '', TAB} (snprintf_s 512 spec)) (False, []) of
        (control, target) \<Rightarrow> (control, if target = [] then snprintf_s 512 user else target))"

text \<open>Whose console session it would be, and whether the requester is an administrator.\<close>

definition shadow_target :: "rdp_os \<Rightarrow> string \<Rightarrow> string \<Rightarrow> session_status + (uid_t \<times> bool)" where
  "shadow_target os user target =
     (if rd_getenv os ''SG_RDP_SESSION_CMD'' \<noteq> None then
        (case getpwuid (rd_accounts os) (rd_uid os) of
           Some tpw \<Rightarrow> if rd_getenv os ''SG_RDP_TEST_CONSOLE_USER'' = Some target
                       then Inr (pw_uid tpw, test_listed os ''SG_RDP_TEST_ADMINS'' user) else Inl SESSION_NO_CONSOLE
         | None \<Rightarrow> Inl SESSION_NO_CONSOLE)
      else case getpwnam (rd_accounts os) user of
        None \<Rightarrow> Inl SESSION_NOT_ALLOWED
      | Some rpw \<Rightarrow>
          if pw_uid rpw = 0 \<or> \<not> user_in_group os rpw ''sgwine'' then Inl SESSION_NOT_ALLOWED
          else (case getpwnam (rd_accounts os) target of
                  None \<Rightarrow> Inl SESSION_NO_CONSOLE
                | Some tpw \<Rightarrow> Inr (pw_uid tpw, user_in_group os rpw (rdp_admin_group os))))"

definition console_socket :: "rdp_os \<Rightarrow> uid_t \<Rightarrow> string" where
  "console_socket os uid = snprintf_s 700 (g_seat_root os @ ''/seat0/'' @ show_u32 uid @ ''/control.sock'')"

definition shadow_for :: "rdp_os \<Rightarrow> string \<Rightarrow> string \<Rightarrow> session_status \<times> rdp_session option" where
  "shadow_for os user spec =
     (case shadow_words user spec of
        (control, target) \<Rightarrow>
          let same = (target = user)
          in case shadow_target os user target of
               Inl status \<Rightarrow> (status, None)
             | Inr (tuid, admin) \<Rightarrow>
                 let console = console_socket os tuid
                 in if \<not> same \<and> \<not> admin then (SESSION_NOT_ALLOWED, None)
                    else if connect_session os 0 console tuid = None then (SESSION_NO_CONSOLE, None)
                    else if \<not> same \<and> \<not> ask_console_consent os user tuid control then (SESSION_DECLINED, None)
                    else if \<not> start_shadow os console tuid control then (SESSION_FAILED, None)
                    else (SESSION_ATTACHED, Some (Shadowed console tuid control)))"

section \<open>The user's remote session\<close>

definition session_dim :: "u32 \<Rightarrow> u32 \<Rightarrow> u32 \<Rightarrow> u32" where
  "session_dim lo dflt d =
     (let d4 = (d div 4) * 4 in if d4 < lo \<or> d4 > 8192 then dflt else d4)"

definition session_args :: "passwd \<Rightarrow> string \<Rightarrow> string \<Rightarrow> string list" where
  "session_args pw seat sz =
     [''/usr/bin/systemd-run'', ''--quiet'', ''--collect'', ''--unit=sg-rdp-session-'' @ show_u32 (pw_uid pw),
      ''--uid='' @ show_u32 (pw_uid pw), ''--property=PAMName=stained-glass-remote'', ''--property=Type=exec'',
      ''--setenv=SG_REMOTE=1'', ''--setenv=SG_SEAT_DIR='' @ seat, ''--setenv=SG_OUTPUT_SIZE='' @ sz,
      ''/usr/bin/sg-session-start'']"

definition lockd_args :: "passwd \<Rightarrow> string \<Rightarrow> string list" where
  "lockd_args pw seat =
     [''/usr/bin/systemd-run'', ''--quiet'', ''--collect'', ''--unit=sg-rdp-lockd-'' @ show_u32 (pw_uid pw),
      ''--property=BindsTo=sg-rdp-session-'' @ show_u32 (pw_uid pw) @ ''.service'',
      ''--property=Restart=always'', ''--property=RestartSec=1'', ''--setenv=SG_SEAT_DIR='' @ seat,
      ''--setenv=SG_LOCKD_LOG=/var/log/stained-glass/lockd-rdp-'' @ show_u32 (pw_uid pw) @ ''.log'',
      ''/usr/libexec/stained-glass/sg-lockd'']"

text \<open>Whose session: in the gate's test the service's own account's, else the user's.\<close>

definition session_account :: "rdp_os \<Rightarrow> string \<Rightarrow> session_status + passwd" where
  "session_account os user =
     (if rd_getenv os ''SG_RDP_SESSION_CMD'' \<noteq> None
      then (case getpwuid (rd_accounts os) (rd_uid os) of Some pw \<Rightarrow> Inr pw | None \<Rightarrow> Inl SESSION_FAILED)
      else case getpwnam (rd_accounts os) user of
        None \<Rightarrow> Inl SESSION_NOT_ALLOWED
      | Some pw \<Rightarrow> if pw_uid pw = 0 \<or> \<not> user_in_group os pw ''sgwine'' then Inl SESSION_NOT_ALLOWED else Inr pw)"

text \<open>A new session: started, then waited for.\<close>

definition start_session :: "rdp_os \<Rightarrow> passwd \<Rightarrow> string \<Rightarrow> string \<Rightarrow> string \<Rightarrow> session_status \<times> rdp_session option" where
  "start_session os pw seat priv sz =
     (let test = (rd_getenv os ''SG_RDP_SESSION_CMD'' \<noteq> None)
      in if \<not> test \<and> rd_run os (session_args pw seat sz) \<noteq> 0 then (SESSION_FAILED, None)
         else if list_ex (\<lambda>i. connect_session os (Suc i) priv (pw_uid pw) \<noteq> None) [0..<600]
         then (SESSION_ATTACHED, Some (Started priv (pw_uid pw) (session_args pw seat sz) (lockd_args pw seat)))
         else (SESSION_FAILED, None))"

definition session_for :: "rdp_os \<Rightarrow> string \<Rightarrow> u32 \<Rightarrow> u32 \<Rightarrow> session_status \<times> rdp_session option" where
  "session_for os user width height =
     (let sz = show_u32 (session_dim 640 1280 width) @ ''x'' @ show_u32 (session_dim 480 800 height)
      in case session_account os user of
           Inl status \<Rightarrow> (status, None)
         | Inr pw \<Rightarrow>
             let console = console_socket os (pw_uid pw)
             in if (rd_getenv os ''SG_RDP_SESSION_CMD'' = None \<or> rd_getenv os ''SG_RDP_CONSOLE_TEST'' \<noteq> None)
                   \<and> connect_session os 0 console (pw_uid pw) \<noteq> None
                then (if take_over_console os console (pw_uid pw)
                      then (SESSION_ATTACHED, Some (TakenOver console (pw_uid pw)))
                      else (SESSION_AT_CONSOLE, None))
                else case make_remote_seat os pw of
                  None \<Rightarrow> (SESSION_FAILED, None)
                | Some (seat, dir) \<Rightarrow>
                    let priv = snprintf_s 700 (dir @ ''/priv.sock'')
                    in if connect_session os 0 priv (pw_uid pw) \<noteq> None
                       then (SESSION_ATTACHED, Some (Reconnected priv (pw_uid pw)))
                       else start_session os pw seat priv sz)"

section \<open>The monitor's loop\<close>

text \<open>\<open>inet_pton\<close>: whether the text is an address.\<close>

definition octet :: "string \<Rightarrow> bool" where
  "octet s \<longleftrightarrow> s \<noteq> [] \<and> length s \<le> 3 \<and> list_all isdigit s \<and> digits_val s \<le> 255 \<and> (length s > 1 \<longrightarrow> hd s \<noteq> CHR ''0'')"

definition inet_pton4 :: "string \<Rightarrow> bool" where
  "inet_pton4 s \<longleftrightarrow> length (split_on CHR ''.'' s) = 4 \<and> list_all octet (split_on CHR ''.'' s)"

definition pton6_end :: "nat \<Rightarrow> bool \<Rightarrow> bool" where
  "pton6_end n dbl = (if dbl then n < 8 else n = 8)"

fun pton6 :: "string \<Rightarrow> string \<Rightarrow> nat \<Rightarrow> nat \<Rightarrow> bool \<Rightarrow> bool" where
  "pton6 [] tok seen n dbl = (if seen > 0 then n < 8 \<and> pton6_end (n + 1) dbl else pton6_end n dbl)"
| "pton6 (c # s) tok seen n dbl =
     (if isxdigit c then (if seen \<ge> 4 then False else pton6 s tok (seen + 1) n dbl)
      else if c = CHR '':'' then
        (if seen = 0 then (if dbl then False else pton6 s s 0 n True)
         else if s = [] \<or> n \<ge> 8 then False else pton6 s s 0 (n + 1) dbl)
      else if c = CHR ''.'' \<and> n + 2 \<le> 8 \<and> inet_pton4 tok then pton6_end (n + 2) dbl
      else False)"

definition inet_pton6 :: "string \<Rightarrow> bool" where
  "inet_pton6 s =
     (if starts '':'' s then (if starts ''::'' s then pton6 (tl s) (tl s) 0 0 False else False)
      else s \<noteq> [] \<and> pton6 s s 0 0 False)"

record rdp_req =
  rq_user :: bytes
  rq_pass :: bytes
  rq_width :: u32
  rq_height :: u32
  rq_rhost :: bytes
  rq_spec :: bytes

definition rdp_read :: "(nat, rdp_req) reader" where
  "rdp_read bs =
     or_exit 0 (read_u32 bs) (\<lambda>(ulen, b1).
     or_exit 0 (read_u32 b1) (\<lambda>(plen, b2).
       if unat ulen \<ge> 512 \<or> unat plen \<ge> 512 then Inl 1
       else or_exit 0 (read_full (unat ulen) b2) (\<lambda>(user, b3).
            or_exit 0 (read_full (unat plen) b3) (\<lambda>(pass, b4).
            or_exit 0 (read_u32 b4) (\<lambda>(w, b5).
            or_exit 0 (read_u32 b5) (\<lambda>(h, b6).
            or_exit 0 (read_u32 b6) (\<lambda>(hlen, b7).
              if unat hlen \<ge> 46 then Inl 1
              else or_exit 0 (read_full (unat hlen) b7) (\<lambda>(rhost, b8).
                   or_exit 0 (read_u32 b8) (\<lambda>(slen, b9).
                     if unat slen \<ge> 512 then Inl 1
                     else or_exit 0 (read_full (unat slen) b9) (\<lambda>(spec, b10).
                       Inr (\<lparr>rq_user = user, rq_pass = pass, rq_width = w, rq_height = h, rq_rhost = rhost, rq_spec = spec\<rparr>,
                            b10)))))))))))"

text \<open>The address given to PAM: never a name to look up.\<close>

definition rhost_arg :: "bytes \<Rightarrow> string" where
  "rhost_arg b = (if inet_pton4 (cstr b) \<or> inet_pton6 (cstr b) then cstr b else [])"

text \<open>The verdict: the password, the status and the session.\<close>

type_synonym verdict = "bool \<times> session_status \<times> rdp_session option"

definition rdp_answer :: "rdp_os \<Rightarrow> rdp_req \<Rightarrow> verdict" where
  "rdp_answer os r =
     (let user = cstr (rq_user r); spec = cstr (rq_spec r)
      in if \<not> monitor_check os user (cstr (rq_pass r)) (rhost_arg (rq_rhost r)) False then (False, SESSION_FAILED, None)
         else case (if spec \<noteq> [] then shadow_for os user spec else session_for os user (rq_width r) (rq_height r)) of
           (status, session) \<Rightarrow> (True, status, session))"

lemma rdp_read_shrinks: "rdp_read bs = Inr (r, rest) \<Longrightarrow> length rest < length bs"
  by (auto simp: rdp_read_def or_exit_Inr read_full_Some split: if_splits dest!: read_u32_shrinks)

function rdp_monitor :: "rdp_os \<Rightarrow> bytes \<Rightarrow> verdict list \<times> nat" where
  "rdp_monitor os bs =
     (case rdp_read bs of
        Inl e \<Rightarrow> ([], e)
      | Inr (r, rest) \<Rightarrow> (case rdp_monitor os rest of (as, e) \<Rightarrow> (rdp_answer os r # as, e)))"
  by pat_completeness auto
termination by (relation "measure (\<lambda>(os, bs). length bs)") (auto dest: rdp_read_shrinks)

declare rdp_monitor.simps [simp del]

section \<open>The unprivileged side\<close>

definition rdp_enc :: "rdp_req \<Rightarrow> bytes" where
  "rdp_enc r = le32 (word_of_nat (length (rq_user r))) @ le32 (word_of_nat (length (rq_pass r))) @ rq_user r @ rq_pass r
     @ le32 (rq_width r) @ le32 (rq_height r) @ le32 (word_of_nat (length (rq_rhost r))) @ rq_rhost r
     @ le32 (word_of_nat (length (rq_spec r))) @ rq_spec r"

definition ask_monitor :: "(bytes \<Rightarrow> verdict option) \<Rightarrow> string \<Rightarrow> string \<Rightarrow> string option \<Rightarrow> u32 \<Rightarrow> u32 \<Rightarrow> string \<Rightarrow> verdict" where
  "ask_monitor mon user pass rhost width height spec =
     (let h = (case rhost of Some s \<Rightarrow> if length s \<ge> 46 then [] else s | None \<Rightarrow> [])
      in if length user \<ge> 512 \<or> length pass \<ge> 512 \<or> length spec \<ge> 512 then (False, SESSION_FAILED, None)
         else case mon (rdp_enc \<lparr>rq_user = user, rq_pass = pass, rq_width = width, rq_height = height, rq_rhost = h, rq_spec = spec\<rparr>) of
           None \<Rightarrow> (False, SESSION_FAILED, None)
         | Some (ok, status, session) \<Rightarrow> (ok, status, if ok then session else None))"

record rdp_settings =
  rs_autologon :: bool
  rs_user :: "string option"
  rs_domain :: "string option"
  rs_pass :: "string option"
  rs_shell :: "string option"
  rs_width :: u32
  rs_height :: u32
  rs_hostname :: string

text \<open>The alternate shell, if it asks for the console session.\<close>

definition shell_spec :: "string option \<Rightarrow> string" where
  "shell_spec shell =
     (case shell of
        None \<Rightarrow> []
      | Some s \<Rightarrow>
          if strcaseeq (take 6 s) ''shadow'' \<and> (drop 6 s = [] \<or> hd (drop 6 s) = CHR '' '') \<and> length s < 512
             \<and> list_all (\<lambda>c. code c \<ge> 32 \<and> code c \<noteq> 127) s
          then s else [])"

text \<open>\<open>stream_ok\<close>: whether the session's frames could be connected (sg_stream_new).\<close>

definition authenticate :: "(bytes \<Rightarrow> verdict option) \<Rightarrow> (rdp_session \<Rightarrow> bool) \<Rightarrow> rdp_settings \<Rightarrow> rdp_session option" where
  "authenticate mon stream_ok s =
     (case (rs_user s, rs_pass s) of
        (Some user, Some pass) \<Rightarrow>
          if \<not> rs_autologon s \<or> user = [] then None
          else if (case rs_domain s of Some d \<Rightarrow> d \<noteq> [] \<and> d \<noteq> ''.'' | None \<Rightarrow> False) then None
          else (case ask_monitor mon user pass (Some (rs_hostname s)) (rs_width s) (rs_height s) (shell_spec (rs_shell s)) of
                  (True, _, Some session) \<Rightarrow> if stream_ok session then Some session else None
                | _ \<Rightarrow> None)
      | _ \<Rightarrow> None)"

record rdp_ctx =
  cx_authenticated :: bool
  cx_activated :: bool
  cx_stream :: "rdp_session option"

text \<open>PostConnect: TRUE lets the connection go on.\<close>

definition on_post_connect :: "(bytes \<Rightarrow> verdict option) \<Rightarrow> (rdp_session \<Rightarrow> bool) \<Rightarrow> bool \<Rightarrow> rdp_settings \<Rightarrow> rdp_ctx
    \<Rightarrow> bool \<times> rdp_ctx" where
  "on_post_connect mon stream_ok can_event s cx =
     (case authenticate mon stream_ok s of
        None \<Rightarrow> (False, cx\<lparr>cx_authenticated := False\<rparr>)
      | Some session \<Rightarrow> (can_event, cx\<lparr>cx_authenticated := True, cx_stream := Some session\<rparr>))"

definition on_activate :: "rdp_ctx \<Rightarrow> bool \<times> rdp_ctx" where
  "on_activate cx = (if cx_authenticated cx \<and> cx_stream cx \<noteq> None then (True, cx\<lparr>cx_activated := True\<rparr>) else (False, cx))"

text \<open>The session the client's input goes to.\<close>

definition input_stream :: "rdp_ctx \<Rightarrow> rdp_session option" where
  "input_stream cx = (if cx_authenticated cx \<and> cx_activated cx then cx_stream cx else None)"

section \<open>Input\<close>

datatype rdp_input =
    Key u32 bool
  | Unicode "16 word"
  | Wheel bool int
  | Motion "16 word" "16 word"
  | Button string bool

text \<open>\<open>vk\<close> and \<open>evdev\<close> are WinPR's tables of virtual keys and of key codes.\<close>

definition on_key :: "(u32 \<Rightarrow> u32) \<Rightarrow> (u32 \<Rightarrow> u32) \<Rightarrow> 16 word \<Rightarrow> u8 \<Rightarrow> rdp_input list" where
  "on_key vk evdev flags scan =
     (let ext = bit flags 8;
          ext_bit = (if ext then 0x100 else 0) :: u32
      in [Key (evdev (or (vk (or (ucast scan) ext_bit)) ext_bit)) (\<not> bit flags 15)])"

definition on_unicode :: "16 word \<Rightarrow> 16 word \<Rightarrow> rdp_input list" where
  "on_unicode flags c = (if bit flags 15 then [] else [Unicode c])"

text \<open>C's division rounds towards zero.\<close>

definition c_div :: "int \<Rightarrow> int \<Rightarrow> int" where
  "c_div a b = (if a < 0 then - ((- a) div b) else a div b)"

definition wheel_rotation :: "16 word \<Rightarrow> int" where
  "wheel_rotation flags = uint (and flags 0x01FF) - (if bit flags 8 then 0x200 else 0)"

definition wheel_steps :: "16 word \<Rightarrow> int" where
  "wheel_steps flags =
     (let rot = wheel_rotation flags
      in if c_div rot 120 \<noteq> 0 then c_div rot 120 else if rot > 0 then 1 else - 1)"

definition on_mouse :: "16 word \<Rightarrow> 16 word \<Rightarrow> 16 word \<Rightarrow> rdp_input list" where
  "on_mouse flags x y =
     (let down = bit flags 15; horizontal = bit flags 10
      in if bit flags 9 \<or> horizontal
         then [Wheel horizontal (if horizontal then wheel_steps flags else - wheel_steps flags)]
         else [Motion x y] @ (if bit flags 12 then [Button ''BTN_LEFT'' down] else [])
              @ (if bit flags 13 then [Button ''BTN_RIGHT'' down] else [])
              @ (if bit flags 14 then [Button ''BTN_MIDDLE'' down] else []))"

definition on_xmouse :: "16 word \<Rightarrow> 16 word \<Rightarrow> 16 word \<Rightarrow> rdp_input list" where
  "on_xmouse flags x y =
     [Motion x y] @ (if bit flags 0 then [Button ''BTN_SIDE'' (bit flags 15)] else [])
     @ (if bit flags 1 then [Button ''BTN_EXTRA'' (bit flags 15)] else [])"

section \<open>The two sides stay in step\<close>

definition rdp_req_ok :: "rdp_req \<Rightarrow> bool" where
  "rdp_req_ok r \<longleftrightarrow> length (rq_user r) < 512 \<and> length (rq_pass r) < 512 \<and> length (rq_rhost r) < 46 \<and> length (rq_spec r) < 512"

lemma rdp_read_enc: "rdp_req_ok r \<Longrightarrow> rdp_read (rdp_enc r @ rest) = Inr (r, rest)"
  by (simp add: rdp_req_ok_def rdp_enc_def rdp_read_def wire_simps)

interpretation rdp_mon: served rdp_enc rdp_req_ok rdp_read "rdp_answer os" "rdp_monitor os"
  for os
proof unfold_locales
  fix r rest
  show "rdp_req_ok r \<Longrightarrow> rdp_read (rdp_enc r @ rest) = Inr (r, rest)" by (rule rdp_read_enc)
next
  fix bs r rest
  show "rdp_read bs = Inr (r, rest) \<Longrightarrow> length rest < length bs" by (rule rdp_read_shrinks)
  show "rdp_read bs = Inr (r, rest) \<Longrightarrow>
      rdp_monitor os bs = (rdp_answer os r # fst (rdp_monitor os rest), snd (rdp_monitor os rest))"
    by (subst rdp_monitor.simps) (simp split: prod.splits)
next
  fix bs e
  show "rdp_read bs = Inl e \<Longrightarrow> rdp_monitor os bs = ([], e)" by (subst rdp_monitor.simps) simp
qed

lemma rdp_monitor_Nil: "rdp_monitor os [] = ([], 0)"
  by (subst rdp_monitor.simps) (simp add: rdp_read_def read_u32_def read_full_def)

text \<open>The monitor's answer to what is written for one connection.\<close>

definition rdp_reply :: "rdp_os \<Rightarrow> bytes \<Rightarrow> verdict option" where
  "rdp_reply os bs = (case rdp_monitor os bs of (a # _, _) \<Rightarrow> Some a | ([], _) \<Rightarrow> None)"

lemma rdp_reply_enc: "rdp_req_ok r \<Longrightarrow> rdp_reply os (rdp_enc r) = Some (rdp_answer os r)"
  using rdp_mon.loop_requests[of "[r]" os "[]"] by (simp add: rdp_reply_def rdp_monitor_Nil)

section \<open>A session only for its user\<close>

fun session_uid :: "rdp_session \<Rightarrow> uid_t" where
  "session_uid (TakenOver _ u) = u"
| "session_uid (Reconnected _ u) = u"
| "session_uid (Started _ u _ _) = u"
| "session_uid (Shadowed _ u _) = u"

fun session_socket :: "rdp_session \<Rightarrow> string" where
  "session_socket (TakenOver p _) = p"
| "session_socket (Reconnected p _) = p"
| "session_socket (Started p _ _ _) = p"
| "session_socket (Shadowed p _ _) = p"

text \<open>A session served, by the kernel's word, by the uid it is said to be of.\<close>

definition served_by_uid :: "rdp_os \<Rightarrow> rdp_session \<Rightarrow> bool" where
  "served_by_uid os s \<longleftrightarrow> (\<exists>t p. rd_socket os t (session_socket s) = Some p \<and> peer_uid p = Some (session_uid s))"

lemma connect_session_peer: "connect_session os t path uid = Some p \<Longrightarrow> rd_socket os t path = Some p \<and> peer_uid p = Some uid"
  by (auto simp: connect_session_def split: if_splits option.splits)

lemma connect_session_served: "connect_session os t (session_socket s) (session_uid s) \<noteq> None \<Longrightarrow> served_by_uid os s"
  using connect_session_peer unfolding served_by_uid_def by fastforce

lemma session_account_own:
  "session_account os user = Inr pw \<Longrightarrow> rd_getenv os ''SG_RDP_SESSION_CMD'' = None \<Longrightarrow>
     getpwnam (rd_accounts os) user = Some pw \<and> pw_uid pw \<noteq> 0 \<and> user_in_group os pw ''sgwine''"
  by (auto simp: session_account_def split: option.splits if_splits)

lemma start_session_sound:
  assumes "start_session os pw seat priv sz = (st, Some s)"
  shows "st = SESSION_ATTACHED \<and> session_uid s = pw_uid pw \<and> served_by_uid os s"
proof -
  have ex: "list_ex (\<lambda>i. connect_session os (Suc i) priv (pw_uid pw) \<noteq> None) [0..<600]"
    and s: "st = SESSION_ATTACHED" "s = Started priv (pw_uid pw) (session_args pw seat sz) (lockd_args pw seat)"
    using assms by (auto simp: start_session_def Let_def split: if_splits)
  obtain i where "connect_session os (Suc i) (session_socket s) (session_uid s) \<noteq> None"
    using ex unfolding list_ex_iff s(2) session_socket.simps session_uid.simps by blast
  then show ?thesis using connect_session_served s by simp
qed

lemma session_for_sound:
  assumes "session_for os user w h = (st, Some s)" and "rd_getenv os ''SG_RDP_SESSION_CMD'' = None"
  obtains pw where "st = SESSION_ATTACHED" and "getpwnam (rd_accounts os) user = Some pw" and "pw_uid pw \<noteq> 0"
    and "user_in_group os pw ''sgwine''" and "session_uid s = pw_uid pw" and "served_by_uid os s"
    and "\<forall>c u b. s \<noteq> Shadowed c u b"
proof -
  obtain pw where a: "session_account os user = Inr pw"
    using assms(1) by (auto simp: session_for_def split: sum.splits)
  note own = session_account_own[OF a assms(2)]
  let ?console = "console_socket os (pw_uid pw)"
  show ?thesis
  proof (cases "connect_session os 0 ?console (pw_uid pw) \<noteq> None")
    case True
    then have "st = SESSION_ATTACHED" "s = TakenOver ?console (pw_uid pw)"
      using assms a by (auto simp: session_for_def Let_def split: if_splits)
    then show ?thesis using that[of pw] own True connect_session_served[of os 0 s] by simp
  next
    case False
    obtain seat dir where m: "make_remote_seat os pw = Some (seat, dir)"
      using assms a False by (auto simp: session_for_def Let_def split: option.splits)
    let ?priv = "snprintf_s 700 (dir @ ''/priv.sock'')"
    show ?thesis
    proof (cases "connect_session os 0 ?priv (pw_uid pw) \<noteq> None")
      case True
      then have "st = SESSION_ATTACHED" "s = Reconnected ?priv (pw_uid pw)"
        using assms a False m by (auto simp: session_for_def Let_def)
      then show ?thesis using that[of pw] own True connect_session_served[of os 0 s] by simp
    next
      case no: False
      then obtain sz where st: "start_session os pw seat ?priv sz = (st, Some s)"
        using assms a False m by (auto simp: session_for_def Let_def)
      have "\<forall>c u b. s \<noteq> Shadowed c u b" using st by (auto simp: start_session_def Let_def split: if_splits)
      then show ?thesis using that[of pw] own start_session_sound[OF st] by simp
    qed
  qed
qed

lemma shadow_for_sound:
  assumes "shadow_for os user spec = (st, Some s)" and "rd_getenv os ''SG_RDP_SESSION_CMD'' = None"
  obtains pw console tuid control where "st = SESSION_ATTACHED" and "getpwnam (rd_accounts os) user = Some pw" and "pw_uid pw \<noteq> 0"
    and "user_in_group os pw ''sgwine''" and "s = Shadowed console tuid control" and "served_by_uid os s"
    and "tuid = pw_uid pw \<or> user_in_group os pw (rdp_admin_group os) \<and> ask_console_consent os user tuid control"
proof -
  obtain control target where w: "shadow_words user spec = (control, target)" by fastforce
  obtain tuid admin where t: "shadow_target os user target = Inr (tuid, admin)"
    using assms(1) w by (auto simp: shadow_for_def Let_def split: sum.splits)
  obtain pw tpw where p: "getpwnam (rd_accounts os) user = Some pw" "pw_uid pw \<noteq> 0" "user_in_group os pw ''sgwine''"
    "getpwnam (rd_accounts os) target = Some tpw" "tuid = pw_uid tpw" "admin = user_in_group os pw (rdp_admin_group os)"
    using t assms(2) by (auto simp: shadow_target_def split: option.splits if_splits)
  have s: "st = SESSION_ATTACHED" "s = Shadowed (console_socket os tuid) tuid control"
    "connect_session os 0 (console_socket os tuid) tuid \<noteq> None"
    "target = user \<or> admin \<and> ask_console_consent os user tuid control"
    using assms(1) w t by (auto simp: shadow_for_def Let_def split: if_splits)
  have "served_by_uid os s" using s(2,3) connect_session_served[of os 0 s] by simp
  moreover have "tuid = pw_uid pw \<or> user_in_group os pw (rdp_admin_group os) \<and> ask_console_consent os user tuid control"
    using s(4) p by auto
  ultimately show ?thesis using that[OF s(1) p(1-3) s(2)] by blast
qed

lemma rdp_answer_sound:
  assumes "rdp_answer os r = (ok, st, Some s)" and "rd_getenv os ''SG_RDP_SESSION_CMD'' = None"
  shows "ok \<and> monitor_check os (cstr (rq_user r)) (cstr (rq_pass r)) (rhost_arg (rq_rhost r)) False \<and>
    (\<exists>pw. getpwnam (rd_accounts os) (cstr (rq_user r)) = Some pw \<and> pw_uid pw \<noteq> 0 \<and> user_in_group os pw ''sgwine'' \<and>
      (session_uid s = pw_uid pw \<or>
       (\<exists>console control. s = Shadowed console (session_uid s) control \<and> user_in_group os pw (rdp_admin_group os) \<and>
          ask_console_consent os (cstr (rq_user r)) (session_uid s) control))) \<and>
    served_by_uid os s"
proof -
  have c: "monitor_check os (cstr (rq_user r)) (cstr (rq_pass r)) (rhost_arg (rq_rhost r)) False" "ok"
    using assms(1) by (auto simp: rdp_answer_def Let_def split: if_splits prod.splits)
  show ?thesis
  proof (cases "cstr (rq_spec r) = []")
    case True
    then have "session_for os (cstr (rq_user r)) (rq_width r) (rq_height r) = (st, Some s)"
      using assms(1) c by (auto simp: rdp_answer_def Let_def split: prod.splits)
    then show ?thesis using session_for_sound[OF _ assms(2)] c by metis
  next
    case False
    then have "shadow_for os (cstr (rq_user r)) (cstr (rq_spec r)) = (st, Some s)"
      using assms(1) c by (auto simp: rdp_answer_def Let_def split: prod.splits)
    then obtain pw console tuid control where "getpwnam (rd_accounts os) (cstr (rq_user r)) = Some pw" "pw_uid pw \<noteq> 0"
      "user_in_group os pw ''sgwine''" "s = Shadowed console tuid control" "served_by_uid os s"
      "tuid = pw_uid pw \<or> user_in_group os pw (rdp_admin_group os) \<and> ask_console_consent os (cstr (rq_user r)) tuid control"
      using shadow_for_sound[OF _ assms(2)] by metis
    then show ?thesis using c by (intro conjI exI[of _ pw]) auto
  qed
qed

section \<open>Input only after the password\<close>

definition settings_ok :: "rdp_settings \<Rightarrow> bool" where
  "settings_ok s \<longleftrightarrow> (\<forall>x\<in>set_option (rs_user s) \<union> set_option (rs_pass s). nul_free x)"

text \<open>
  The states of a connection, with the settings its client has presented: FreeRDP may call
  the hooks in any order and with any settings.
\<close>

inductive rdp_reach :: "(bytes \<Rightarrow> verdict option) \<Rightarrow> (rdp_session \<Rightarrow> bool) \<Rightarrow> rdp_settings list \<Rightarrow> rdp_ctx \<Rightarrow> bool"
  for mon stream_ok where
  new: "rdp_reach mon stream_ok [] \<lparr>cx_authenticated = False, cx_activated = False, cx_stream = None\<rparr>"
| connected: "rdp_reach mon stream_ok ss cx \<Longrightarrow> settings_ok s \<Longrightarrow>
    rdp_reach mon stream_ok (s # ss) (snd (on_post_connect mon stream_ok can_event s cx))"
| activated: "rdp_reach mon stream_ok ss cx \<Longrightarrow> rdp_reach mon stream_ok ss (snd (on_activate cx))"

lemma ask_monitor_reply:
  assumes "ask_monitor (rdp_reply os) user pass rhost w h spec = (True, st, Some s)"
  shows "\<exists>r ok st'. rdp_answer os r = (ok, st', Some s) \<and> rq_user r = user \<and> rq_pass r = pass"
proof -
  define hst where "hst = (case rhost of Some s \<Rightarrow> if length s \<ge> 46 then [] else s | None \<Rightarrow> [])"
  define r where "r = \<lparr>rq_user = user, rq_pass = pass, rq_width = w, rq_height = h, rq_rhost = hst, rq_spec = spec\<rparr>"
  have len: "\<not> (length user \<ge> 512 \<or> length pass \<ge> 512 \<or> length spec \<ge> 512)"
    using assms by (auto simp: ask_monitor_def Let_def split: if_splits)
  then have "rdp_req_ok r" by (auto simp: rdp_req_ok_def r_def hst_def split: option.splits)
  then have "rdp_reply os (rdp_enc r) = Some (rdp_answer os r)" by (rule rdp_reply_enc)
  then have "\<exists>ok st'. rdp_answer os r = (ok, st', Some s)"
    using assms len unfolding ask_monitor_def Let_def hst_def[symmetric] r_def[symmetric]
    by (auto split: prod.splits if_splits)
  then show ?thesis by (intro exI[of _ r]) (simp add: r_def)
qed

lemma authenticate_earned:
  assumes "authenticate (rdp_reply os) stream_ok s = Some session" and "settings_ok s"
  shows "\<exists>user pass r ok st. rs_user s = Some user \<and> rs_pass s = Some pass \<and> (rs_domain s = None \<or> rs_domain s = Some [] \<or> rs_domain s = Some ''.'') \<and>
    rdp_answer os r = (ok, st, Some session) \<and> cstr (rq_user r) = user \<and> cstr (rq_pass r) = pass"
proof -
  obtain user pass st where a: "rs_user s = Some user" "rs_pass s = Some pass"
    "ask_monitor (rdp_reply os) user pass (Some (rs_hostname s)) (rs_width s) (rs_height s) (shell_spec (rs_shell s)) = (True, st, Some session)"
    and d: "\<not> (case rs_domain s of Some d \<Rightarrow> d \<noteq> [] \<and> d \<noteq> ''.'' | None \<Rightarrow> False)"
    using assms(1) by (auto simp: authenticate_def split: option.splits if_splits prod.splits bool.splits)
  obtain r ok st' where "rdp_answer os r = (ok, st', Some session)" "rq_user r = user" "rq_pass r = pass"
    using ask_monitor_reply[OF a(3)] by blast
  moreover have "nul_free user" "nul_free pass" using assms(2) a by (simp_all add: settings_ok_def)
  ultimately show ?thesis using a(1,2) d cstr_whole by (intro exI[of _ user] exI[of _ pass] exI[of _ r]) (auto split: option.splits)
qed

text \<open>
  C20.  No client reaches a session without its user's password: in every state of a
  connection, whatever FreeRDP calls and in whatever order, input goes somewhere only
  after PAM accepted a name and password of this connection; the session is that of the
  named account -- a Stained Glass user, not root -- served by a compositor of its uid;
  or it is another user's console session, and then the named account is an
  administrator and the person at the console said yes.
\<close>

theorem rdp_input_authenticated:
  assumes "rdp_reach (rdp_reply os) stream_ok ss cx" and "input_stream cx = Some session"
    and "rd_getenv os ''SG_RDP_SESSION_CMD'' = None"
  shows "\<exists>s user pass rhost pw. s \<in> set ss \<and> rs_user s = Some user \<and> rs_pass s = Some pass \<and>
    monitor_check os user pass rhost False \<and>
    getpwnam (rd_accounts os) user = Some pw \<and> pw_uid pw \<noteq> 0 \<and> user_in_group os pw ''sgwine'' \<and> served_by_uid os session \<and>
    (session_uid session = pw_uid pw \<or>
     (\<exists>console control. session = Shadowed console (session_uid session) control \<and>
        user_in_group os pw (rdp_admin_group os) \<and> ask_console_consent os user (session_uid session) control))"
proof -
  define earned where "earned = (\<lambda>(ss :: rdp_settings list) session. \<exists>s\<in>set ss. \<exists>r ok st. rs_user s = Some (cstr (rq_user r)) \<and>
    rs_pass s = Some (cstr (rq_pass r)) \<and> rdp_answer os r = (ok, st, Some session))"
  have "\<forall>session. cx_stream cx = Some session \<longrightarrow> earned ss session"
    using assms(1)
  proof induction
    case (connected ss cx s can_event)
    have more: "earned ss x \<Longrightarrow> earned (s # ss) x" for x by (auto simp: earned_def)
    show ?case
    proof (cases "authenticate (rdp_reply os) stream_ok s")
      case None
      then show ?thesis using connected.IH more by (simp add: on_post_connect_def)
    next
      case (Some x)
      obtain user pass r ok st where a: "rs_user s = Some user" "rs_pass s = Some pass" "rdp_answer os r = (ok, st, Some x)"
        "cstr (rq_user r) = user" "cstr (rq_pass r) = pass"
        using authenticate_earned[OF Some connected.hyps(2)] by (elim exE conjE) (rule that)
      then have "rs_user s = Some (cstr (rq_user r)) \<and> rs_pass s = Some (cstr (rq_pass r)) \<and> rdp_answer os r = (ok, st, Some x)" by simp
      then have "earned (s # ss) x" unfolding earned_def by (intro bexI[of _ s] exI[of _ r] exI[of _ ok] exI[of _ st]) simp_all
      then show ?thesis by (simp add: on_post_connect_def Some)
    qed
  qed (simp_all add: on_activate_def)
  moreover have "cx_stream cx = Some session" using assms(2) by (simp add: input_stream_def split: if_splits)
  ultimately obtain s r ok st where r: "s \<in> set ss" "rs_user s = Some (cstr (rq_user r))" "rs_pass s = Some (cstr (rq_pass r))"
    "rdp_answer os r = (ok, st, Some session)" unfolding earned_def by blast
  show ?thesis using r(1-3) rdp_answer_sound[OF r(4) assms(3)] by (elim conjE exE) (intro exI conjI, assumption+)
qed

section \<open>An example\<close>

text \<open>alice, in the group sgwine, signed in at the console; the compositor hands the session over.\<close>

definition ex_rdp_os :: rdp_os where
  "ex_rdp_os = \<lparr>rd_accounts = ex_accounts\<lparr>getgrnam := (\<lambda>g. Some \<lparr>gr_gid = 1001, gr_mem = []\<rparr>)\<rparr>, rd_groups = (\<lambda>_. None), rd_getenv = (\<lambda>_. None),
     rd_helper = (\<lambda>_ _ inp. if inp = cput ''alice'' @ cput ''pw'' then Some (Exited 0, ''OK'') else Some (Exited 1, [])),
     rd_socket = (\<lambda>_ _. Some \<lparr>peer_uid = Some 1001, peer_answer = (\<lambda>_. Some ''OK remote 1'')\<rparr>),
     rd_uid = 0, rd_euid = 0, rd_can_pair = True, rd_mkdir = (\<lambda>_. None), rd_can_chown = False, rd_run = (\<lambda>_. 1),
     rd_broker = (\<lambda>_ _. None)\<rparr>"

definition ex_rdp_settings :: rdp_settings where
  "ex_rdp_settings = \<lparr>rs_autologon = True, rs_user = Some ''alice'', rs_domain = None, rs_pass = Some ''pw'', rs_shell = None,
     rs_width = 1920, rs_height = 1080, rs_hostname = ''192.0.2.1''\<rparr>"

definition ex_rdp_req :: rdp_req where
  "ex_rdp_req = \<lparr>rq_user = ''alice'', rq_pass = ''pw'', rq_width = 1920, rq_height = 1080, rq_rhost = ''192.0.2.1'', rq_spec = []\<rparr>"

lemma ex_console: "console_socket ex_rdp_os 1001 = ''/run/stained-glass-seat/seat0/1001/control.sock''"
  by (simp add: console_socket_def g_seat_root_def ex_rdp_os_def show_1001 snprintf_s_def)

lemma ex_rdp_answer:
  "rdp_answer ex_rdp_os ex_rdp_req = (True, SESSION_ATTACHED, Some (TakenOver ''/run/stained-glass-seat/seat0/1001/control.sock'' 1001))"
proof -
  have acc: "session_account ex_rdp_os ''alice'' = Inr (ex_account ''alice'' 1001)" "pw_uid (ex_account ''alice'' 1001) = 1001"
    by (simp_all add: session_account_def ex_rdp_os_def user_in_group_def ex_defs)
  have conn: "connect_session ex_rdp_os 0 ''/run/stained-glass-seat/seat0/1001/control.sock'' 1001
      = Some \<lparr>peer_uid = Some 1001, peer_answer = (\<lambda>_. Some ''OK remote 1'')\<rparr>"
    by (simp add: connect_session_def ex_rdp_os_def)
  have env: "rd_getenv ex_rdp_os n = None" "rd_can_pair ex_rdp_os" for n by (simp_all add: ex_rdp_os_def)
  have take: "take_over_console ex_rdp_os ''/run/stained-glass-seat/seat0/1001/control.sock'' 1001"
    by (simp add: take_over_console_def conn env starts_def)
  have "session_for ex_rdp_os ''alice'' 1920 1080 = (SESSION_ATTACHED, Some (TakenOver ''/run/stained-glass-seat/seat0/1001/control.sock'' 1001))"
    by (simp add: session_for_def acc env ex_console conn take Let_def)
  moreover have "monitor_check ex_rdp_os ''alice'' ''pw'' h False" for h
    by (simp add: monitor_check_def ex_rdp_os_def starts_def)
  ultimately show ?thesis by (simp add: rdp_answer_def ex_rdp_req_def cstr_def Let_def)
qed

lemma ex_rdp_authenticated:
  "authenticate (rdp_reply ex_rdp_os) (\<lambda>_. True) ex_rdp_settings = Some (TakenOver ''/run/stained-glass-seat/seat0/1001/control.sock'' 1001)"
proof -
  have "rdp_req_ok ex_rdp_req" by (simp add: rdp_req_ok_def ex_rdp_req_def)
  from rdp_reply_enc[OF this, of ex_rdp_os] have "rdp_reply ex_rdp_os (rdp_enc ex_rdp_req) =
      Some (True, SESSION_ATTACHED, Some (TakenOver ''/run/stained-glass-seat/seat0/1001/control.sock'' 1001))"
    by (simp only: ex_rdp_answer)
  then show ?thesis
    by (simp add: authenticate_def ex_rdp_settings_def shell_spec_def ask_monitor_def ex_rdp_req_def[symmetric])
qed

theorem rdp_input_authenticated_witness:
  "\<exists>cx session. rdp_reach (rdp_reply ex_rdp_os) (\<lambda>_. True) [ex_rdp_settings] cx \<and> input_stream cx = Some session \<and> served_by_uid ex_rdp_os session"
proof -
  let ?mon = "rdp_reply ex_rdp_os"
  let ?cx0 = "\<lparr>cx_authenticated = False, cx_activated = False, cx_stream = None\<rparr>"
  let ?s = "TakenOver ''/run/stained-glass-seat/seat0/1001/control.sock'' 1001"
  have "settings_ok ex_rdp_settings" by (simp add: settings_ok_def ex_rdp_settings_def)
  from rdp_reach.connected[OF rdp_reach.new this, of ?mon "\<lambda>_. True" True]
  have "rdp_reach ?mon (\<lambda>_. True) [ex_rdp_settings] \<lparr>cx_authenticated = True, cx_activated = False, cx_stream = Some ?s\<rparr>"
    by (simp add: on_post_connect_def ex_rdp_authenticated)
  from rdp_reach.activated[OF this]
  have r: "rdp_reach ?mon (\<lambda>_. True) [ex_rdp_settings] \<lparr>cx_authenticated = True, cx_activated = True, cx_stream = Some ?s\<rparr>"
    by (simp add: on_activate_def)
  have i: "input_stream \<lparr>cx_authenticated = True, cx_activated = True, cx_stream = Some ?s\<rparr> = Some ?s" by (simp add: input_stream_def)
  have e: "rd_getenv ex_rdp_os ''SG_RDP_SESSION_CMD'' = None" by (simp add: ex_rdp_os_def)
  from rdp_input_authenticated[OF r i e] have "served_by_uid ex_rdp_os ?s" by (elim exE conjE)
  with r i show ?thesis by (intro exI conjI)
qed

section \<open>The question at the console\<close>

lemma shadow_request_env:
  "env_value ''SHADOW_REQUESTER='' [''SHADOW_REQUESTER='' @ w, ''SHADOW_MODE='' @ m, ''SHADOW_UID='' @ u] = Some w"
  "env_value ''SHADOW_MODE='' [''SHADOW_REQUESTER='' @ w, ''SHADOW_MODE='' @ m, ''SHADOW_UID='' @ u] = Some m"
  "env_value ''SHADOW_UID='' [''SHADOW_REQUESTER='' @ w, ''SHADOW_MODE='' @ m, ''SHADOW_UID='' @ u] = Some u"
  by (simp_all add: env_value_def starts_def)

lemma shadow_request_served:
  assumes "getpwuid (bo_accounts bos) 0 = Some root" and "nul_free requester"
    and "length (concat (map cput (shadow_request requester target control))) < 600"
  shows "serve_conn cfg bos now inp 0 pid 0 (le32 (word_of_nat (length (concat (map cput (shadow_request requester target control)))))
      @ concat (map cput (shadow_request requester target control))) st
    = (st, handle_shadow cfg bos now inp 0 root [''SHADOW_REQUESTER='' @ requester,
        ''SHADOW_MODE='' @ (if control then ''control'' else ''view''), ''SHADOW_UID='' @ show_u32 target])"
proof -
  define envp where "envp = [''SHADOW_REQUESTER='' @ requester,
        ''SHADOW_MODE='' @ (if control then ''control'' else ''view''), ''SHADOW_UID='' @ show_u32 target]"
  define blob where "blob = concat (map cput (shadow_request requester target control))"
  have ss: "shadow_request requester target control = ''@shadow'' # envp @ [[]] @ [''Remote Desktop'']"
    by (simp add: shadow_request_def envp_def)
  have "\<forall>e\<in>set envp. nul_free e \<and> e \<noteq> []" using assms(2) by (simp add: envp_def)
  then have "parse_request blob = \<lparr>rq_cwd = ''@shadow'', rq_envp = take 63 envp, rq_argv = take 255 [''Remote Desktop'']\<rparr>"
    unfolding blob_def ss by (intro parse_request_written) simp_all
  moreover have "take 63 envp = envp" by (simp add: envp_def)
  moreover have "read_blob 0 (le32 (word_of_nat (length blob)) @ blob) = Some (blob, False)"
    using read_blob_written[of blob "shadow_request requester target control" 0 "[]"] assms(3)
    by (simp add: blob_def MAXBLOB_def shadow_request_def)
  ultimately show ?thesis
    using assms(1) unfolding blob_def[symmetric] envp_def[symmetric] by (simp add: serve_conn_def serve_request_def)
qed

lemma handle_shadow_byte: "\<exists>c. answer (handle_shadow cfg bos now inp uid root envp) = [c]"
  by (auto simp: handle_shadow_def Let_def answer_quiet split: option.split prod.split dest!: obtain_shadow_consent_quiet)

lemma char_of_of_char_nat: "char_of (of_char v :: nat) = v"
  by simp

text \<open>
  C21.  Another user's console session is shadowed only with that person's word, end to end:
  when the Remote Desktop monitor takes the broker's answer as yes, and the broker is
  \<open>sg-brokerd\<close>'s model asked by root, then the compositor of the very uid whose
  session is to be shadowed was in its secure mode and the prompt there answered ALLOW in
  time; the requester shown was a plain name and the target never root.
\<close>

theorem shadow_consent_end_to_end:
  assumes "ask_console_consent os requester target control"
    and "\<forall>bs. rd_broker os (g_broker_sock os) bs = Some (answer (snd (serve_conn cfg bos now inp 0 pid 0 bs st)))"
    and "getpwuid (bo_accounts bos) 0 = Some root" and "nul_free requester"
    and "bo_getenv bos ''SG_BROKER_TEST'' = None"
  shows "plain_name requester \<and> target \<noteq> 0 \<and> shadow_agreed bos now inp target"
proof -
  define envp where "envp = [''SHADOW_REQUESTER='' @ requester,
        ''SHADOW_MODE='' @ (if control then ''control'' else ''view''), ''SHADOW_UID='' @ show_u32 target]"
  have len: "length (concat (map cput (shadow_request requester target control))) < 600"
    using assms(1) by (auto simp: ask_console_consent_def Let_def split: if_splits)
  let ?a = "answer (handle_shadow cfg bos now inp 0 root envp)"
  have "\<exists>v r. ?a = v # r \<and> code v = 0"
    using assms(1) shadow_request_served[OF assms(3,4) len, of cfg now inp pid st]
    unfolding ask_console_consent_def spec[OF assms(2)] envp_def by (auto simp: Let_def split: if_splits list.splits)
  then obtain v r where v: "?a = v # r" "code v = 0" by blast
  obtain c where "?a = [c]" using handle_shadow_byte by blast
  moreover have "v = char_of (0 :: nat)" using v(2) char_of_of_char_nat[of v] by simp
  ultimately have "?a = [char_of (0 :: nat)]" using v(1) by simp
  note s = handle_shadow_sound[OF this assms(5)]
  have u: "strtol10 (show_u32 target) = uint target" by (rule strtol10_uid)
  from s obtain who mode t where t: "plain_name who" "who = requester" "t = show_u32 target" "strtol10 t > 0"
    "shadow_agreed bos now inp (word_of_int (strtol10 t))"
    unfolding envp_def shadow_request_env option.inject by (elim conjE exE) (rule that; (assumption | erule sym))
  have "plain_name requester" "uint target > 0" "shadow_agreed bos now inp (word_of_int (uint target))"
    using t(1,4,5) unfolding t(2) t(3) u by (simp_all only:)
  then show ?thesis by auto
qed

text \<open>An example: the console's user says yes to bob.\<close>

definition ex_shadow_os :: rdp_os where
  "ex_shadow_os = ex_rdp_os\<lparr>rd_broker :=
     (\<lambda>_ bs. Some (answer (snd (serve_conn default_cfg ex_seat_os 100 ex_yes 0 7 0 bs ex_start))))\<rparr>"

lemma ex_shadow_yes:
  "answer (handle_shadow default_cfg ex_seat_os 100 ex_yes 0 (ex_account ''root'' 0)
     [''SHADOW_REQUESTER=bob'', ''SHADOW_MODE=view'', ''SHADOW_UID=1001'']) = [char_of (0 :: nat)]"
proof -
  have "\<exists>fx. obtain_shadow_consent default_cfg ex_seat_os 100 ex_yes ''bob'' 1001 ''view'' = (True, fx)"
    using ex_surface_found[of True] ex_surface_secure
    by (simp add: obtain_shadow_consent_def ex_no_test Let_def ex_yes_line env_timeout_def ex_ui_starts)
  then obtain fx where oc: "obtain_shadow_consent default_cfg ex_seat_os 100 ex_yes ''bob'' 1001 ''view'' = (True, fx)" ..
  show ?thesis
    using answer_quiet[OF obtain_shadow_consent_quiet[OF oc]] shadow_request_env[of "''bob''" "''view''" "''1001''"] ex_shadow_values(4,5)
    by (simp add: handle_shadow_def shadow_allowed_def oc)
qed

theorem shadow_consent_end_to_end_witness:
  "ask_console_consent ex_shadow_os ''bob'' 1001 False \<and> shadow_agreed ex_seat_os 100 ex_yes 1001"
proof -
  have root: "getpwuid (bo_accounts ex_seat_os) 0 = Some (ex_account ''root'' 0)"
    by (simp add: ex_seat_os_def ex_broker_os_def ex_defs)
  let ?env = "[''SHADOW_REQUESTER=bob'', ''SHADOW_MODE=view'', ''SHADOW_UID=1001'']"
  have env: "[''SHADOW_REQUESTER='' @ ''bob'', ''SHADOW_MODE='' @ (if False then ''control'' else ''view''), ''SHADOW_UID='' @ show_u32 1001]
      = ?env" by (simp add: show_1001)
  have nf: "nul_free ''bob''" by simp
  have len: "length (concat (map cput (shadow_request ''bob'' 1001 False))) < 600"
    by (simp add: shadow_request_def cput_def show_1001)
  note served = shadow_request_served[OF root nf len, of default_cfg 100 ex_yes 7 ex_start, unfolded env]
  have sock: "length (g_broker_sock ex_shadow_os) < 108"
    by (simp add: g_broker_sock_def ex_shadow_os_def ex_rdp_os_def)
  have broker: "\<forall>bs. rd_broker ex_shadow_os (g_broker_sock ex_shadow_os) bs
      = Some (answer (snd (serve_conn default_cfg ex_seat_os 100 ex_yes 0 7 0 bs ex_start)))"
    by (simp add: ex_shadow_os_def)
  have "ask_console_consent ex_shadow_os ''bob'' 1001 False"
    unfolding ask_console_consent_def Let_def spec[OF broker] served snd_conv ex_shadow_yes
    using len sock by (simp only: not_le[symmetric] if_False list.case option.case of_char_of)
  with shadow_consent_end_to_end[OF this broker root nf ex_no_test] show ?thesis by simp
qed

section \<open>The wheel\<close>

lemma wheel_rotation_range: "- 256 \<le> wheel_rotation flags" "wheel_rotation flags \<le> 255"
proof -
  have m: "(0x01FF :: 16 word) = mask 9" by (simp add: mask_eq_exp_minus_1)
  have u: "uint (and flags 0x01FF) = uint flags mod 512"
    unfolding m take_bit_eq_mask[symmetric] unsigned_take_bit_eq by (simp only: take_bit_eq_mod) simp
  have "bit flags 8 = bit (uint flags) 8" by (simp add: bit_uint_iff)
  then have b: "bit flags 8 = odd (uint flags div 256)" by (simp only: bit_iff_odd) simp
  show "- 256 \<le> wheel_rotation flags" "wheel_rotation flags \<le> 255"
    using zmod_zmult2_eq[of 2 "uint flags" 256] pos_mod_bound[of 256 "uint flags"] pos_mod_sign[of 256 "uint flags"]
    unfolding wheel_rotation_def u b odd_iff_mod_2_eq_one by (simp_all split: if_splits) linarith+
qed

end
