(* ===== verification/Sg_Monad.thy ===== *)
theory Sg_Monad
  imports Sg_Prelude "HOL-Library.State_Monad"
begin

text \<open>
  Programs of the state monad.  Where a daemon is a sequence of calls with early returns,
  it is modelled in the library's state monad; what holds of it is a triple of a
  precondition, the program and a postcondition on its result and final state, composed
  along the program by the rules below.
\<close>

definition triple :: "('s \<Rightarrow> bool) \<Rightarrow> ('s, 'a) state \<Rightarrow> ('a \<Rightarrow> 's \<Rightarrow> bool) \<Rightarrow> bool" where
  "triple P m Q \<longleftrightarrow> (\<forall>s a s'. P s \<longrightarrow> run_state m s = (a, s') \<longrightarrow> Q a s')"

lemma tripleI: "(\<And>s. P s \<Longrightarrow> case run_state m s of (a, s') \<Rightarrow> Q a s') \<Longrightarrow> triple P m Q"
  unfolding triple_def by fastforce

lemma tripleD: "triple P m Q \<Longrightarrow> P s \<Longrightarrow> run_state m s = (a, s') \<Longrightarrow> Q a s'"
  by (auto simp: triple_def)

lemma triple_return: "(\<And>s. P s \<Longrightarrow> Q x s) \<Longrightarrow> triple P (State_Monad.return x) Q"
  by (auto simp: triple_def)

lemma triple_bind: "triple P m R \<Longrightarrow> (\<And>a. triple (R a) (f a) Q) \<Longrightarrow> triple P (m \<bind> f) Q"
  by (auto simp: triple_def split: prod.splits)

lemma triple_pre: "triple P' m Q \<Longrightarrow> (\<And>s. P s \<Longrightarrow> P' s) \<Longrightarrow> triple P m Q"
  by (auto simp: triple_def)

lemma triple_post: "triple P m Q' \<Longrightarrow> (\<And>a s. Q' a s \<Longrightarrow> Q a s) \<Longrightarrow> triple P m Q"
  by (auto simp: triple_def)

lemma triple_if: "triple P m Q \<Longrightarrow> triple P n Q \<Longrightarrow> triple P (if c then m else n) Q"
  by simp

lemma triple_ex: "(\<And>x. triple (P x) m Q) \<Longrightarrow> triple (\<lambda>s. \<exists>x. P x s) m Q"
  by (auto simp: triple_def)

lemma triple_fact: "(F \<Longrightarrow> triple P m Q) \<Longrightarrow> triple (\<lambda>s. P s \<and> F) m Q"
  by (auto simp: triple_def)

end
