(* ===== verification/Sg_Greet.thy ===== *)
theory Sg_Greet
  imports Sg_Elevate Sg_Monad
begin

text \<open>
  The login bridge (\<open>src/greeter/sg-greet-bridge.c\<close>) between the Windows login screen
  and greetd: the JSON it writes and reads by hand, the exchange with greetd, the lines
  of the greeter, the last user's file and the live session's sign-in.

  The bridge is a program of the state monad over \<open>bridge\<close>: the bytes greetd is going to
  send, the message read ahead, the last user's file and a log of what was sent, received
  and shown, the newest first.  greetd and the greeter are their byte streams, any at all.
  \<open>gb_junk\<close> is what an uninitialised buffer holds.
\<close>

datatype bridge_event =
    Send string
  | Recv "string option"
  | Ui string
  | UiOverrun
  | Remembered string

record bridge =
  br_in :: bytes
  br_pending :: "string option"
  br_sent :: nat
  br_greeter :: bool
  br_user :: string
  br_last :: "bytes option"
  br_log :: "bridge_event list"

record bridge_os =
  gb_getenv :: "string \<Rightarrow> string option"
  gb_accounts :: accounts
  gb_cmdline :: "bytes option"
  gb_connects :: bool
  gb_can_fork :: bool
  gb_sends :: "nat \<Rightarrow> bool"
  gb_can_write :: bool
  gb_junk :: "string \<Rightarrow> string"

section \<open>JSON\<close>

definition json_esc :: "char \<Rightarrow> string" where
  "json_esc c =
     (if c = DQ then [BSL, DQ] else if c = BSL then [BSL, BSL]
      else if c = LF then BSL # ''n'' else if c = CR then BSL # ''r'' else if c = TAB then BSL # ''t''
      else if code c < 32 then BSL # CHR ''u'' # hex_n 4 (code c) else [c])"

fun json_escape_from :: "nat \<Rightarrow> nat \<Rightarrow> string \<Rightarrow> string" where
  "json_escape_from mx p [] = []"
| "json_escape_from mx p (c # s) =
     (if p + 7 < mx then json_esc c @ json_escape_from mx (p + length (json_esc c)) s else [])"

definition json_escape :: "nat \<Rightarrow> string \<Rightarrow> string" where
  "json_escape mx s = json_escape_from mx 0 s"

definition json_unesc :: "char \<Rightarrow> char" where
  "json_unesc c = (if c = CHR ''n'' then LF else if c = CHR ''r'' then CR else if c = CHR ''t'' then TAB else c)"

fun json_value :: "nat \<Rightarrow> string \<Rightarrow> string" where
  "json_value 0 s = []"
| "json_value (Suc n) [] = []"
| "json_value (Suc n) (c # s) =
     (if c = DQ then []
      else if c = BSL \<and> s \<noteq> [] then json_unesc (hd s) # json_value n (tl s)
      else c # json_value n s)"

text \<open>The result, and the buffer after the call: as it was when nothing is found.\<close>

definition json_string :: "string \<Rightarrow> string \<Rightarrow> nat \<Rightarrow> string \<Rightarrow> bool \<times> string" where
  "json_string json key mx out =
     (let pat = snprintf_s 64 (DQ # key @ [DQ])
      in case strstr json pat of
           None \<Rightarrow> (False, out)
         | Some p \<Rightarrow>
             (case dropWhile (\<lambda>c. c = CHR '' '' \<or> c = CHR '':'') (drop (length pat) p) of
                [] \<Rightarrow> (False, out)
              | c # r \<Rightarrow> if c = DQ then (True, json_value (mx - 1) r) else (False, out)))"

definition json_field :: "string \<Rightarrow> string \<Rightarrow> string" where
  "json_field k v = DQ # k @ [DQ, CHR '':'', DQ] @ v @ [DQ]"

definition create_json :: "nat \<Rightarrow> string \<Rightarrow> string" where
  "create_json sz esc =
     snprintf_s sz (''{'' @ json_field ''type'' ''create_session'' @ '','' @ json_field ''username'' esc @ ''}'')"

definition reply_json :: "nat \<Rightarrow> string \<Rightarrow> string" where
  "reply_json sz esc =
     snprintf_s sz (''{'' @ json_field ''type'' ''post_auth_message_response'' @ '','' @ json_field ''response'' esc @ ''}'')"

definition start_json :: "string \<Rightarrow> string" where
  "start_json esc =
     snprintf_s 2048 (''{'' @ json_field ''type'' ''start_session'' @ '','' @ (DQ # ''cmd'') @ [DQ] @ '':['' @ (DQ # esc) @ [DQ]
       @ ''],'' @ (DQ # ''env'') @ [DQ] @ '':[]}'')"

definition cancel_json :: string where
  "cancel_json = ''{'' @ json_field ''type'' ''cancel_session'' @ ''}''"

section \<open>The last user\<close>

definition last_user_file :: "bridge_os \<Rightarrow> string" where
  "last_user_file os =
     (case gb_getenv os ''SG_GREETER_LAST_USER'' of
        Some f \<Rightarrow> if f \<noteq> [] then f else ''/var/lib/sg-greeter/last-user''
      | None \<Rightarrow> ''/var/lib/sg-greeter/last-user'')"

definition remember_user :: "bridge_os \<Rightarrow> string \<Rightarrow> (bridge, unit) state" where
  "remember_user os user = State (\<lambda>b. ((),
     if user = [] \<or> \<not> gb_can_write os then b
     else b\<lparr>br_last := Some (user @ [LF]), br_log := Remembered user # br_log b\<rparr>))"

definition last_user :: "bridge_os \<Rightarrow> bridge \<Rightarrow> string" where
  "last_user os b =
     (case br_last b of
        None \<Rightarrow> []
      | Some f \<Rightarrow>
          let out = before (cstr (fst (fgets 256 f))) {LF}
          in if BSL \<in> set out then out
             else case getpwnam (gb_accounts os) out of
                    Some pw \<Rightarrow> if pw_uid pw < 1000 then [] else out
                  | None \<Rightarrow> [])"

section \<open>greetd and the greeter\<close>

definition greetd_send :: "bridge_os \<Rightarrow> string \<Rightarrow> (bridge, bool) state" where
  "greetd_send os json = State (\<lambda>b. (gb_sends os (br_sent b),
     b\<lparr>br_sent := br_sent b + 1, br_log := (if gb_sends os (br_sent b) then Send json # br_log b else br_log b)\<rparr>))"

definition greetd_frame :: "bytes \<Rightarrow> string option \<times> bytes" where
  "greetd_frame bs =
     (case read_u32 bs of
        None \<Rightarrow> (None, [])
      | Some (len, rest) \<Rightarrow>
          if unat len > 2 ^ 20 then (None, rest)
          else case read_full (unat len) rest of
                 None \<Rightarrow> (None, [])
               | Some (m, rest') \<Rightarrow> (Some (cstr m), rest'))"

definition greetd_recv :: "(bridge, string option) state" where
  "greetd_recv = State (\<lambda>b.
     case br_pending b of
       Some m \<Rightarrow> (Some m, b\<lparr>br_pending := None\<rparr>)
     | None \<Rightarrow> (case greetd_frame (br_in b) of (m, rest) \<Rightarrow> (m, b\<lparr>br_in := rest, br_log := Recv m # br_log b\<rparr>)))"

definition to_ui :: "string \<Rightarrow> (bridge, unit) state" where
  "to_ui s = State (\<lambda>b. ((),
     if \<not> br_greeter b then b
     else b\<lparr>br_log := (if length s < 2046 then Ui s else UiOverrun) # br_log b\<rparr>))"

fun from_ui_max :: "nat \<Rightarrow> bytes \<Rightarrow> (bytes \<times> bytes) option" where
  "from_ui_max n [] = (if n = 0 then Some ([], []) else None)"
| "from_ui_max n (c # bs) =
     (if n = 0 then Some ([], c # bs)
      else if c = LF then Some ([], bs)
      else if c = CR then from_ui_max n bs
      else case from_ui_max (n - 1) bs of None \<Rightarrow> None | Some (l, r) \<Rightarrow> Some (c # l, r))"

definition from_ui :: "bytes \<Rightarrow> (string \<times> bytes) option" where
  "from_ui bs = (case from_ui_max 2047 bs of None \<Rightarrow> None | Some (l, r) \<Rightarrow> Some (cstr l, r))"

section \<open>The exchange\<close>

definition pam_words :: "(string \<times> string) list" where
  "pam_words =
     [(''AUTH_ERR'', ''The user name or password is incorrect. Try again.''),
      (''USER_UNKNOWN'', ''The user name or password is incorrect. Try again.''),
      (''PERM_DENIED'', ''The user name or password is incorrect. Try again.''),
      (''MAXTRIES'', ''Too many attempts. Wait a moment, then try again.''),
      (''ACCT_EXPIRED'', ''Your account has expired. Ask your administrator.''),
      (''NEW_AUTHTOK_REQD'', ''Your password must be changed. Ask your administrator.''),
      (''AUTHINFO_UNAVAIL'', ''Sign-in is not available right now. Try again later.'')]"

definition failure_words :: "string \<Rightarrow> string \<Rightarrow> string" where
  "failure_words etype txt =
     (if etype = ''auth_error'' then ''The user name or password is incorrect. Try again.''
      else case find (\<lambda>(c, _). strstr txt c \<noteq> None) pam_words of
             Some (_, w) \<Rightarrow> w
           | None \<Rightarrow> if starts ''pam_'' txt \<or> strstr txt ''PAM'' \<noteq> None
                     then ''Sign-in did not work. Try again, or ask your administrator.'' else txt)"

definition auth_message :: "bridge_os \<Rightarrow> string \<Rightarrow> (bridge, int) state" where
  "auth_message os msg =
     (let txt = snd (json_string msg ''auth_message'' 1024 (gb_junk os ''text''));
          kind = snd (json_string msg ''auth_message_type'' 32 (gb_junk os ''kind''))
      in do { to_ui ((if kind = ''secret'' then ''PROMPT_SECRET '' else if kind = ''visible'' then ''PROMPT_VISIBLE ''
                      else if kind = ''error'' then ''ERROR '' else ''INFO '') @ txt);
              State_Monad.return 0 })"

definition says_success :: "string \<Rightarrow> bool" where
  "says_success msg \<longleftrightarrow> json_string msg ''type'' 64 [] = (True, ''success'')"

definition session_failure :: "bridge_os \<Rightarrow> string option \<Rightarrow> string" where
  "session_failure os m =
     ''FAILURE '' @ (case m of
        None \<Rightarrow> ''The session could not be started.''
      | Some msg \<Rightarrow> (case json_string msg ''description'' 1024 (gb_junk os ''text'') of
                      (True, txt) \<Rightarrow> txt
                    | (False, _) \<Rightarrow> ''The session could not be started.''))"

definition start_session_with :: "bridge_os \<Rightarrow> string \<Rightarrow> (bridge, int) state" where
  "start_session_with os cmd =
     do { ok \<leftarrow> greetd_send os (start_json (json_escape 1024 cmd));
          if \<not> ok then do { to_ui ''ERROR Could not start the session.''; State_Monad.return (- 1) }
          else do { m \<leftarrow> greetd_recv;
                    if (case m of Some msg \<Rightarrow> says_success msg | None \<Rightarrow> False)
                    then do { to_ui ''SUCCESS''; b \<leftarrow> State_Monad.get; remember_user os (br_user b); State_Monad.return 1 }
                    else do { to_ui (session_failure os m); State_Monad.return 0 } } }"

definition login_error :: "bridge_os \<Rightarrow> string \<Rightarrow> (bridge, int) state" where
  "login_error os msg =
     (let etype = snd (json_string msg ''error_type'' 64 (gb_junk os ''etype''));
          txt = (case json_string msg ''description'' 1024 (gb_junk os ''text'') of
                   (True, t) \<Rightarrow> t | (False, _) \<Rightarrow> ''Authentication failed.'')
      in do { to_ui (''FAILURE '' @ failure_words etype txt);
              _ \<leftarrow> greetd_send os cancel_json;
              _ \<leftarrow> greetd_recv;
              State_Monad.return 0 })"

definition handle_greetd_reply :: "bridge_os \<Rightarrow> string option \<Rightarrow> (bridge, int) state" where
  "handle_greetd_reply os cmd_for_session =
     do { m \<leftarrow> greetd_recv;
          case m of
            None \<Rightarrow> do { to_ui ''ERROR The login service closed the connection.''; State_Monad.return (- 1) }
          | Some msg \<Rightarrow>
              (case json_string msg ''type'' 64 [] of
                 (False, _) \<Rightarrow> State_Monad.return 0
               | (True, ty) \<Rightarrow>
                   if ty = ''auth_message'' then auth_message os msg
                   else if ty = ''success''
                   then (case cmd_for_session of Some cmd \<Rightarrow> start_session_with os cmd | None \<Rightarrow> State_Monad.return 1)
                   else if ty = ''error'' then login_error os msg
                   else State_Monad.return 0) }"

section \<open>The live session\<close>

definition greetd_peek_auth_message :: "(bridge, string option) state" where
  "greetd_peek_auth_message =
     do { m \<leftarrow> greetd_recv;
          case m of
            None \<Rightarrow> State_Monad.return None
          | Some msg \<Rightarrow>
              if json_string msg ''type'' 64 [] = (True, ''auth_message'')
              then State_Monad.return (Some (case json_string msg ''auth_message_type'' 512 [] of (True, k) \<Rightarrow> k | (False, _) \<Rightarrow> ''?''))
              else do { b \<leftarrow> State_Monad.get; State_Monad.set (b\<lparr>br_pending := Some msg\<rparr>); State_Monad.return None } }"

fun answer_blank :: "bridge_os \<Rightarrow> nat \<Rightarrow> (bridge, bool) state" where
  "answer_blank os 0 = State_Monad.return True"
| "answer_blank os (Suc n) =
     do { k \<leftarrow> greetd_peek_auth_message;
          case k of
            None \<Rightarrow> State_Monad.return True
          | Some _ \<Rightarrow> do { ok \<leftarrow> greetd_send os (reply_json 2048 []); if ok then answer_blank os n else State_Monad.return False } }"

definition live_boot :: "bridge_os \<Rightarrow> bool" where
  "live_boot os \<longleftrightarrow>
     (case gb_cmdline os of
        None \<Rightarrow> False
      | Some f \<Rightarrow> ''systemd.volatile=overlay'' \<in> set (strtok_all {CHR '' '', LF} (cstr (fst (fgets 4096 f)))))"

definition autologin :: "bridge_os \<Rightarrow> string \<Rightarrow> string \<Rightarrow> (bridge, int) state" where
  "autologin os user session_cmd =
     (if \<not> live_boot os \<or> user \<noteq> ''live'' then State_Monad.return 1
      else if \<not> gb_connects os then State_Monad.return 1
      else do { ok \<leftarrow> greetd_send os (create_json 512 user);
                if \<not> ok then State_Monad.return 1
                else do { answered \<leftarrow> answer_blank os 4;
                          if \<not> answered then State_Monad.return 1
                          else do { r \<leftarrow> handle_greetd_reply os (Some session_cmd);
                                    if r > 0 then State_Monad.return 0
                                    else do { _ \<leftarrow> greetd_send os cancel_json; _ \<leftarrow> greetd_recv; State_Monad.return 1 } } } })"

section \<open>The greeter's lines\<close>

definition hello :: "bridge_os \<Rightarrow> (bridge, bool) state" where
  "hello os =
     do { to_ui ''READY'';
          b \<leftarrow> State_Monad.get;
          _ \<leftarrow> (if last_user os b \<noteq> [] then to_ui (''LASTUSER '' @ last_user os b) else State_Monad.return ());
          State_Monad.return False }"

definition ask_greetd :: "bridge_os \<Rightarrow> string \<Rightarrow> string \<Rightarrow> (bridge, bool) state" where
  "ask_greetd os session_cmd json =
     do { ok \<leftarrow> greetd_send os json;
          if \<not> ok then do { to_ui ''ERROR The login service is unavailable.''; State_Monad.return True }
          else do { r \<leftarrow> handle_greetd_reply os (Some session_cmd); State_Monad.return (r > 0) } }"

text \<open>One line; the result says whether the loop ends.\<close>

definition bridge_line :: "bridge_os \<Rightarrow> string \<Rightarrow> string \<Rightarrow> (bridge, bool) state" where
  "bridge_line os session_cmd line =
     (if starts ''HELLO'' line then hello os
      else if starts ''USER '' line
      then do { b \<leftarrow> State_Monad.get;
                State_Monad.set (b\<lparr>br_user := snprintf_s 256 (drop 5 line)\<rparr>);
                ask_greetd os session_cmd (create_json 1024 (json_escape 512 (drop 5 line))) }
      else if starts ''CANCEL'' line
      then do { _ \<leftarrow> greetd_send os cancel_json; _ \<leftarrow> greetd_recv; State_Monad.return False }
      else if starts ''REPLY '' line
      then ask_greetd os session_cmd (reply_json 2048 (json_escape 1024 (drop 6 line)))
      else State_Monad.return False)"

lemma from_ui_max_shrinks: "from_ui_max n bs = Some (l, r) \<Longrightarrow> 0 < n \<Longrightarrow> length r < length bs"
proof (induction n bs arbitrary: l rule: from_ui_max.induct)
  case (2 n c bs)
  show ?case
  proof (cases "n = 1")
    case True
    then show ?thesis using 2 by (cases bs) (auto split: if_splits option.splits)
  next
    case False
    then show ?thesis using 2 by (fastforce split: if_splits option.splits)
  qed
qed simp

lemma from_ui_shrinks: "from_ui bs = Some (line, rest) \<Longrightarrow> length rest < length bs"
  by (auto simp: from_ui_def split: option.splits dest: from_ui_max_shrinks)

function bridge_loop :: "bridge_os \<Rightarrow> string \<Rightarrow> bytes \<Rightarrow> (bridge, unit) state" where
  "bridge_loop os session_cmd bs =
     (case from_ui bs of
        None \<Rightarrow> State_Monad.return ()
      | Some (line, rest) \<Rightarrow>
          do { stop \<leftarrow> bridge_line os session_cmd line;
               if stop then State_Monad.return () else bridge_loop os session_cmd rest })"
  by pat_completeness auto
termination
  by (relation "measure (\<lambda>(_, _, bs). length bs)") (auto dest: from_ui_shrinks)

declare bridge_loop.simps [simp del]

definition bridge_main :: "bridge_os \<Rightarrow> string list \<Rightarrow> bytes \<Rightarrow> (bridge, int) state" where
  "bridge_main os argv ui =
     (let session_cmd = (if length argv > 1 then argv ! 1 else ''/usr/bin/sg-session-start'')
      in case gb_getenv os ''SG_GREET_AUTOLOGIN'' of
           Some user \<Rightarrow> autologin os user session_cmd
         | None \<Rightarrow>
             if length argv \<le> 2 then State_Monad.return 2
             else if \<not> gb_connects os \<or> \<not> gb_can_fork os then State_Monad.return 1
             else do { b \<leftarrow> State_Monad.get;
                       State_Monad.set (b\<lparr>br_greeter := True\<rparr>);
                       bridge_loop os session_cmd ui;
                       State_Monad.return 0 })"

section \<open>What the bridge may do\<close>

definition start_prefix :: string where
  "start_prefix = ''{'' @ json_field ''type'' ''start_session''"

definition accepted :: "bridge_event list \<Rightarrow> bool" where
  "accepted l \<longleftrightarrow> (\<exists>m l'. l = Recv (Some m) # l' \<and> says_success m)"

definition started :: "bridge_event list \<Rightarrow> bool" where
  "started l \<longleftrightarrow> (\<exists>m j l'. l = Recv (Some m) # Send j # l' \<and> says_success m \<and> starts start_prefix j \<and> accepted l')"

text \<open>What an event needs of those before it, the newest first.\<close>

fun earned :: "bridge_event \<Rightarrow> bridge_event list \<Rightarrow> bool" where
  "earned (Send j) l = (starts start_prefix j \<longrightarrow> accepted l)"
| "earned (Ui s) l = (s = ''SUCCESS'' \<longrightarrow> started l)"
| "earned (Remembered u) l = (started l \<or> (\<exists>l'. l = Ui ''SUCCESS'' # l' \<and> started l'))"
| "earned (Recv m) l = True"
| "earned UiOverrun l = False"

fun log_ok :: "bridge_event list \<Rightarrow> bool" where
  "log_ok [] = True"
| "log_ok (e # l) = (earned e l \<and> log_ok l)"

definition at_rest :: "bridge \<Rightarrow> bool" where
  "at_rest b \<longleftrightarrow> log_ok (br_log b) \<and> br_pending b = None"

definition junk_ok :: "bridge_os \<Rightarrow> bool" where
  "junk_ok os \<longleftrightarrow> (\<forall>v. length (gb_junk os v) < 1024)"

lemma starts_snprintf: "starts p (snprintf_s sz s) \<Longrightarrow> starts p s"
  unfolding starts_iff snprintf_s_def by (metis append_take_drop_id append_assoc)

lemma snprintf_starts: "length p < sz \<Longrightarrow> starts p (snprintf_s sz (p @ t))"
  by (simp add: starts_def snprintf_s_def)

lemma json_not_start:
  "starts start_prefix (create_json sz esc) = False" "starts start_prefix (reply_json sz esc) = False"
  "starts start_prefix cancel_json = False"
proof -
  have no: "\<not> starts start_prefix (''{'' @ json_field ''type'' (c # w) @ t)" if "c \<noteq> CHR ''s''" for c w t
    using that by (simp add: starts_def start_prefix_def json_field_def)
  have c: "CHR ''c'' \<noteq> CHR ''s''" "CHR ''p'' \<noteq> CHR ''s''" by simp_all
  show "starts start_prefix (create_json sz esc) = False"
    using no[OF c(1), of "''reate_session''"] starts_snprintf unfolding create_json_def by blast
  show "starts start_prefix (reply_json sz esc) = False"
    using no[OF c(2), of "''ost_auth_message_response''"] starts_snprintf unfolding reply_json_def by blast
  show "starts start_prefix cancel_json = False"
    using no[OF c(1), of "''ancel_session''" "''}''"] unfolding cancel_json_def by blast
qed

lemma json_start: "starts start_prefix (start_json esc)"
proof -
  have l: "length start_prefix < 2048" by (simp add: start_prefix_def json_field_def)
  have "start_json esc = snprintf_s 2048 (start_prefix @ '','' @ (DQ # ''cmd'') @ [DQ] @ '':['' @ (DQ # esc) @ [DQ]
       @ ''],'' @ (DQ # ''env'') @ [DQ] @ '':[]}'')" unfolding start_json_def start_prefix_def by (simp only: append_assoc)
  then show ?thesis using snprintf_starts[OF l] by (simp only:)
qed

lemma length_json_value: "length (json_value n s) \<le> n"
  by (induction n s rule: json_value.induct) auto

lemma length_json_string:
  "json_string j k mx old = (found, out) \<Longrightarrow> length old < 1024 \<Longrightarrow> mx \<le> 1024 \<Longrightarrow> length out < 1024"
  using length_json_value[of "mx - 1"]
  by (fastforce simp: json_string_def Let_def split: option.splits list.splits if_splits intro: le_less_trans)

lemma length_failure_words: "length txt < 1024 \<Longrightarrow> length (failure_words etype txt) < 1024"
  by (auto simp: failure_words_def pam_words_def split: option.splits)

section \<open>Rules for the bridge's operations\<close>

lemma recv_rule: "triple (\<lambda>b. at_rest b \<and> br_log b = L) greetd_recv (\<lambda>m b. at_rest b \<and> br_log b = Recv m # L)"
  by (rule tripleI) (auto simp: greetd_recv_def at_rest_def split: prod.splits)

lemma send_rule:
  "triple (\<lambda>b. at_rest b \<and> br_log b = L \<and> (starts start_prefix j \<longrightarrow> accepted L)) (greetd_send os j)
     (\<lambda>ok b. at_rest b \<and> br_log b = (if ok then Send j # L else L))"
  by (rule tripleI) (auto simp: greetd_send_def at_rest_def)

lemma ui_rule:
  "triple (\<lambda>b. at_rest b \<and> br_log b = L \<and> length s < 2046 \<and> (s = ''SUCCESS'' \<longrightarrow> started L)) (to_ui s)
     (\<lambda>_ b. at_rest b \<and> (br_log b = L \<or> br_log b = Ui s # L))"
  by (rule tripleI) (auto simp: to_ui_def at_rest_def)

lemma remember_rule:
  "triple (\<lambda>b. at_rest b \<and> (started (br_log b) \<or> (\<exists>l'. br_log b = Ui ''SUCCESS'' # l' \<and> started l'))) (remember_user os u)
     (\<lambda>_. at_rest)"
  by (rule tripleI) (auto simp: remember_user_def at_rest_def)

text \<open>A message read ahead is the last thing that happened.\<close>

definition ahead :: "bridge \<Rightarrow> bool" where
  "ahead b \<longleftrightarrow> log_ok (br_log b) \<and> (\<forall>m. br_pending b = Some m \<longrightarrow> (\<exists>l. br_log b = Recv (Some m) # l))"

lemma ahead_rest: "at_rest b \<Longrightarrow> ahead b"
  by (simp add: at_rest_def ahead_def)

lemma recv_ahead: "triple ahead greetd_recv (\<lambda>m b. at_rest b \<and> (\<exists>l. br_log b = Recv m # l))"
  by (rule tripleI) (auto simp: greetd_recv_def at_rest_def ahead_def split: prod.splits option.splits)

lemma recv_rest: "triple at_rest greetd_recv (\<lambda>_. at_rest)"
  by (rule tripleI) (auto simp: greetd_recv_def at_rest_def split: prod.splits)

lemma send_rest: "starts start_prefix j = False \<Longrightarrow> triple at_rest (greetd_send os j) (\<lambda>_. at_rest)"
  by (rule tripleI) (auto simp: greetd_send_def at_rest_def)

lemma ui_rest: "length s < 2046 \<Longrightarrow> s \<noteq> ''SUCCESS'' \<Longrightarrow> triple at_rest (to_ui s) (\<lambda>_. at_rest)"
  by (rule tripleI) (auto simp: to_ui_def at_rest_def)

lemma return_rest: "triple at_rest (State_Monad.return x) (\<lambda>_. at_rest)"
  by (rule triple_return)

lemmas rest_rules = triple_bind triple_bind[OF recv_rest] triple_bind[OF send_rest] triple_bind[OF ui_rest] return_rest

lemma session_failure_text:
  assumes "junk_ok os"
  obtains t where "session_failure os m = ''FAILURE '' @ t" and "length t < 1024"
proof -
  define t where "t = (case m of
        None \<Rightarrow> ''The session could not be started.''
      | Some msg \<Rightarrow> (case json_string msg ''description'' 1024 (gb_junk os ''text'') of
                      (True, txt) \<Rightarrow> txt
                    | (False, _) \<Rightarrow> ''The session could not be started.''))"
  have "length t < 1024"
  proof (cases m)
    case (Some msg)
    obtain f x where j: "json_string msg ''description'' 1024 (gb_junk os ''text'') = (f, x)" by fastforce
    have "length x < 1024" by (rule length_json_string[OF j]) (use assms in \<open>simp_all add: junk_ok_def\<close>)
    then show ?thesis by (simp add: t_def Some j split: bool.split)
  qed (simp add: t_def)
  then show ?thesis using that[of t] by (simp add: session_failure_def t_def)
qed

lemma failure_rest: "length t < 1024 \<Longrightarrow> triple at_rest (to_ui (''FAILURE '' @ t)) (\<lambda>_. at_rest)"
  by (rule ui_rest) simp_all

lemma success_rest:
  "triple (\<lambda>b. at_rest b \<and> started (br_log b)) (do { to_ui ''SUCCESS''; b \<leftarrow> State_Monad.get; remember_user os (br_user b); State_Monad.return x })
     (\<lambda>_. at_rest)"
  by (rule tripleI)
     (auto simp: to_ui_def remember_user_def at_rest_def State_Monad.get_def simp del: bind_assoc)

lemma started_rest:
  assumes "junk_ok os" and "accepted L" and "starts start_prefix j"
  shows "triple (\<lambda>b. at_rest b \<and> br_log b = Recv m # Send j # L)
    (if (case m of Some msg \<Rightarrow> says_success msg | None \<Rightarrow> False)
     then do { to_ui ''SUCCESS''; b \<leftarrow> State_Monad.get; remember_user os (br_user b); State_Monad.return (1 :: int) }
     else do { to_ui (session_failure os m); State_Monad.return 0 }) (\<lambda>_. at_rest)"
proof (cases "case m of Some msg \<Rightarrow> says_success msg | None \<Rightarrow> False")
  case True
  then have "started (Recv m # Send j # L)" using assms(2,3) by (auto simp: started_def split: option.splits)
  then show ?thesis unfolding if_P[OF True] by (intro triple_pre[OF success_rest]) simp
next
  case False
  obtain t where t: "session_failure os m = ''FAILURE '' @ t" "length t < 1024" by (rule session_failure_text[OF assms(1)])
  show ?thesis unfolding if_not_P[OF False] t(1)
    by (rule triple_bind[OF triple_pre[OF failure_rest[OF t(2)]] return_rest]) simp
qed

lemma start_session_rest:
  assumes "junk_ok os"
  shows "triple (\<lambda>b. at_rest b \<and> accepted (br_log b)) (start_session_with os cmd) (\<lambda>_. at_rest)"
proof -
  let ?j = "start_json (json_escape 1024 cmd)"
  have fail: "triple at_rest (do { to_ui ''ERROR Could not start the session.''; State_Monad.return (- 1 :: int) }) (\<lambda>_. at_rest)"
    by (rule triple_bind[OF ui_rest return_rest]) simp_all
  have "triple (\<lambda>b. at_rest b \<and> br_log b = L \<and> accepted L) (start_session_with os cmd) (\<lambda>_. at_rest)" for L
    unfolding start_session_with_def
  proof (rule triple_bind)
    show "triple (\<lambda>b. at_rest b \<and> br_log b = L \<and> accepted L) (greetd_send os ?j)
      (\<lambda>ok b. (at_rest b \<and> br_log b = (if ok then Send ?j # L else L)) \<and> accepted L)"
      using send_rule[of L ?j os] unfolding triple_def by blast
  next
    fix ok
    show "triple (\<lambda>b. (at_rest b \<and> br_log b = (if ok then Send ?j # L else L)) \<and> accepted L)
      (if \<not> ok then do { to_ui ''ERROR Could not start the session.''; State_Monad.return (- 1 :: int) }
          else do { m \<leftarrow> greetd_recv;
                    if (case m of Some msg \<Rightarrow> says_success msg | None \<Rightarrow> False)
                    then do { to_ui ''SUCCESS''; b \<leftarrow> State_Monad.get; remember_user os (br_user b); State_Monad.return 1 }
                    else do { to_ui (session_failure os m); State_Monad.return 0 } }) (\<lambda>_. at_rest)"
    proof (rule triple_fact)
      assume a: "accepted L"
      show "triple (\<lambda>b. at_rest b \<and> br_log b = (if ok then Send ?j # L else L))
        (if \<not> ok then do { to_ui ''ERROR Could not start the session.''; State_Monad.return (- 1 :: int) }
          else do { m \<leftarrow> greetd_recv;
                    if (case m of Some msg \<Rightarrow> says_success msg | None \<Rightarrow> False)
                    then do { to_ui ''SUCCESS''; b \<leftarrow> State_Monad.get; remember_user os (br_user b); State_Monad.return 1 }
                    else do { to_ui (session_failure os m); State_Monad.return 0 } }) (\<lambda>_. at_rest)"
      proof (cases ok)
        case True
        show ?thesis unfolding eqTrueI[OF True] not_True_eq_False if_False if_True by (rule triple_bind, rule recv_rule, rule started_rest[OF assms a json_start])
      next
        case False
        then have no: "ok = False" by simp
        show ?thesis unfolding no not_False_eq_True if_True by (rule triple_pre[OF fail]) simp
      qed
    qed
  qed
  then have "triple (\<lambda>b. \<exists>L. at_rest b \<and> br_log b = L \<and> accepted L) (start_session_with os cmd) (\<lambda>_. at_rest)" by (rule triple_ex)
  then show ?thesis by (rule triple_pre) simp
qed

section \<open>The exchange keeps to it\<close>

lemma auth_message_rest:
  assumes "junk_ok os"
  shows "triple at_rest (auth_message os msg) (\<lambda>_. at_rest)"
proof -
  obtain f t where t: "json_string msg ''auth_message'' 1024 (gb_junk os ''text'') = (f, t)" by fastforce
  define p where "p = (\<lambda>kind. if kind = ''secret'' then ''PROMPT_SECRET '' else if kind = ''visible'' then ''PROMPT_VISIBLE ''
                      else if kind = ''error'' then ''ERROR '' else ''INFO '')"
  have p: "length (p k) < 16" "hd (p k @ t) \<noteq> CHR ''S''" for k by (simp_all add: p_def)
  have "length t < 1024" by (rule length_json_string[OF t]) (use assms in \<open>simp_all add: junk_ok_def\<close>)
  then have "length (p k @ t) < 2046" for k using p(1)[of k] by simp
  moreover have "p k @ t \<noteq> ''SUCCESS''" for k using p(2)[of k] by (metis list.sel(1))
  ultimately have "triple at_rest (to_ui (p k @ t)) (\<lambda>_. at_rest)" for k by (rule ui_rest)
  note b = triple_bind[OF this return_rest]
  show ?thesis unfolding auth_message_def Let_def t snd_conv by (rule b[unfolded p_def])
qed

lemma login_error_rest:
  assumes "junk_ok os"
  shows "triple at_rest (login_error os msg) (\<lambda>_. at_rest)"
proof -
  obtain f t where t: "json_string msg ''description'' 1024 (gb_junk os ''text'') = (f, t)" by fastforce
  have l: "length t < 1024" by (rule length_json_string[OF t]) (use assms in \<open>simp_all add: junk_ok_def\<close>)
  define u where "u = (case (f, t) of (True, t) \<Rightarrow> t | (False, _) \<Rightarrow> ''Authentication failed.'')"
  have "length u < 1024" using l by (simp add: u_def split: bool.split)
  then have "triple at_rest (to_ui (''FAILURE '' @ failure_words e u)) (\<lambda>_. at_rest)" for e
    by (intro failure_rest length_failure_words)
  note b = triple_bind[OF this triple_bind[OF send_rest triple_bind[OF recv_rest return_rest]]]
  show ?thesis unfolding login_error_def Let_def t u_def[symmetric] by (rule b) (rule json_not_start)
qed

lemma handle_rest:
  assumes "junk_ok os"
  shows "triple ahead (handle_greetd_reply os cmd) (\<lambda>_. at_rest)"
  unfolding handle_greetd_reply_def
proof (rule triple_bind[OF recv_ahead])
  fix m
  have closed: "triple at_rest (do { to_ui ''ERROR The login service closed the connection.''; State_Monad.return (- 1 :: int) }) (\<lambda>_. at_rest)"
    by (rule triple_bind[OF ui_rest return_rest]) simp_all
  let ?rest = "\<lambda>b. at_rest b \<and> (\<exists>l. br_log b = Recv m # l)"
  show "triple ?rest (case m of
            None \<Rightarrow> do { to_ui ''ERROR The login service closed the connection.''; State_Monad.return (- 1) }
          | Some msg \<Rightarrow>
              (case json_string msg ''type'' 64 [] of
                 (False, _) \<Rightarrow> State_Monad.return 0
               | (True, ty) \<Rightarrow>
                   if ty = ''auth_message'' then auth_message os msg
                   else if ty = ''success''
                   then (case cmd of Some cmd \<Rightarrow> start_session_with os cmd | None \<Rightarrow> State_Monad.return 1)
                   else if ty = ''error'' then login_error os msg
                   else State_Monad.return 0)) (\<lambda>_. at_rest)"
  proof (cases m)
    case None
    then show ?thesis by (simp only: option.case) (rule triple_pre[OF closed], simp)
  next
    case (Some msg)
    obtain f ty where j: "json_string msg ''type'' 64 [] = (f, ty)" by fastforce
    have start: "triple ?rest (start_session_with os c) (\<lambda>_. at_rest)" if "f" "ty = ''success''" for c
      by (rule triple_pre[OF start_session_rest[OF assms]]) (use that j in \<open>auto simp: accepted_def says_success_def Some\<close>)
    have ret: "triple ?rest (State_Monad.return x) (\<lambda>_. at_rest)" for x :: int by (rule triple_return) simp
    have rest: "triple ?rest (auth_message os msg) (\<lambda>_. at_rest)" "triple ?rest (login_error os msg) (\<lambda>_. at_rest)"
      by (rule triple_pre[OF auth_message_rest[OF assms]], simp, rule triple_pre[OF login_error_rest[OF assms]], simp)
    show ?thesis
    proof (cases f)
      case True
      have "triple ?rest (if ty = ''auth_message'' then auth_message os msg
                   else if ty = ''success''
                   then (case cmd of Some cmd \<Rightarrow> start_session_with os cmd | None \<Rightarrow> State_Monad.return 1)
                   else if ty = ''error'' then login_error os msg
                   else State_Monad.return 0) (\<lambda>_. at_rest)"
        using start[OF True] ret rest by (cases cmd) (simp_all only: option.case split: if_split, blast+)
      then show ?thesis unfolding Some option.case j prod.case eqTrueI[OF True] bool.case .
    next
      case False
      then have no: "f = False" by simp
      show ?thesis unfolding Some option.case j prod.case no bool.case using ret[of 0] unfolding Some .
    qed
  qed
qed

lemma peek_ahead:
  "triple at_rest greetd_peek_auth_message (\<lambda>k b. ahead b \<and> (k \<noteq> None \<longrightarrow> at_rest b))"
  by (rule tripleI)
     (auto simp: greetd_peek_auth_message_def greetd_recv_def at_rest_def ahead_def State_Monad.get_def State_Monad.set_def
       split: prod.splits option.splits)

lemma answer_blank_ahead: "triple at_rest (answer_blank os n) (\<lambda>_. ahead)"
proof (induction n)
  case 0
  show ?case unfolding answer_blank.simps by (rule triple_return) (rule ahead_rest)
next
  case (Suc n)
  show ?case unfolding answer_blank.simps
  proof (rule triple_bind[OF peek_ahead])
    fix k :: "string option"
    have "triple at_rest (greetd_send os (reply_json 2048 []) \<bind> (\<lambda>ok. if ok then answer_blank os n else State_Monad.return False)) (\<lambda>_. ahead)"
      by (rule triple_bind[OF send_rest[OF json_not_start(2)]]) (simp add: Suc.IH triple_return ahead_rest)
    then show "triple (\<lambda>b. ahead b \<and> (k \<noteq> None \<longrightarrow> at_rest b)) (case k of None \<Rightarrow> State_Monad.return True
      | Some _ \<Rightarrow> greetd_send os (reply_json 2048 []) \<bind> (\<lambda>ok. if ok then answer_blank os n else State_Monad.return False)) (\<lambda>_. ahead)"
      by (cases k) (auto intro: triple_return triple_pre)
  qed
qed

lemma autologin_rest:
  assumes "junk_ok os"
  shows "triple at_rest (autologin os user cmd) (\<lambda>_. ahead)"
proof -
  have fin: "triple at_rest (do { _ \<leftarrow> greetd_send os cancel_json; _ \<leftarrow> greetd_recv; State_Monad.return (1 :: int) }) (\<lambda>_. ahead)"
    by (rule triple_bind[OF send_rest[OF json_not_start(3)] triple_bind[OF recv_rest triple_return]]) (rule ahead_rest)
  have r1: "triple at_rest (State_Monad.return x) (\<lambda>_. ahead)" for x :: int by (rule triple_return) (rule ahead_rest)
  have "triple at_rest (if r > 0 then State_Monad.return 0
      else do { _ \<leftarrow> greetd_send os cancel_json; _ \<leftarrow> greetd_recv; State_Monad.return (1 :: int) }) (\<lambda>_. ahead)" for r :: int
    by (rule triple_if[OF r1 fin])
  note h = triple_bind[OF handle_rest[OF assms] this]
  have r2: "triple ahead (State_Monad.return (1 :: int)) (\<lambda>_. ahead)" by (rule triple_return)
  have "triple ahead (if \<not> answered then State_Monad.return 1
      else do { r \<leftarrow> handle_greetd_reply os (Some cmd); if r > 0 then State_Monad.return 0
           else do { _ \<leftarrow> greetd_send os cancel_json; _ \<leftarrow> greetd_recv; State_Monad.return (1 :: int) } }) (\<lambda>_. ahead)" for answered
    by (rule triple_if[OF r2 h])
  note a = triple_bind[OF answer_blank_ahead this]
  have "triple at_rest (if \<not> ok then State_Monad.return 1 else do { answered \<leftarrow> answer_blank os 4; if \<not> answered then State_Monad.return 1
      else do { r \<leftarrow> handle_greetd_reply os (Some cmd); if r > 0 then State_Monad.return 0
           else do { _ \<leftarrow> greetd_send os cancel_json; _ \<leftarrow> greetd_recv; State_Monad.return (1 :: int) } } }) (\<lambda>_. ahead)" for ok
    by (rule triple_if[OF r1 a])
  note b = triple_bind[OF send_rest[OF json_not_start(1)] this]
  show ?thesis unfolding autologin_def by (intro triple_if r1 b)
qed

lemma ask_greetd_rest:
  assumes "junk_ok os" and "starts start_prefix json = False"
  shows "triple at_rest (ask_greetd os cmd json) (\<lambda>_. at_rest)"
proof -
  have a: "triple at_rest (do { to_ui ''ERROR The login service is unavailable.''; State_Monad.return True }) (\<lambda>_. at_rest)"
    by (rule triple_bind[OF ui_rest return_rest]) simp_all
  have b: "triple at_rest (do { r \<leftarrow> handle_greetd_reply os (Some cmd); State_Monad.return (r > 0) }) (\<lambda>_. at_rest)"
    by (rule triple_pre[OF triple_bind[OF handle_rest[OF assms(1)] return_rest] ahead_rest])
  show ?thesis unfolding ask_greetd_def
    by (rule triple_bind[OF send_rest[OF assms(2)] triple_if[OF a b]])
qed

lemma hello_rest: "triple at_rest (hello os) (\<lambda>_. at_rest)"
proof -
  have fits: "length (last_user os b) < 256" for b
  proof -
    have "length (before (cstr x) {LF}) \<le> length x" for x
      unfolding before_def cstr_def by (rule order_trans[OF length_takeWhile_le length_takeWhile_le])
    moreover have "length (fst (fgets 256 f)) < 256" for f
      using length_takeWhile_le[of "\<lambda>c. c \<noteq> LF" "take 255 f"] by (auto simp: fgets_def Let_def)
    ultimately have "length (before (cstr (fst (fgets 256 f))) {LF}) < 256" for f by (rule le_less_trans)
    then show ?thesis by (simp add: last_user_def Let_def split: option.split)
  qed
  have u: "triple at_rest (to_ui (''LASTUSER '' @ last_user os b)) (\<lambda>_. at_rest)" for b
    by (rule ui_rest) (use fits[of b] in simp_all)
  have "triple at_rest (if last_user os b \<noteq> [] then to_ui (''LASTUSER '' @ last_user os b) else State_Monad.return ()) (\<lambda>_. at_rest)" for b
    by (rule triple_if[OF u return_rest])
  note l = triple_bind[OF this return_rest]
  have g: "triple at_rest State_Monad.get (\<lambda>_. at_rest)" by (rule tripleI) (simp add: State_Monad.get_def)
  show ?thesis unfolding hello_def by (rule triple_bind[OF ui_rest triple_bind[OF g l]]) simp_all
qed

lemma bridge_line_rest:
  assumes "junk_ok os"
  shows "triple at_rest (bridge_line os cmd line) (\<lambda>_. at_rest)"
proof -
  have g: "triple at_rest State_Monad.get (\<lambda>b s. at_rest b)" by (rule tripleI) (simp add: State_Monad.get_def)
  have s: "triple (\<lambda>s. at_rest b) (State_Monad.set (b\<lparr>br_user := u\<rparr>)) (\<lambda>_. at_rest)" for b :: bridge and u
    by (rule tripleI) (simp add: State_Monad.set_def at_rest_def)
  note user = triple_bind[OF g triple_bind[OF s ask_greetd_rest[OF assms json_not_start(1)]]]
  note cancel = triple_bind[OF send_rest[OF json_not_start(3)] triple_bind[OF recv_rest return_rest]]
  note reply = ask_greetd_rest[OF assms json_not_start(2)]
  show ?thesis unfolding bridge_line_def
    by (intro triple_if hello_rest user cancel reply return_rest)
qed

lemma bridge_loop_rest:
  assumes "junk_ok os"
  shows "triple at_rest (bridge_loop os cmd bs) (\<lambda>_. at_rest)"
proof (induction bs rule: length_induct)
  case (1 bs)
  show ?case
  proof (cases "from_ui bs")
    case None
    then show ?thesis by (subst bridge_loop.simps) (simp add: return_rest)
  next
    case (Some lr)
    obtain line rest where lr: "lr = (line, rest)" by (cases lr)
    have "triple at_rest (bridge_loop os cmd rest) (\<lambda>_. at_rest)" using 1 from_ui_shrinks Some lr by blast
    then have "triple at_rest (if stop then State_Monad.return () else bridge_loop os cmd rest) (\<lambda>_. at_rest)" for stop
      by (simp add: return_rest)
    from triple_bind[OF bridge_line_rest[OF assms] this] show ?thesis
      by (subst bridge_loop.simps) (simp only: Some lr option.case prod.case)
  qed
qed

lemma bridge_main_ahead:
  assumes "junk_ok os"
  shows "triple at_rest (bridge_main os argv ui) (\<lambda>_. ahead)"
proof -
  have r: "triple at_rest (State_Monad.return x) (\<lambda>_. ahead)" for x :: int by (rule triple_return) (rule ahead_rest)
  have g: "triple at_rest State_Monad.get (\<lambda>b s. at_rest b)" by (rule tripleI) (simp add: State_Monad.get_def)
  have s: "triple (\<lambda>s. at_rest b) (State_Monad.set (b\<lparr>br_greeter := True\<rparr>)) (\<lambda>_. at_rest)" for b :: bridge
    by (rule tripleI) (simp add: State_Monad.set_def at_rest_def)
  note loop = triple_bind[OF g triple_bind[OF s triple_bind[OF bridge_loop_rest[OF assms] r]]]
  show ?thesis unfolding bridge_main_def Let_def
    by (cases "gb_getenv os ''SG_GREET_AUTOLOGIN''")
       (simp_all only: option.case, intro triple_if r loop, rule autologin_rest[OF assms])
qed


section \<open>What greetd reads\<close>

text \<open>JSON's string literals after the opening quote, and objects whose values are strings.\<close>

definition json_short :: "char \<Rightarrow> char option" where
  "json_short c = map_of [(DQ, DQ), (BSL, BSL), (CHR ''/'', CHR ''/''), (CHR ''b'', CHR 0x08), (CHR ''f'', CHR 0x0C),
     (CHR ''n'', LF), (CHR ''r'', CR), (CHR ''t'', TAB)] c"

definition json_hex :: "string \<Rightarrow> char option" where
  "json_hex h =
     (let v = foldl (\<lambda>a c. 16 * a + xdigit_val c) 0 h
      in if length h = 4 \<and> list_all isxdigit h \<and> v < 128 then Some (char_of v) else None)"

function json_literal :: "string \<Rightarrow> (string \<times> string) option" where
  "json_literal [] = None"
| "json_literal (c # s) =
     (if c = DQ then Some ([], s)
      else if code c < 32 then None
      else if c \<noteq> BSL then map_option (\<lambda>(t, r). (c # t, r)) (json_literal s)
      else if s = [] then None
      else if hd s = CHR ''u''
      then (case json_hex (take 4 (tl s)) of
              None \<Rightarrow> None | Some e \<Rightarrow> map_option (\<lambda>(t, r). (e # t, r)) (json_literal (drop 4 (tl s))))
      else (case json_short (hd s) of
              None \<Rightarrow> None | Some e \<Rightarrow> map_option (\<lambda>(t, r). (e # t, r)) (json_literal (tl s))))"
  by pat_completeness auto
termination by (relation "measure length") auto

declare json_literal.simps(2) [simp del]

definition json_pair :: "string \<Rightarrow> ((string \<times> string) \<times> string) option" where
  "json_pair s =
     (case s of
        q # t \<Rightarrow>
          if q \<noteq> DQ then None
          else (case json_literal t of
                  Some (k, c # q2 # t2) \<Rightarrow>
                    if c = CHR '':'' \<and> q2 = DQ then map_option (\<lambda>(v, r). ((k, v), r)) (json_literal t2) else None
                | _ \<Rightarrow> None)
      | [] \<Rightarrow> None)"

fun json_pairs :: "nat \<Rightarrow> string \<Rightarrow> (string \<times> string) list option" where
  "json_pairs 0 s = None"
| "json_pairs (Suc n) s =
     (case json_pair s of
        Some (kv, c # r) \<Rightarrow>
          if c = CHR '','' then map_option ((#) kv) (json_pairs n r)
          else if c = CHR ''}'' \<and> r = [] then Some [kv] else None
      | _ \<Rightarrow> None)"

definition json_object :: "string \<Rightarrow> (string \<times> string) list option" where
  "json_object s = (case s of [] \<Rightarrow> None | c # r \<Rightarrow> if c = CHR ''{'' then json_pairs (length r) r else None)"

lemma hex_digit_val: "n < 16 \<Longrightarrow> xdigit_val (hex_digit n) = n" "n < 16 \<Longrightarrow> isxdigit (hex_digit n)"
  by (simp_all add: xdigit_val_def hex_digit_def isxdigit_def isdigit_def)

lemma json_hex_control: "code c < 32 \<Longrightarrow> json_hex (hex_n 4 (code c)) = Some c"
proof -
  assume l: "code c < 32"
  define v where "v = code c"
  have v: "v < 32" "v div 16 < 16" "v mod 16 < 16" using l by (simp_all add: v_def)
  have d: "hex_n (Suc n) w = hex_n n (w div 16) @ [hex_digit (w mod 16)]" for n w by simp
  have four: "(4 :: nat) = Suc (Suc (Suc (Suc 0)))" by simp
  have z: "v div 16 div 16 = 0" "v div 16 mod 16 = v div 16" using v by simp_all
  have h: "hex_n 4 v = [hex_digit 0, hex_digit 0, hex_digit (v div 16), hex_digit (v mod 16)]"
    unfolding four d z by simp
  have x: "list_all isxdigit [hex_digit 0, hex_digit 0, hex_digit (v div 16), hex_digit (v mod 16)]"
    using hex_digit_val(2) v by simp
  have f: "foldl (\<lambda>a c. 16 * a + xdigit_val c) 0 [hex_digit 0, hex_digit 0, hex_digit (v div 16), hex_digit (v mod 16)] = v"
    using hex_digit_val(1)[of 0] hex_digit_val(1)[OF v(2)] hex_digit_val(1)[OF v(3)] by simp
  have "json_hex (hex_n 4 v) = Some (char_of v)"
    unfolding h json_hex_def f Let_def using x v by simp
  then show ?thesis by (simp add: v_def)
qed

lemma length_hex_n: "length (hex_n n v) = n"
  by (induction n arbitrary: v) simp_all

lemma json_literal_esc: "json_literal (json_esc c @ r) = map_option (\<lambda>(t, r). (c # t, r)) (json_literal r)"
proof -
  have k: "code BSL = 92" "code DQ = 34" "code (CHR ''u'') = 117" by simp_all
  have u: "json_literal (BSL # CHR ''u'' # h @ r) = map_option (\<lambda>(t, r). (c # t, r)) (json_literal r)" if "json_hex h = Some c" "length h = 4" for h
    using that by (subst json_literal.simps) simp
  have s: "json_literal (BSL # d # r) = map_option (\<lambda>(t, r). (e # t, r)) (json_literal r)" if "json_short d = Some e" "d \<noteq> CHR ''u''" for d e
    using that by (subst json_literal.simps) simp
  have p: "json_literal (c # r) = map_option (\<lambda>(t, r). (c # t, r)) (json_literal r)" if "\<not> code c < 32" "c \<noteq> DQ" "c \<noteq> BSL"
    using that by (subst json_literal.simps) simp
  have sh: "json_short DQ = Some DQ" "json_short BSL = Some BSL" "json_short CHR ''n'' = Some LF" "json_short CHR ''r'' = Some CR"
    "json_short CHR ''t'' = Some TAB" by (simp_all add: json_short_def)
  show ?thesis
    using s[OF sh(1)] s[OF sh(2)] s[OF sh(3)] s[OF sh(4)] s[OF sh(5)] p u[OF json_hex_control length_hex_n]
    by (simp add: json_esc_def)
qed

lemma length_json_esc: "1 \<le> length (json_esc c)" "length (json_esc c) \<le> 6"
  by (simp_all add: json_esc_def length_hex_n)

lemma length_json_escape: "p < mx \<Longrightarrow> p + length (json_escape_from mx p s) < mx"
proof (induction s arbitrary: p)
  case (Cons c s)
  show ?case
    using Cons.prems Cons.IH[of "p + length (json_esc c)"] length_json_esc(2)[of c] by (simp add: add.assoc)
qed simp

lemma json_literal_escape_from:
  "\<exists>n. json_literal (json_escape_from mx p s @ DQ # rest) = Some (take n s, rest) \<and>
     (p + length (concat (map json_esc s)) + 6 < mx \<longrightarrow> take n s = s)"
proof (induction s arbitrary: p)
  case Nil
  show ?case by (simp add: json_literal.simps(2))
next
  case (Cons c s)
  show ?case
  proof (cases "p + 7 < mx")
    case True
    obtain n where "json_literal (json_escape_from mx (p + length (json_esc c)) s @ DQ # rest) = Some (take n s, rest)"
      "p + length (json_esc c) + length (concat (map json_esc s)) + 6 < mx \<longrightarrow> take n s = s" using Cons.IH by blast
    then show ?thesis using True by (intro exI[of _ "Suc n"]) (simp add: json_literal_esc add.assoc)
  next
    case False
    then show ?thesis using length_json_esc(1)[of c] by (intro exI[of _ 0]) (simp add: json_literal.simps(2))
  qed
qed

lemma json_literal_plain:
  "list_all (\<lambda>c. json_esc c = [c]) k \<Longrightarrow> json_literal (k @ DQ # r) = Some (k, r)"
proof (induction k)
  case (Cons c k)
  then show ?case using json_literal_esc[of c "k @ DQ # r"] by simp
qed (simp add: json_literal.simps(2))

lemma json_pair_field:
  "list_all (\<lambda>c. json_esc c = [c]) k \<Longrightarrow> json_literal (v @ DQ # r) = Some (w, r) \<Longrightarrow> json_pair (json_field k v @ r) = Some ((k, w), r)"
  by (simp add: json_pair_def json_field_def json_literal_plain)

lemma json_two_fields:
  assumes "list_all (\<lambda>c. json_esc c = [c]) (k @ t @ l)" and "json_literal (v @ DQ # ''}'') = Some (w, ''}'')"
  shows "json_object (''{'' @ json_field k t @ '','' @ json_field l v @ ''}'') = Some [(k, t), (l, w)]"
proof -
  define s where "s = json_field l v @ ''}''"
  have a: "json_pair (json_field k t @ '','' @ s) = Some ((k, t), '','' @ s)"
    by (rule json_pair_field) (use assms(1) json_literal_plain in auto)
  have b: "json_pair s = Some ((l, w), ''}'')"
    unfolding s_def by (rule json_pair_field) (use assms in auto)
  obtain n where n: "length (json_field k t @ '','' @ s) = Suc (Suc n)" by (cases "length (json_field k t @ '','' @ s)") (auto simp: json_field_def)
  have "json_pairs (Suc (Suc n)) (json_field k t @ '','' @ s) = Some [(k, t), (l, w)]"
    using a b by simp
  then show ?thesis unfolding s_def[symmetric] using n by (simp add: json_object_def)
qed

lemma json_message:
  assumes "list_all (\<lambda>c. json_esc c = [c]) (k @ t @ l)" and "0 < mx" and "length k + length t + length l + mx + 13 \<le> sz"
  shows "\<exists>n. json_object (snprintf_s sz (''{'' @ json_field k t @ '','' @ json_field l (json_escape mx s) @ ''}''))
      = Some [(k, t), (l, take n s)] \<and> (length (concat (map json_esc s)) + 6 < mx \<longrightarrow> take n s = s)"
proof -
  obtain n where n: "json_literal (json_escape mx s @ DQ # ''}'') = Some (take n s, ''}'')"
    "length (concat (map json_esc s)) + 6 < mx \<longrightarrow> take n s = s"
    using json_literal_escape_from[of mx 0 s "''}''"] unfolding json_escape_def by auto
  have "length (json_escape mx s) < mx" using length_json_escape[OF assms(2), of s] by (simp add: json_escape_def)
  then have "length (''{'' @ json_field k t @ '','' @ json_field l (json_escape mx s) @ ''}'') < sz"
    using assms(3) by (simp add: json_field_def)
  then show ?thesis using json_two_fields[OF assms(1) n(1)] n(2) by (intro exI[of _ n]) simp
qed

text \<open>
  Nothing typed at the login screen can say more to greetd than it should: the message
  for a name or a password is one JSON object of exactly two fields, the bridge's own type
  and the text that was typed -- whatever quotes, backslashes and control characters are in
  it -- cut at the end if it is too long for the buffer, and whole whenever its escaped form
  is shorter than 506 (name) or 1018 (password) bytes.
\<close>

theorem greetd_reads_what_was_typed:
  "(\<exists>n. json_object (create_json 1024 (json_escape 512 user)) = Some [(''type'', ''create_session''), (''username'', take n user)] \<and>
     (length (concat (map json_esc user)) < 506 \<longrightarrow> take n user = user)) \<and>
   (\<exists>n. json_object (reply_json 2048 (json_escape 1024 pass)) =
       Some [(''type'', ''post_auth_message_response''), (''response'', take n pass)] \<and>
     (length (concat (map json_esc pass)) < 1018 \<longrightarrow> take n pass = pass))"
proof
  have a: "list_all (\<lambda>c. json_esc c = [c]) (''type'' @ ''create_session'' @ ''username'')"
    "list_all (\<lambda>c. json_esc c = [c]) (''type'' @ ''post_auth_message_response'' @ ''response'')"
    by (simp_all add: json_esc_def)
  show "\<exists>n. json_object (create_json 1024 (json_escape 512 user)) = Some [(''type'', ''create_session''), (''username'', take n user)] \<and>
     (length (concat (map json_esc user)) < 506 \<longrightarrow> take n user = user)"
    using json_message[OF a(1), of 512 1024 user] unfolding create_json_def by simp
  show "\<exists>n. json_object (reply_json 2048 (json_escape 1024 pass)) =
       Some [(''type'', ''post_auth_message_response''), (''response'', take n pass)] \<and>
     (length (concat (map json_esc pass)) < 1018 \<longrightarrow> take n pass = pass)"
    using json_message[OF a(2), of 1024 2048 pass] unfolding reply_json_def by simp
qed

definition ex_quoted :: string where
  "ex_quoted = [DQ, CHR '','', DQ, BSL, LF]"

theorem greetd_reads_what_was_typed_witness:
  "json_object (create_json 1024 (json_escape 512 ''bob'')) = Some [(''type'', ''create_session''), (''username'', ''bob'')] \<and>
   json_object (reply_json 2048 (json_escape 1024 ex_quoted)) =
     Some [(''type'', ''post_auth_message_response''), (''response'', ex_quoted)]"
proof -
  have l: "length (concat (map json_esc ''bob'')) < 506" "length (concat (map json_esc ex_quoted)) < 1018"
    by (simp_all add: json_esc_def ex_quoted_def)
  show ?thesis using greetd_reads_what_was_typed[of "''bob''" ex_quoted] l by (elim conjE exE) metis
qed

section \<open>What the login screen is asked\<close>

lemma json_string_first:
  "json_string (''{'' @ json_field ''type'' t @ '','' @ rest) ''type'' 64 buf = (True, json_value 63 (t @ DQ # '','' @ rest))"
  by (simp add: json_string_def snprintf_s_def json_field_def starts_def Let_def)

text \<open>
  C23.  The prompt is lost: a question of greetd's, in the order greetd writes its fields,
  is found to be an \<open>auth_message\<close>, but the search for the text of the question finds the
  value of \<open>type\<close> first and gives up.  The login screen is shown what the uninitialised
  buffer holds, whatever greetd asked.
\<close>

theorem prompt_text_lost:
  "json_string (''{'' @ json_field ''type'' ''auth_message'' @ '','' @ rest) ''type'' 64 [] = (True, ''auth_message'') \<and>
   json_string (''{'' @ json_field ''type'' ''auth_message'' @ '','' @ rest) ''auth_message'' 1024 buf = (False, buf)"
proof
  show "json_string (''{'' @ json_field ''type'' ''auth_message'' @ '','' @ rest) ''type'' 64 [] = (True, ''auth_message'')"
    unfolding json_string_first by (simp add: numeral_eq_Suc)
  show "json_string (''{'' @ json_field ''type'' ''auth_message'' @ '','' @ rest) ''auth_message'' 1024 buf = (False, buf)"
    by (simp add: json_string_def snprintf_s_def json_field_def starts_def Let_def)
qed

lemma last_user_round_trip:
  assumes "gb_can_write os" and "u \<noteq> []" and "nul_free u" and "LF \<notin> set u" and "length u \<le> 255"
    and "getpwnam (gb_accounts os) u = Some pw" and "\<not> pw_uid pw < 1000"
  shows "last_user os (snd (run_state (remember_user os u) b)) = u"
proof -
  have tw: "takeWhile (\<lambda>c. c \<noteq> LF) (take 255 (u @ [LF])) = u"
    using assms(4,5) before_split[of u "{LF}" LF "[]"] by (cases "length u = 255") (auto simp: takeWhile_eq_all_conv before_def)
  have "before (cstr (fst (fgets 256 (u @ [LF])))) {LF} = u"
  proof (cases "length u = 255")
    case True
    then have "fst (fgets 256 (u @ [LF])) = u" using tw by (simp add: fgets_def Let_def takeWhile_eq_all_conv[THEN iffD2])
    then show ?thesis using assms(3,4) before_all[of u "{LF}"] by (simp add: cstr_whole)
  next
    case False
    then have "fst (fgets 256 (u @ [LF])) = u @ [LF]" using tw assms(5) by (simp add: fgets_def Let_def)
    then show ?thesis using assms(3,4) before_split[of u "{LF}" LF "[]"] by (simp add: cstr_whole)
  qed
  then show ?thesis using assms by (simp add: last_user_def remember_user_def)
qed

section \<open>An example\<close>

definition ex_bridge_os :: bridge_os where
  "ex_bridge_os = \<lparr>gb_getenv = (\<lambda>_. None), gb_accounts = ex_accounts, gb_cmdline = None, gb_connects = True, gb_can_fork = True,
     gb_sends = (\<lambda>_. True), gb_can_write = True, gb_junk = (\<lambda>_. [])\<rparr>"

definition ex_success :: string where
  "ex_success = ''{'' @ json_field ''type'' ''success'' @ ''}''"

text \<open>alice has no password: greetd answers success at once, and starts the session.\<close>

definition ex_bridge :: bridge where
  "ex_bridge = \<lparr>br_in = le32 18 @ ex_success @ le32 18 @ ex_success, br_pending = None, br_sent = 0, br_greeter = False, br_user = [],
     br_last = None, br_log = []\<rparr>"


end
