(* ===== verification/Sg_Netmount.thy ===== *)
theory Sg_Netmount
  imports Sg_Monad
begin

text \<open>
  Network drives (\<open>src/domain/sg-netmountd.c\<close>): the root service that mounts shares and
  makes drive letters for the user at the other end of its socket.  A request is a program
  of the state monad over the calls made so far, the newest first; the kernel answers each
  call with an error number (0 for none) that may depend on all of them.  DNS, the network
  and the files read are parameters.
\<close>

datatype net_call =
    Mkdir string nat
  | Chown string uid_t u32
  | Chmod string nat
  | Mkstemp string
  | Fdopen string
  | WriteCred string bytes
  | Mount string string string
  | Umount string
  | Rmdir string
  | Unlink string
  | Symlink string string
  | Reply string

record srv_rr =
  rr_parses :: bool
  rr_srv :: bool
  rr_len :: nat
  rr_name :: "string option"

record net_os =
  nm_accounts :: accounts
  nm_role :: "bytes option"
  nm_addr :: "string \<Rightarrow> string option"
  nm_srv :: "string \<Rightarrow> srv_rr list option"
  nm_reach :: "string \<Rightarrow> bool"
  nm_mountinfo :: "net_call list \<Rightarrow> bytes option"
  nm_errno :: "net_call list \<Rightarrow> net_call \<Rightarrow> nat"
  nm_suffix :: "net_call list \<Rightarrow> string"
  nm_uid :: uid_t

type_synonym 'a net = "(net_call list, 'a) state"

definition EINVAL :: nat where "EINVAL = 22"
definition EACCES :: nat where "EACCES = 13"
definition EEXIST :: nat where "EEXIST = 17"
definition ENOENT :: nat where "ENOENT = 2"
definition ESRCH :: nat where "ESRCH = 3"
definition EHOSTUNREACH :: nat where "EHOSTUNREACH = 113"

definition NET_ROOT :: string where "NET_ROOT = ''/run/stained-glass-net''"
definition UNC_ROOT :: string where "UNC_ROOT = NET_ROOT @ ''/unc''"
definition DRIVE_ROOT :: string where "DRIVE_ROOT = NET_ROOT @ ''/drives''"
definition USER_ROOT :: string where "USER_ROOT = NET_ROOT @ ''/users''"

text \<open>A call and its error number.\<close>

definition sys :: "net_os \<Rightarrow> net_call \<Rightarrow> nat net" where
  "sys os c = State (\<lambda>h. (nm_errno os h c, c # h))"

definition reply :: "net_os \<Rightarrow> string \<Rightarrow> unit net" where
  "reply os s = do { _ \<leftarrow> sys os (Reply (s @ [LF])); State_Monad.return () }"

definition reply_err :: "net_os \<Rightarrow> nat \<Rightarrow> string \<Rightarrow> unit net" where
  "reply_err os e why = reply os (''ERR '' @ show_nat e @ '' '' @ why)"

section \<open>Names\<close>

definition valid_server :: "string \<Rightarrow> bool" where
  "valid_server s \<longleftrightarrow>
     s \<noteq> [] \<and> length s \<le> 253 \<and> hd s \<noteq> CHR ''.'' \<and> hd s \<noteq> CHR ''-'' \<and>
     list_all (\<lambda>c. isalnum c \<or> c = CHR ''.'' \<or> c = CHR ''-'') s \<and> strstr s ''..'' = None"

definition bad_in_component :: "char \<Rightarrow> bool" where
  "bad_in_component c \<longleftrightarrow> code c < 32 \<or> code c = 127 \<or> c \<in> set ([BSL, DQ] @ ''/:*?<>|[]+=;,'')"

definition valid_component :: "string \<Rightarrow> bool" where
  "valid_component s \<longleftrightarrow>
     s \<noteq> [] \<and> length s \<le> 80 \<and> s \<noteq> ''.'' \<and> s \<noteq> ''..'' \<and> list_all (\<lambda>c. \<not> bad_in_component c) s"

definition lower :: "string \<Rightarrow> string" where
  "lower s = map tolower s"

definition valid_letter :: "string \<Rightarrow> char option" where
  "valid_letter s =
     (case s of
        [c] \<Rightarrow> if isalpha c \<and> tolower c \<noteq> CHR ''c'' \<and> tolower c \<noteq> CHR ''z'' then Some (tolower c) else None
      | _ \<Rightarrow> None)"

section \<open>The domain and its servers\<close>

definition role_line :: "nat \<Rightarrow> string \<times> string \<Rightarrow> bytes \<Rightarrow> string \<times> string" where
  "role_line dlen rd l =
     (let line = before (cstr l) {LF}
      in if starts ''realm='' line then (snprintf_s 256 (drop 6 line), snd rd)
         else if starts ''domain='' line then (fst rd, snprintf_s dlen (drop 7 line))
         else rd)"

definition read_role :: "net_os \<Rightarrow> nat \<Rightarrow> string \<times> string" where
  "read_role os dlen =
     (case nm_role os of
        None \<Rightarrow> ([], [])
      | Some f \<Rightarrow> map_prod lower lower (foldl (role_line dlen) ([], []) (fgets_all 256 f)))"

definition find_dc :: "net_os \<Rightarrow> string \<Rightarrow> nat \<Rightarrow> string option" where
  "find_dc os dnsdomain len =
     (case nm_srv os (snprintf_s 300 (''_ldap._tcp.dc._msdcs.'' @ dnsdomain)) of
        None \<Rightarrow> None
      | Some rrs \<Rightarrow>
          (case filter (\<lambda>rr. rr_parses rr \<and> rr_srv rr \<and> rr_len rr \<ge> 7 \<and> (\<exists>n\<in>set_option (rr_name rr). length n < len)) rrs of
             [] \<Rightarrow> None | rr # _ \<Rightarrow> rr_name rr))"

text \<open>\<open>inet_aton\<close> on a text without dots: one number, in base 8, 10 or 16.\<close>

definition inet_aton1 :: "string \<Rightarrow> bool" where
  "inet_aton1 s \<longleftrightarrow>
     (if starts ''0x'' s \<or> starts ''0X'' s
      then drop 2 s \<noteq> [] \<and> list_all (\<lambda>c. isdigit c \<or> code (tolower c) \<ge> 97 \<and> code (tolower c) \<le> 102) (drop 2 s) \<and>
           length (dropWhile (\<lambda>c. c = CHR ''0'') (drop 2 s)) \<le> 8
      else if starts ''0'' s
      then list_all (\<lambda>c. isdigit c \<and> code c \<le> 55) s \<and> foldl (\<lambda>a c. 8 * a + (code c - 48)) 0 s < 2 ^ 32
      else s \<noteq> [] \<and> list_all isdigit s \<and> digits_val s < 2 ^ 32)"

definition resolve_host :: "net_os \<Rightarrow> string \<Rightarrow> string option" where
  "resolve_host os server =
     (case read_role os 64 of (realm, domain) \<Rightarrow>
        if realm \<noteq> [] \<and> (server = realm \<or> domain \<noteq> [] \<and> server = domain) then find_dc os realm 256
        else if CHR ''.'' \<notin> set server \<and> realm \<noteq> [] \<and> \<not> inet_aton1 server
        then (let full = snprintf_s 256 (server @ ''.'' @ realm)
              in if nm_addr os full = None then Some (snprintf_s 256 server) else Some full)
        else Some (snprintf_s 256 server))"

text \<open>The host's name and address.\<close>

definition resolve :: "net_os \<Rightarrow> string \<Rightarrow> (string \<times> string) option" where
  "resolve os server =
     (case resolve_host os server of
        None \<Rightarrow> None
      | Some host \<Rightarrow> (case nm_addr os host of None \<Rightarrow> None | Some ip \<Rightarrow> Some (lower host, ip)))"

section \<open>What is mounted\<close>

fun skip_fields :: "nat \<Rightarrow> string \<Rightarrow> string option" where
  "skip_fields 0 p = Some p"
| "skip_fields (Suc n) p = (case strchr p CHR '' '' of None \<Rightarrow> None | Some q \<Rightarrow> skip_fields n (tl q))"

definition signed_char :: "char \<Rightarrow> int" where
  "signed_char c = (if code c < 128 then int (code c) else int (code c) - 256)"

definition octal_char :: "char \<Rightarrow> char \<Rightarrow> char \<Rightarrow> char" where
  "octal_char a b c =
     char_of (nat ((or (or (push_bit 6 (signed_char a - 48)) (push_bit 3 (signed_char b - 48))) (signed_char c - 48)) mod 256))"

fun unmangle :: "nat \<Rightarrow> string \<Rightarrow> string" where
  "unmangle n [] = []"
| "unmangle n (x # p) =
     (if n = 0 \<or> x = CHR '' '' then []
      else if x = BSL \<and> length p \<ge> 3 \<and> 48 \<le> code (hd p) \<and> code (hd p) \<le> 55
      then octal_char (p ! 0) (p ! 1) (p ! 2) # unmangle (n - 1) (drop 3 p)
      else x # unmangle (n - 1) p)"

definition mount_point :: "string \<Rightarrow> string" where
  "mount_point p = cstr (unmangle 4095 p)"

definition is_mounted :: "net_os \<Rightarrow> string \<Rightarrow> bool net" where
  "is_mounted os path = State (\<lambda>h. (case nm_mountinfo os h of
       None \<Rightarrow> False
     | Some f \<Rightarrow> list_ex (\<lambda>l. map_option mount_point (skip_fields 4 (cstr l)) = Some path) (fgets_all 4096 f), h))"

section \<open>Mounting\<close>

text \<open>The directories above a path, outermost first.\<close>

definition dir_prefixes :: "string \<Rightarrow> string list" where
  "dir_prefixes path = map (\<lambda>i. take i path) (filter (\<lambda>i. path ! i = CHR ''/'') [1..<length path])"

fun mkdir_all :: "net_os \<Rightarrow> nat \<Rightarrow> string list \<Rightarrow> nat net" where
  "mkdir_all os mode [] = State_Monad.return 0"
| "mkdir_all os mode (p # ps) =
     do { e \<leftarrow> sys os (Mkdir p mode);
          if e \<noteq> 0 \<and> e \<noteq> EEXIST then State_Monad.return e else mkdir_all os mode ps }"

definition mkdirs :: "net_os \<Rightarrow> string \<Rightarrow> nat \<Rightarrow> nat net" where
  "mkdirs os path mode =
     (let buf = snprintf_s 4096 path in mkdir_all os mode (dir_prefixes buf @ [buf]))"

definition run_mount :: "net_os \<Rightarrow> string \<Rightarrow> string \<Rightarrow> string \<Rightarrow> bool net" where
  "run_mount os unc path opts =
     do { e \<leftarrow> sys os (Mount unc path (snprintf_s 1024 (opts @ '',nohandlecache'')));
          State_Monad.return (e = 0) }"

definition user_path :: "uid_t \<Rightarrow> string \<Rightarrow> string \<Rightarrow> string" where
  "user_path uid server share = snprintf_s 4096 (USER_ROOT @ ''/'' @ show_u32 uid @ ''/unc/'' @ server @ ''/'' @ share)"

definition krb5_opts :: "uid_t \<Rightarrow> string \<Rightarrow> string" where
  "krb5_opts uid ip = snprintf_s 512
     (''multiuser,sec=krb5,cruid='' @ show_u32 uid @ '',ip='' @ ip @ '',noperm,file_mode=0777,dir_mode=0777,nosuid,nodev'')"

definition guest_opts :: "string \<Rightarrow> string" where
  "guest_opts ip = snprintf_s 512 (''guest,ip='' @ ip @ '',noperm,file_mode=0777,dir_mode=0777,nosuid,nodev'')"

definition mount_share :: "net_os \<Rightarrow> uid_t \<Rightarrow> string \<Rightarrow> string \<Rightarrow> string \<Rightarrow> bool net" where
  "mount_share os uid unc ip path =
     do { ok \<leftarrow> (if fst (read_role os 256) \<noteq> [] then run_mount os unc path (krb5_opts uid ip) else State_Monad.return False);
          if ok then State_Monad.return True else run_mount os unc path (guest_opts ip) }"

text \<open>The path of the mount, or the error number.\<close>

definition do_mount :: "net_os \<Rightarrow> uid_t \<Rightarrow> string \<Rightarrow> string \<Rightarrow> (nat + string) net" where
  "do_mount os uid server0 share0 =
     (let server = lower server0; share = lower share0;
          own = user_path uid server share;
          path = snprintf_s 4096 (UNC_ROOT @ ''/'' @ server @ ''/'' @ share)
      in do { m \<leftarrow> is_mounted os own;
              if m then State_Monad.return (Inr own)
              else do { m2 \<leftarrow> is_mounted os path;
                if m2 then State_Monad.return (Inr path)
                else case resolve os server of
                       None \<Rightarrow> State_Monad.return (Inl EHOSTUNREACH)
                     | Some (host, ip) \<Rightarrow>
                         if \<not> nm_reach os ip then State_Monad.return (Inl EHOSTUNREACH)
                         else do { e \<leftarrow> mkdirs os path 0x1ED;
                           if e \<noteq> 0 then State_Monad.return (Inl e)
                           else do { ok \<leftarrow> mount_share os uid (snprintf_s 600 (''//'' @ host @ ''/'' @ share)) ip path;
                             if ok then State_Monad.return (Inr path)
                             else do { _ \<leftarrow> sys os (Rmdir path); State_Monad.return (Inl EACCES) } } } } })"

section \<open>A connection of one's own\<close>

definition cred_domain :: "string \<Rightarrow> string" where
  "cred_domain user = (case strchr user BSL of None \<Rightarrow> [] | Some _ \<Rightarrow> snprintf_s 256 (before user {BSL}))"

definition cred_name :: "string \<Rightarrow> string" where
  "cred_name user = snprintf_s 256 (case strchr user BSL of None \<Rightarrow> user | Some sep \<Rightarrow> tl sep)"

definition cred_text :: "string \<Rightarrow> string \<Rightarrow> bytes" where
  "cred_text user password =
     ''username='' @ cred_name user @ [LF] @ ''password='' @ password @ [LF]
     @ (if cred_domain user \<noteq> [] then ''domain='' @ cred_domain user @ [LF] else [])"

definition logon_opts :: "string \<Rightarrow> uid_t \<Rightarrow> u32 \<Rightarrow> string \<Rightarrow> string" where
  "logon_opts cred uid gid ip = snprintf_s 768
     (''credentials='' @ cred @ '',uid='' @ show_u32 uid @ '',gid='' @ show_u32 gid
      @ '',forceuid,forcegid,file_mode=0600,dir_mode=0700,ip='' @ ip @ '',nosuid,nodev'')"

definition user_dirs :: "net_os \<Rightarrow> uid_t \<Rightarrow> u32 \<Rightarrow> string \<Rightarrow> nat net" where
  "user_dirs os uid gid path =
     (let dir = snprintf_s 128 (USER_ROOT @ ''/'' @ show_u32 uid)
      in do { e \<leftarrow> mkdirs os (USER_ROOT @ ''/'') 0x1ED;
              if e \<noteq> 0 then State_Monad.return e
              else do { e1 \<leftarrow> sys os (Mkdir dir 0x1C0);
                if e1 \<noteq> 0 \<and> e1 \<noteq> EEXIST then State_Monad.return e1
                else do { e2 \<leftarrow> sys os (Chown dir uid gid);
                  if e2 \<noteq> 0 then State_Monad.return e2
                  else do { e3 \<leftarrow> sys os (Chmod dir 0x1C0);
                    if e3 \<noteq> 0 then State_Monad.return e3 else mkdirs os path 0x1ED } } } })"

text \<open>The credentials file is made, used for the mount and removed.\<close>

definition mount_with :: "net_os \<Rightarrow> uid_t \<Rightarrow> u32 \<Rightarrow> string \<Rightarrow> string \<Rightarrow> string \<Rightarrow> string \<Rightarrow> string \<Rightarrow> (nat + bool) net" where
  "mount_with os uid gid unc ip user password path =
     do { h \<leftarrow> State_Monad.get;
          let cred = NET_ROOT @ ''/cred.'' @ nm_suffix os h;
          e \<leftarrow> sys os (Mkstemp cred);
          if e \<noteq> 0 then State_Monad.return (Inl e)
          else do { e2 \<leftarrow> sys os (Fdopen cred);
            if e2 \<noteq> 0 then State_Monad.return (Inl e2)
            else do { _ \<leftarrow> sys os (WriteCred cred (cred_text user password));
                      ok \<leftarrow> run_mount os unc path (logon_opts cred uid gid ip);
                      _ \<leftarrow> sys os (Unlink cred);
                      State_Monad.return (Inr ok) } } }"

definition do_logon :: "net_os \<Rightarrow> uid_t \<Rightarrow> string \<Rightarrow> string \<Rightarrow> string \<Rightarrow> string \<Rightarrow> (nat + string) net" where
  "do_logon os uid server0 share0 user password =
     (case getpwuid (nm_accounts os) uid of
        None \<Rightarrow> State_Monad.return (Inl ESRCH)
      | Some pw \<Rightarrow>
          let server = lower server0; share = lower share0; path = user_path uid server share
          in do { m \<leftarrow> is_mounted os path;
                  _ \<leftarrow> (if m then sys os (Umount path) else State_Monad.return 0);
                  case resolve os server of
                    None \<Rightarrow> State_Monad.return (Inl EHOSTUNREACH)
                  | Some (host, ip) \<Rightarrow>
                      if \<not> nm_reach os ip then State_Monad.return (Inl EHOSTUNREACH)
                      else do { e \<leftarrow> user_dirs os uid (pw_gid pw) path;
                        if e \<noteq> 0 then State_Monad.return (Inl e)
                        else do { r \<leftarrow> mount_with os uid (pw_gid pw) (snprintf_s 600 (''//'' @ host @ ''/'' @ share)) ip user password path;
                          case r of
                            Inl e \<Rightarrow> State_Monad.return (Inl e)
                          | Inr ok \<Rightarrow>
                              if ok then State_Monad.return (Inr path)
                              else do { _ \<leftarrow> sys os (Rmdir path); State_Monad.return (Inl EACCES) } } } })"

section \<open>Requests\<close>

definition handle_mount_result :: "net_os \<Rightarrow> nat + string \<Rightarrow> unit net" where
  "handle_mount_result os r =
     (case r of Inl e \<Rightarrow> reply_err os e ''cannot mount'' | Inr path \<Rightarrow> reply os (''OK '' @ path))"

fun tab_fields :: "nat \<Rightarrow> string \<Rightarrow> (string list \<times> string) option" where
  "tab_fields 0 p = Some ([], p)"
| "tab_fields (Suc n) p =
     (case strchr p TAB of
        None \<Rightarrow> None
      | Some q \<Rightarrow> (case tab_fields n (tl q) of None \<Rightarrow> None | Some (fs, r) \<Rightarrow> Some (before p {TAB} # fs, r)))"

definition net_logon_as :: "net_os \<Rightarrow> uid_t \<Rightarrow> string \<Rightarrow> string \<Rightarrow> string \<Rightarrow> string \<Rightarrow> unit net" where
  "net_logon_as os uid server share user password =
     (if \<not> valid_server server \<or> \<not> valid_component share \<or> user = [] \<or> length user > 200
         \<or> CHR '','' \<in> set user \<or> CHR ''='' \<in> set user
      then reply_err os EINVAL ''bad name''
      else do { r \<leftarrow> do_logon os uid server share user password; handle_mount_result os r })"

definition handle_net_logon :: "net_os \<Rightarrow> uid_t \<Rightarrow> string \<Rightarrow> unit net" where
  "handle_net_logon os uid p =
     (case tab_fields 3 p of
        Some ([server, share, user], password) \<Rightarrow> net_logon_as os uid server share user password
      | _ \<Rightarrow> reply_err os EINVAL ''bad request'')"

definition handle_mount :: "net_os \<Rightarrow> uid_t \<Rightarrow> string \<Rightarrow> string \<Rightarrow> unit net" where
  "handle_mount os uid server share =
     (if \<not> valid_server server \<or> \<not> valid_component share then reply_err os EINVAL ''bad name''
      else do { r \<leftarrow> do_mount os uid server share; handle_mount_result os r })"

definition map_target :: "string \<Rightarrow> string list \<Rightarrow> string" where
  "map_target path dirs = foldl (\<lambda>t d. snprintf_s 4096 (t @ ''/'' @ d)) (snprintf_s 4096 path) dirs"

definition make_drive :: "net_os \<Rightarrow> uid_t \<Rightarrow> char \<Rightarrow> string \<Rightarrow> unit net" where
  "make_drive os uid letter target =
     (let dir = snprintf_s 64 (DRIVE_ROOT @ ''/'' @ show_u32 uid);
          link = snprintf_s 128 (dir @ ''/'' @ [letter, CHR '':''])
      in do { e \<leftarrow> mkdirs os DRIVE_ROOT 0x1ED;
              if e \<noteq> 0 then reply_err os e ''no drive directory''
              else do { e1 \<leftarrow> sys os (Mkdir dir 0x1ED);
                if e1 \<noteq> 0 \<and> e1 \<noteq> EEXIST then reply_err os e1 ''no drive directory''
                else do { _ \<leftarrow> sys os (Unlink link);
                  e2 \<leftarrow> sys os (Symlink target link);
                  if e2 \<noteq> 0 then reply_err os e2 ''cannot map'' else reply os (''OK '' @ target) } } })"

definition handle_map :: "net_os \<Rightarrow> uid_t \<Rightarrow> string \<Rightarrow> string \<Rightarrow> string \<Rightarrow> string list \<Rightarrow> unit net" where
  "handle_map os uid l server share dirs =
     (case valid_letter l of
        None \<Rightarrow> reply_err os EINVAL ''bad name''
      | Some letter \<Rightarrow>
          if \<not> valid_server server \<or> \<not> list_all valid_component (share # dirs) then reply_err os EINVAL ''bad name''
          else do { r \<leftarrow> do_mount os uid server share;
                    case r of
                      Inl e \<Rightarrow> reply_err os e ''cannot mount''
                    | Inr path \<Rightarrow> make_drive os uid letter (map_target path dirs) })"

definition handle_unmap :: "net_os \<Rightarrow> uid_t \<Rightarrow> string \<Rightarrow> unit net" where
  "handle_unmap os uid l =
     (case valid_letter l of
        None \<Rightarrow> reply_err os EINVAL ''bad name''
      | Some letter \<Rightarrow>
          do { e \<leftarrow> sys os (Unlink (snprintf_s 128 (DRIVE_ROOT @ ''/'' @ show_u32 uid @ ''/'' @ [letter, CHR '':''])));
               if e \<noteq> 0 \<and> e \<noteq> ENOENT then reply_err os e ''cannot unmap'' else reply os ''OK'' })"

definition handle_logoff :: "net_os \<Rightarrow> uid_t \<Rightarrow> string \<Rightarrow> string \<Rightarrow> unit net" where
  "handle_logoff os uid server share =
     (if \<not> valid_server server \<or> \<not> valid_component share then reply_err os EINVAL ''bad name''
      else let path = user_path uid (lower server) (lower share)
           in do { m \<leftarrow> is_mounted os path;
                   e \<leftarrow> (if m then sys os (Umount path) else State_Monad.return 0);
                   if e \<noteq> 0 then reply_err os e ''cannot disconnect''
                   else do { _ \<leftarrow> sys os (Rmdir path); reply os ''OK'' } })"

definition handle_words :: "net_os \<Rightarrow> uid_t \<Rightarrow> string list \<Rightarrow> unit net" where
  "handle_words os uid argv =
     (case argv of
        [] \<Rightarrow> State_Monad.return ()
      | cmd # args \<Rightarrow>
          if cmd = ''MOUNT'' \<and> length args = 2 then handle_mount os uid (args ! 0) (args ! 1)
          else if cmd = ''MAP'' \<and> length args \<ge> 3 then handle_map os uid (args ! 0) (args ! 1) (args ! 2) (drop 3 args)
          else if cmd = ''UNMAP'' \<and> length args = 1 then handle_unmap os uid (args ! 0)
          else if cmd = ''LOGOFF'' \<and> length args = 2 then handle_logoff os uid (args ! 0) (args ! 1)
          else reply_err os EINVAL ''unknown request'')"

definition net_handle :: "net_os \<Rightarrow> uid_t \<Rightarrow> bytes \<Rightarrow> unit net" where
  "net_handle os uid l =
     (let line = before (cstr l) {CR, LF}
      in if starts (''LOGON'' @ [TAB]) line then handle_net_logon os uid (drop 6 line)
         else handle_words os uid (take 16 (strtok_all {TAB} line)))"

fun net_requests :: "net_os \<Rightarrow> uid_t \<Rightarrow> bytes list \<Rightarrow> unit net" where
  "net_requests os uid [] = State_Monad.return ()"
| "net_requests os uid (l # ls) = do { net_handle os uid l; net_requests os uid ls }"

definition uid_request :: "string list \<Rightarrow> string" where
  "uid_request args =
     foldl (\<lambda>req (i, a). snprintf_s 2048 (req @ (if i > 0 then [TAB] else []) @ a)) [] (enumerate 0 args)"

text \<open>\<open>peer\<close> is the uid \<open>SO_PEERCRED\<close> gives; the result is the exit status.\<close>

definition net_main :: "net_os \<Rightarrow> string list \<Rightarrow> uid_t option \<Rightarrow> bytes \<Rightarrow> nat net" where
  "net_main os argv peer inp =
     (if length argv \<ge> 3 \<and> argv ! 1 = ''--uid''
      then if nm_uid os \<noteq> 0 then State_Monad.return 2
           else do { net_handle os (strtou32 (argv ! 2)) (uid_request (drop 3 argv)); State_Monad.return 0 }
      else case peer of
             None \<Rightarrow> State_Monad.return 2
           | Some uid \<Rightarrow> do { net_requests os uid (take 32 (fgets_all 2048 inp)); State_Monad.return 0 })"

section \<open>What a request may do\<close>

text \<open>A single name in a path, and the places of mounts and drives.\<close>

definition part :: "string \<Rightarrow> bool" where
  "part s \<longleftrightarrow> s \<noteq> [] \<and> s \<noteq> ''.'' \<and> s \<noteq> ''..'' \<and> CHR ''/'' \<notin> set s"

definition own_dir :: "uid_t \<Rightarrow> string" where
  "own_dir uid = USER_ROOT @ ''/'' @ show_u32 uid"

definition drive_dir :: "uid_t \<Rightarrow> string" where
  "drive_dir uid = DRIVE_ROOT @ ''/'' @ show_u32 uid"

definition own_place :: "uid_t \<Rightarrow> string \<Rightarrow> bool" where
  "own_place uid path \<longleftrightarrow> (\<exists>server share. part server \<and> part share \<and> path = own_dir uid @ ''/unc/'' @ server @ ''/'' @ share)"

definition mount_place :: "uid_t \<Rightarrow> string \<Rightarrow> bool" where
  "mount_place uid path \<longleftrightarrow>
     own_place uid path \<or> (\<exists>server share. part server \<and> part share \<and> path = UNC_ROOT @ ''/'' @ server @ ''/'' @ share)"

definition drive_link :: "uid_t \<Rightarrow> string \<Rightarrow> bool" where
  "drive_link uid path \<longleftrightarrow> (\<exists>c. islower c \<and> c \<noteq> CHR ''c'' \<and> c \<noteq> CHR ''z'' \<and> path = drive_dir uid @ ''/'' @ [c, CHR '':''])"

definition cred_file :: "string \<Rightarrow> bool" where
  "cred_file path \<longleftrightarrow> (\<exists>x. length x = 6 \<and> list_all isalnum x \<and> path = NET_ROOT @ ''/cred.'' @ x)"

definition below :: "string \<Rightarrow> string \<Rightarrow> bool" where
  "below path t \<longleftrightarrow> (\<exists>dirs. list_all part dirs \<and> t = path @ concat (map ((#) CHR ''/'') dirs))"

text \<open>No set-user-id program and no device, and no one else's name.\<close>

definition opts_ok :: "uid_t \<Rightarrow> string \<Rightarrow> bool" where
  "opts_ok uid opts \<longleftrightarrow>
     (let fs = split_on CHR '','' opts
      in ''nosuid'' \<in> set fs \<and> ''nodev'' \<in> set fs \<and>
         (\<forall>f\<in>set fs. (starts ''uid='' f \<longrightarrow> f = ''uid='' @ show_u32 uid) \<and> (starts ''cruid='' f \<longrightarrow> f = ''cruid='' @ show_u32 uid)))"

fun allowed :: "uid_t \<Rightarrow> net_call \<Rightarrow> bool" where
  "allowed uid (Mkdir p m) =
     ((\<exists>q. (mount_place uid q \<or> q = own_dir uid \<or> q = drive_dir uid \<or> q = USER_ROOT @ ''/'') \<and> p \<in> set (dir_prefixes q @ [q])) \<and>
      (m = 0x1ED \<or> m = 0x1C0))"
| "allowed uid (Chown p u g) = (p = own_dir uid \<and> u = uid)"
| "allowed uid (Chmod p m) = (p = own_dir uid \<and> m = 0x1C0)"
| "allowed uid (Mkstemp p) = cred_file p"
| "allowed uid (Fdopen p) = cred_file p"
| "allowed uid (WriteCred p t) = False"
| "allowed uid (Mount unc p opts) = (mount_place uid p \<and> opts_ok uid opts)"
| "allowed uid (Umount p) = own_place uid p"
| "allowed uid (Rmdir p) = mount_place uid p"
| "allowed uid (Unlink p) = (drive_link uid p \<or> cred_file p)"
| "allowed uid (Symlink t l) = (drive_link uid l \<and> (\<exists>q. mount_place uid q \<and> below q t))"
| "allowed uid (Reply s) = True"

text \<open>
  The credentials file has a line for the name, one for the password and perhaps one for
  the domain, and is removed again.
\<close>

definition cred_ok :: "bytes \<Rightarrow> bool" where
  "cred_ok t \<longleftrightarrow>
     (\<exists>u p d. lines_of t = [''username='' @ u, ''password='' @ p] \<or> lines_of t = [''username='' @ u, ''password='' @ p, ''domain='' @ d])"

definition fits :: "uid_t \<Rightarrow> net_call \<Rightarrow> bool" where
  "fits uid c \<longleftrightarrow> allowed uid c \<or> (\<exists>p t. c = WriteCred p t \<and> cred_file p \<and> cred_ok t)"

definition creds_gone :: "net_call list \<Rightarrow> bool" where
  "creds_gone h \<longleftrightarrow> (\<forall>a p t b. h = a @ WriteCred p t # b \<longrightarrow> Unlink p \<in> set a)"

text \<open>\<open>getaddrinfo\<close> and \<open>inet_ntop\<close> give an IPv4 address in numbers, \<open>mkstemp\<close> six letters and digits.\<close>

definition net_sane :: "net_os \<Rightarrow> bool" where
  "net_sane os \<longleftrightarrow>
     (\<forall>host. \<forall>ip\<in>set_option (nm_addr os host). length ip \<le> 15 \<and> list_all (\<lambda>c. isdigit c \<or> c = CHR ''.'') ip) \<and>
     (\<forall>h. length (nm_suffix os h) = 6 \<and> list_all isalnum (nm_suffix os h))"

section \<open>Names and paths\<close>

lemma tolower_keeps: "tolower c = d \<Longrightarrow> \<not> islower d \<Longrightarrow> c = d"
  by (auto simp: tolower_def islower_def isupper_def split: if_splits)

lemma tolower_slash: "CHR ''/'' \<in> set (lower s) \<Longrightarrow> CHR ''/'' \<in> set s"
proof -
  assume "CHR ''/'' \<in> set (lower s)"
  then obtain c where "c \<in> set s" "tolower c = CHR ''/''" unfolding lower_def by auto
  moreover have "\<not> islower CHR ''/''" by (simp add: islower_def)
  ultimately show ?thesis using tolower_keeps by blast
qed

lemma lower_dots: "lower s = ''.'' \<Longrightarrow> s = ''.''" "lower s = ''..'' \<Longrightarrow> s = ''..''"
  by (auto simp: lower_def map_eq_Cons_conv islower_def dest!: tolower_keeps)

lemma part_lower: "part s \<Longrightarrow> part (lower s)"
proof -
  assume p: "part s"
  then have "lower s \<noteq> []" by (simp add: lower_def part_def)
  then show ?thesis using p tolower_slash[of s] lower_dots[of s] unfolding part_def by blast
qed

lemma part_server: "valid_server s \<Longrightarrow> part (lower s)"
proof (rule part_lower)
  assume v: "valid_server s"
  have "CHR ''/'' \<notin> set s" using v by (auto simp: valid_server_def list_all_iff char_class_defs)
  moreover have "s \<noteq> ''.''" "s \<noteq> ''..''" "s \<noteq> []" using v by (auto simp: valid_server_def)
  ultimately show "part s" by (simp add: part_def)
qed

lemma part_component: "valid_component s \<Longrightarrow> part s"
  by (auto simp: part_def valid_component_def list_all_iff bad_in_component_def)

lemma length_lower [simp]: "length (lower s) = length s"
  by (simp add: lower_def)

lemma length_show_u32: "length (show_u32 w) \<le> 10"
proof -
  have "n < 10 ^ k \<Longrightarrow> 0 < k \<Longrightarrow> length (show_nat n) \<le> k" for n k
  proof (induction k arbitrary: n)
    case (Suc k)
    show ?case
    proof (cases "n < 10")
      case True
      then show ?thesis by (subst show_nat.simps) simp
    next
      case False
      then have "n div 10 < 10 ^ k" "0 < k" using Suc.prems by (auto simp: less_mult_imp_div_less mult.commute intro: gr0I)
      then have "length (show_nat (n div 10)) \<le> k" by (rule Suc.IH)
      then show ?thesis using False by (subst show_nat.simps) simp
    qed
  qed simp
  from this[of "unat w" 10] show ?thesis using unat_u32_less[of w] by (simp add: show_u32_def)
qed

lemma user_path_eq:
  assumes "valid_server server" and "valid_component share"
  shows "user_path uid (lower server) (lower share) = own_dir uid @ ''/unc/'' @ lower server @ ''/'' @ lower share"
  using assms length_show_u32[of uid]
  by (simp add: user_path_def own_dir_def USER_ROOT_def NET_ROOT_def valid_server_def valid_component_def)

lemma unc_path_eq:
  assumes "valid_server server" and "valid_component share"
  shows "snprintf_s 4096 (UNC_ROOT @ ''/'' @ lower server @ ''/'' @ lower share) = UNC_ROOT @ ''/'' @ lower server @ ''/'' @ lower share"
  using assms by (simp add: UNC_ROOT_def NET_ROOT_def valid_server_def valid_component_def)

lemma own_place_user_path:
  "valid_server server \<Longrightarrow> valid_component share \<Longrightarrow> own_place uid (user_path uid (lower server) (lower share))"
  unfolding user_path_eq own_place_def using part_server part_lower part_component by blast

lemma mount_place_unc:
  "valid_server server \<Longrightarrow> valid_component share \<Longrightarrow>
     mount_place uid (snprintf_s 4096 (UNC_ROOT @ ''/'' @ lower server @ ''/'' @ lower share))"
  unfolding unc_path_eq mount_place_def using part_server part_lower part_component by blast

lemma length_mount_place:
  assumes "valid_server server" and "valid_component share"
  shows "length (user_path uid (lower server) (lower share)) \<le> 400"
    "length (snprintf_s 4096 (UNC_ROOT @ ''/'' @ lower server @ ''/'' @ lower share)) \<le> 400"
  using assms length_show_u32[of uid] unfolding user_path_eq[OF assms] unc_path_eq[OF assms]
  by (simp_all add: own_dir_def USER_ROOT_def UNC_ROOT_def NET_ROOT_def valid_server_def valid_component_def)

section \<open>Mount options\<close>

definition ip_ok :: "string \<Rightarrow> bool" where
  "ip_ok ip \<longleftrightarrow> length ip \<le> 15 \<and> list_all (\<lambda>c. isdigit c \<or> c = CHR ''.'') ip"

lemma ip_no_comma: "ip_ok ip \<Longrightarrow> CHR '','' \<notin> set ip"
  by (auto simp: ip_ok_def list_all_iff isdigit_def)

lemma show_no_comma: "CHR '','' \<notin> set (show_u32 w)"
  unfolding show_u32_def by (rule show_nat_avoids) (simp add: isdigit_def)

lemma cred_no_comma: "cred_file c \<Longrightarrow> CHR '','' \<notin> set c"
proof -
  have "CHR '','' \<notin> set x" if "list_all isalnum x" for x using that by (auto simp: list_all_iff char_class_defs dest!: bspec)
  then show "cred_file c \<Longrightarrow> ?thesis" by (auto simp: cred_file_def NET_ROOT_def)
qed

lemma krb5_fields:
  assumes "ip_ok ip"
  shows "split_on CHR '','' (snprintf_s 1024 (krb5_opts uid ip @ '',nohandlecache'')) =
    [''multiuser'', ''sec=krb5'', ''cruid='' @ show_u32 uid, ''ip='' @ ip, ''noperm'', ''file_mode=0777'', ''dir_mode=0777'',
     ''nosuid'', ''nodev'', ''nohandlecache'']"
  using assms length_show_u32[of uid]
  by (simp add: krb5_opts_def ip_ok_def split_on_field[OF show_no_comma] split_on_field[OF ip_no_comma[OF assms]])

lemma guest_fields:
  assumes "ip_ok ip"
  shows "split_on CHR '','' (snprintf_s 1024 (guest_opts ip @ '',nohandlecache'')) =
    [''guest'', ''ip='' @ ip, ''noperm'', ''file_mode=0777'', ''dir_mode=0777'', ''nosuid'', ''nodev'', ''nohandlecache'']"
  using assms
  by (simp add: guest_opts_def ip_ok_def split_on_field[OF ip_no_comma[OF assms]])

lemma logon_fields:
  assumes "ip_ok ip" and "cred_file cred"
  shows "split_on CHR '','' (snprintf_s 1024 (logon_opts cred uid gid ip @ '',nohandlecache'')) =
    [''credentials='' @ cred, ''uid='' @ show_u32 uid, ''gid='' @ show_u32 gid, ''forceuid'', ''forcegid'', ''file_mode=0600'',
     ''dir_mode=0700'', ''ip='' @ ip, ''nosuid'', ''nodev'', ''nohandlecache'']"
proof -
  have "length cred = 34" using assms(2) by (auto simp: cred_file_def NET_ROOT_def)
  then show ?thesis
    using assms length_show_u32[of uid] length_show_u32[of gid]
    by (simp add: logon_opts_def ip_ok_def split_on_field[OF show_no_comma] split_on_field[OF ip_no_comma[OF assms(1)]]
        split_on_field[OF cred_no_comma[OF assms(2)]])
qed

lemma opts_ok_krb5: "ip_ok ip \<Longrightarrow> opts_ok uid (snprintf_s 1024 (krb5_opts uid ip @ '',nohandlecache''))"
  unfolding opts_ok_def Let_def krb5_fields by (simp add: starts_def)

lemma opts_ok_guest: "ip_ok ip \<Longrightarrow> opts_ok uid (snprintf_s 1024 (guest_opts ip @ '',nohandlecache''))"
  unfolding opts_ok_def Let_def guest_fields by (simp add: starts_def)

lemma opts_ok_logon:
  "ip_ok ip \<Longrightarrow> cred_file cred \<Longrightarrow> opts_ok uid (snprintf_s 1024 (logon_opts cred uid gid ip @ '',nohandlecache''))"
  unfolding opts_ok_def Let_def logon_fields by (simp add: starts_def)

section \<open>Every call is allowed\<close>

abbreviation confined :: "uid_t \<Rightarrow> net_call list \<Rightarrow> bool" where
  "confined uid h \<equiv> list_all (fits uid) h \<and> creds_gone h"

lemma creds_gone_Cons: "creds_gone h \<Longrightarrow> (\<And>p t. c \<noteq> WriteCred p t) \<Longrightarrow> creds_gone (c # h)"
  unfolding creds_gone_def by (auto simp: Cons_eq_append_conv)

lemma sys_conf: "allowed uid c \<Longrightarrow> triple (confined uid) (sys os c) (\<lambda>_. confined uid)"
  by (rule tripleI) (auto simp: sys_def fits_def intro!: creds_gone_Cons)

lemma ret_conf: "triple (confined uid) (State_Monad.return x) (\<lambda>_. confined uid)"
  by (rule triple_return)

lemma mounted_conf: "triple (confined uid) (is_mounted os p) (\<lambda>_. confined uid)"
  by (rule tripleI) (simp add: is_mounted_def)

lemma reply_conf: "triple (confined uid) (reply os s) (\<lambda>_. confined uid)"
  unfolding reply_def by (rule triple_bind[OF sys_conf ret_conf]) simp

lemma reply_err_conf: "triple (confined uid) (reply_err os e s) (\<lambda>_. confined uid)"
  unfolding reply_err_def by (rule reply_conf)

lemma mkdir_all_conf:
  "\<forall>p\<in>set ps. allowed uid (Mkdir p m) \<Longrightarrow> triple (confined uid) (mkdir_all os m ps) (\<lambda>_. confined uid)"
proof (induction ps)
  case Nil
  show ?case by (simp add: ret_conf)
next
  case (Cons p ps)
  have "allowed uid (Mkdir p m)" "triple (confined uid) (mkdir_all os m ps) (\<lambda>_. confined uid)" using Cons by auto
  from triple_bind[OF sys_conf[OF this(1)] triple_if[OF ret_conf this(2)]] show ?case by simp
qed

lemma mkdirs_conf:
  assumes "mount_place uid q \<or> q = own_dir uid \<or> q = drive_dir uid \<or> q = USER_ROOT @ ''/''" and "length q < 4096" and "m = 0x1ED \<or> m = 0x1C0"
  shows "triple (confined uid) (mkdirs os q m) (\<lambda>_. confined uid)"
proof -
  have "\<forall>p\<in>set (dir_prefixes q @ [q]). allowed uid (Mkdir p m)" using assms(1,3) by (auto simp: Bex_def)
  from mkdir_all_conf[OF this] show ?thesis using assms(2) by (simp add: mkdirs_def Let_def)
qed

lemma run_mount_conf:
  assumes "mount_place uid path" and "opts_ok uid (snprintf_s 1024 (opts @ '',nohandlecache''))"
  shows "triple (confined uid) (run_mount os unc path opts) (\<lambda>_. confined uid)"
  unfolding run_mount_def by (rule triple_bind[OF sys_conf ret_conf]) (use assms in simp)

lemma mount_share_conf:
  assumes "mount_place uid path" and "ip_ok ip"
  shows "triple (confined uid) (mount_share os uid unc ip path) (\<lambda>_. confined uid)"
  unfolding mount_share_def
  by (rule triple_bind[OF triple_if[OF run_mount_conf[OF assms(1) opts_ok_krb5[OF assms(2)]] ret_conf]
      triple_if[OF ret_conf run_mount_conf[OF assms(1) opts_ok_guest[OF assms(2)]]]])

lemma resolve_ip: "net_sane os \<Longrightarrow> resolve os server = Some (host, ip) \<Longrightarrow> ip_ok ip"
  by (auto simp: net_sane_def resolve_def ip_ok_def split: option.splits)

lemma do_mount_conf:
  assumes "net_sane os" and "valid_server server" and "valid_component share"
  shows "triple (confined uid) (do_mount os uid server share)
    (\<lambda>r h. confined uid h \<and> (\<forall>path. r = Inr path \<longrightarrow> mount_place uid path \<and> length path \<le> 400))"
proof -
  let ?own = "user_path uid (lower server) (lower share)"
  let ?path = "snprintf_s 4096 (UNC_ROOT @ ''/'' @ lower server @ ''/'' @ lower share)"
  let ?Q = "\<lambda>r h. confined uid h \<and> (\<forall>path. r = Inr path \<longrightarrow> mount_place uid path \<and> length path \<le> 400)"
  have place: "mount_place uid ?own" "mount_place uid ?path"
    using own_place_user_path[OF assms(2,3)] mount_place_unc[OF assms(2,3)] by (auto simp: mount_place_def)
  have len: "length ?own \<le> 400" "length ?path \<le> 400" using length_mount_place[OF assms(2,3)] by blast+
  have ret: "triple (confined uid) (State_Monad.return (Inr p)) ?Q" if "mount_place uid p" "length p \<le> 400" for p
    by (rule triple_return) (use that in simp)
  have err: "triple (confined uid) (State_Monad.return (Inl (e :: nat))) ?Q" for e by (rule triple_return) simp
  have mk: "triple (confined uid) (mkdirs os ?path 0x1ED) (\<lambda>_. confined uid)"
    by (rule mkdirs_conf) (use place len in auto)
  have rm: "triple (confined uid) (sys os (Rmdir ?path)) (\<lambda>_. confined uid)" by (rule sys_conf) (use place in simp)
  note own = ret[OF place(1) len(1)]
  note path = ret[OF place(2) len(2)]
  have "triple (confined uid) (case resolve os (lower server) of
      None \<Rightarrow> State_Monad.return (Inl EHOSTUNREACH)
    | Some (host, ip) \<Rightarrow>
        if \<not> nm_reach os ip then State_Monad.return (Inl EHOSTUNREACH)
        else do { e \<leftarrow> mkdirs os ?path 0x1ED;
          if e \<noteq> 0 then State_Monad.return (Inl e)
          else do { ok \<leftarrow> mount_share os uid (snprintf_s 600 (''//'' @ host @ ''/'' @ lower share)) ip ?path;
            if ok then State_Monad.return (Inr ?path)
            else do { _ \<leftarrow> sys os (Rmdir ?path); State_Monad.return (Inl EACCES) } } }) ?Q"
  proof (cases "resolve os (lower server)")
    case None
    then show ?thesis by (simp only: option.case) (rule err)
  next
    case (Some hi)
    obtain host ip where hi: "hi = (host, ip)" by (cases hi)
    have ip: "ip_ok ip" using resolve_ip[OF assms(1)] Some hi by blast
    note share = mount_share_conf[OF place(2) ip]
    show ?thesis unfolding Some hi option.case prod.case
      by (rule triple_if[OF err triple_bind[OF mk triple_if[OF err triple_bind[OF share triple_if[OF path triple_bind[OF rm err]]]]]])
  qed
  from triple_bind[OF mounted_conf triple_if[OF own triple_bind[OF mounted_conf triple_if[OF path this]]]]
  show ?thesis unfolding do_mount_def Let_def .
qed

lemma own_dir_eq: "snprintf_s 128 (USER_ROOT @ ''/'' @ show_u32 uid) = own_dir uid"
  using length_show_u32[of uid] by (simp add: own_dir_def USER_ROOT_def NET_ROOT_def)

lemma user_dirs_conf:
  assumes "own_place uid path" and "length path \<le> 400"
  shows "triple (confined uid) (user_dirs os uid gid path) (\<lambda>_. confined uid)"
proof -
  have "length (USER_ROOT @ ''/'') < 4096" by (simp add: USER_ROOT_def NET_ROOT_def)
  then have a: "triple (confined uid) (mkdirs os (USER_ROOT @ ''/'') 0x1ED) (\<lambda>_. confined uid)" by (intro mkdirs_conf) auto
  have b: "triple (confined uid) (mkdirs os path 0x1ED) (\<lambda>_. confined uid)"
    by (rule mkdirs_conf) (use assms in \<open>auto simp: mount_place_def\<close>)
  have c: "triple (confined uid) (sys os (Mkdir (own_dir uid) 0x1C0)) (\<lambda>_. confined uid)" by (rule sys_conf) auto
  have d: "triple (confined uid) (sys os (Chown (own_dir uid) uid gid)) (\<lambda>_. confined uid)"
    "triple (confined uid) (sys os (Chmod (own_dir uid) 0x1C0)) (\<lambda>_. confined uid)" by (rule sys_conf, simp)+
  show ?thesis unfolding user_dirs_def Let_def own_dir_eq
    by (rule triple_bind[OF a triple_if[OF ret_conf triple_bind[OF c triple_if[OF ret_conf
          triple_bind[OF d(1) triple_if[OF ret_conf triple_bind[OF d(2) triple_if[OF ret_conf b]]]]]]]])
qed

lemma strchr_tl_set: "strchr s c = Some t \<Longrightarrow> set (tl t) \<subseteq> set s"
proof -
  assume "strchr s c = Some t"
  then have "t = dropWhile (\<lambda>x. x \<noteq> c) s" by (simp add: strchr_def split: list.splits)
  then have "set t \<subseteq> set s" by (auto dest: set_dropWhileD)
  moreover have "set (tl t) \<subseteq> set t" by (cases t) auto
  ultimately show ?thesis by blast
qed

lemma cred_text_ok:
  assumes "LF \<notin> set user" and "LF \<notin> set password"
  shows "cred_ok (cred_text user password)"
proof -
  have "set (cred_name user) \<subseteq> set user"
    using strchr_tl_set[of user BSL] by (auto simp: cred_name_def snprintf_s_def split: option.splits dest!: in_set_takeD)
  moreover have "set (cred_domain user) \<subseteq> set user"
    by (auto simp: cred_domain_def snprintf_s_def before_def split: option.splits dest!: in_set_takeD dest: set_takeWhileD)
  ultimately have no: "LF \<notin> set (''username='' @ cred_name user)" "LF \<notin> set (''password='' @ password)" "LF \<notin> set (''domain='' @ cred_domain user)"
    using assms by auto
  have two: "lines_of (''username='' @ cred_name user @ [LF] @ ''password='' @ password @ [LF] @ rest)
      = [''username='' @ cred_name user, ''password='' @ password] @ lines_of rest" for rest
    using lines_of_line[OF no(1), of "''password='' @ password @ [LF] @ rest"] lines_of_line[OF no(2), of rest] by simp
  have three: "lines_of (''domain='' @ cred_domain user @ [LF]) = [''domain='' @ cred_domain user]"
    using lines_of_line[OF no(3), of "[]"] by simp
  show ?thesis
  proof (cases "cred_domain user = []")
    case True
    then show ?thesis unfolding cred_ok_def cred_text_def two by (intro exI disjI1) simp
  next
    case False
    then show ?thesis unfolding cred_ok_def cred_text_def two using three by (intro exI disjI2) simp
  qed
qed

lemma use_cred_conf:
  assumes "cred_file cred" and "cred_ok t" and "own_place uid path" and "ip_ok ip"
  shows "triple (confined uid) (do { _ \<leftarrow> sys os (WriteCred cred t);
                      ok \<leftarrow> run_mount os unc path (logon_opts cred uid gid ip);
                      _ \<leftarrow> sys os (Unlink cred);
                      State_Monad.return (Inr ok) }) (\<lambda>_. confined uid)"
proof (rule tripleI)
  fix h assume h: "confined uid h"
  define opts where "opts = snprintf_s 1024 (logon_opts cred uid gid ip @ '',nohandlecache'')"
  have "opts_ok uid opts" unfolding opts_def by (rule opts_ok_logon[OF assms(4,1)])
  then have "list_all (fits uid) (Unlink cred # Mount unc path opts # WriteCred cred t # h)"
    using h assms by (simp add: fits_def mount_place_def)
  moreover have "creds_gone (Unlink cred # Mount unc path opts # WriteCred cred t # h)"
    using h by (auto simp: creds_gone_def Cons_eq_append_conv)
  ultimately show "case run_state (do { _ \<leftarrow> sys os (WriteCred cred t);
                      ok \<leftarrow> run_mount os unc path (logon_opts cred uid gid ip);
                      _ \<leftarrow> sys os (Unlink cred);
                      State_Monad.return (Inr ok) }) h of (a, h') \<Rightarrow> confined uid h'"
    by (simp add: sys_def run_mount_def opts_def)
qed

lemma mount_with_conf:
  assumes "net_sane os" and "own_place uid path" and "ip_ok ip" and "LF \<notin> set user" and "LF \<notin> set password"
  shows "triple (confined uid) (mount_with os uid gid unc ip user password path) (\<lambda>_. confined uid)"
proof -
  have cred: "cred_file (NET_ROOT @ ''/cred.'' @ nm_suffix os h)" for h using assms(1) by (auto simp: net_sane_def cred_file_def)
  then have c: "triple (confined uid) (sys os (Mkstemp (NET_ROOT @ ''/cred.'' @ nm_suffix os h))) (\<lambda>_. confined uid)"
    "triple (confined uid) (sys os (Fdopen (NET_ROOT @ ''/cred.'' @ nm_suffix os h))) (\<lambda>_. confined uid)" for h
    by (auto intro!: sys_conf simp del: append_assoc)
  have g: "triple (confined uid) State_Monad.get (\<lambda>_. confined uid)" by (rule tripleI) (simp add: State_Monad.get_def)
  show ?thesis unfolding mount_with_def Let_def
    by (rule triple_bind[OF g triple_bind[OF c(1) triple_if[OF ret_conf triple_bind[OF c(2) triple_if[OF ret_conf
          use_cred_conf[OF cred cred_text_ok[OF assms(4,5)] assms(2,3)]]]]]])
qed

lemma do_logon_conf:
  assumes "net_sane os" and "valid_server server" and "valid_component share" and "LF \<notin> set user" and "LF \<notin> set password"
  shows "triple (confined uid) (do_logon os uid server share user password) (\<lambda>_. confined uid)"
proof (cases "getpwuid (nm_accounts os) uid")
  case None
  then show ?thesis unfolding do_logon_def by (simp only: option.case) (rule ret_conf)
next
  case (Some pw)
  let ?path = "user_path uid (lower server) (lower share)"
  have place: "own_place uid ?path" "length ?path \<le> 400"
    using own_place_user_path[OF assms(2,3)] length_mount_place(1)[OF assms(2,3)] by blast+
  have um: "triple (confined uid) (if m then sys os (Umount ?path) else State_Monad.return 0) (\<lambda>_. confined uid)" for m
    by (rule triple_if[OF sys_conf ret_conf]) (use place in simp)
  have rm: "triple (confined uid) (sys os (Rmdir ?path)) (\<lambda>_. confined uid)" by (rule sys_conf) (use place in \<open>simp add: mount_place_def\<close>)
  have rest: "triple (confined uid) (case r of Inl e \<Rightarrow> State_Monad.return (Inl e)
      | Inr ok \<Rightarrow> if ok then State_Monad.return (Inr ?path)
                else do { _ \<leftarrow> sys os (Rmdir ?path); State_Monad.return (Inl EACCES) }) (\<lambda>_. confined uid)" for r :: "nat + bool"
    by (cases r) (simp_all only: sum.case, rule ret_conf, rule triple_if[OF ret_conf triple_bind[OF rm ret_conf]])
  have "triple (confined uid) (case resolve os (lower server) of
      None \<Rightarrow> State_Monad.return (Inl EHOSTUNREACH)
    | Some (host, ip) \<Rightarrow>
        if \<not> nm_reach os ip then State_Monad.return (Inl EHOSTUNREACH)
        else do { e \<leftarrow> user_dirs os uid (pw_gid pw) ?path;
          if e \<noteq> 0 then State_Monad.return (Inl e)
          else do { r \<leftarrow> mount_with os uid (pw_gid pw) (snprintf_s 600 (''//'' @ host @ ''/'' @ lower share)) ip user password ?path;
            case r of Inl e \<Rightarrow> State_Monad.return (Inl e)
            | Inr ok \<Rightarrow> if ok then State_Monad.return (Inr ?path)
                else do { _ \<leftarrow> sys os (Rmdir ?path); State_Monad.return (Inl EACCES) } } }) (\<lambda>_. confined uid)"
  proof (cases "resolve os (lower server)")
    case None
    then show ?thesis by (simp only: option.case) (rule ret_conf)
  next
    case (Some hi)
    obtain host ip where hi: "hi = (host, ip)" by (cases hi)
    have ip: "ip_ok ip" using resolve_ip[OF assms(1)] Some hi by blast
    show ?thesis unfolding Some hi option.case prod.case
      by (rule triple_if[OF ret_conf triple_bind[OF user_dirs_conf[OF place] triple_if[OF ret_conf
            triple_bind[OF mount_with_conf[OF assms(1) place(1) ip assms(4,5)] rest]]]])
  qed
  from triple_bind[OF mounted_conf triple_bind[OF um this]] show ?thesis
    unfolding do_logon_def Some option.case Let_def .
qed

lemma map_target_eq:
  "list_all valid_component dirs \<Longrightarrow> length path + 81 * length dirs < 4096 \<Longrightarrow> map_target path dirs = path @ concat (map ((#) CHR ''/'') dirs)"
proof (induction dirs arbitrary: path)
  case (Cons d dirs)
  have d: "length d \<le> 80" using Cons.prems(1) by (simp add: valid_component_def)
  have "map_target path (d # dirs) = map_target (path @ ''/'' @ d) dirs" using Cons.prems(2) d by (simp add: map_target_def)
  also have "\<dots> = (path @ ''/'' @ d) @ concat (map ((#) CHR ''/'') dirs)"
    by (rule Cons.IH) (use Cons.prems d in simp_all)
  finally show ?case by simp
qed (simp add: map_target_def)

lemma drive_dir_eq: "snprintf_s 64 (DRIVE_ROOT @ ''/'' @ show_u32 uid) = drive_dir uid"
  using length_show_u32[of uid] by (simp add: drive_dir_def DRIVE_ROOT_def NET_ROOT_def)

lemma link_eq: "snprintf_s 128 (drive_dir uid @ ''/'' @ [l, CHR '':'']) = drive_dir uid @ ''/'' @ [l, CHR '':'']"
  using length_show_u32[of uid] by (simp add: drive_dir_def DRIVE_ROOT_def NET_ROOT_def)

lemma drive_letter: "valid_letter s = Some l \<Longrightarrow> drive_link uid (drive_dir uid @ ''/'' @ [l, CHR '':''])"
proof -
  assume "valid_letter s = Some l"
  then obtain c where "isalpha c" "l = tolower c" "l \<noteq> CHR ''c''" "l \<noteq> CHR ''z''"
    by (auto simp: valid_letter_def split: list.splits if_splits)
  moreover have "islower (tolower c)" if "isalpha c" for c using that by (auto simp: tolower_def char_class_defs)
  ultimately show ?thesis unfolding drive_link_def by blast
qed

lemma dir_prefixes_more:
  assumes "p \<in> set (dir_prefixes a @ [a])" and "a \<noteq> []"
  shows "p \<in> set (dir_prefixes (a @ CHR ''/'' # b))"
proof -
  let ?q = "a @ CHR ''/'' # b"
  have "\<exists>i. 1 \<le> i \<and> i < length ?q \<and> ?q ! i = CHR ''/'' \<and> p = take i ?q"
  proof (cases "p = a")
    case True
    have "1 \<le> length a" using assms(2) by (cases a) simp_all
    then show ?thesis using True by (intro exI[of _ "length a"]) simp
  next
    case False
    then obtain i where "1 \<le> i" "i < length a" "a ! i = CHR ''/''" "p = take i a"
      using assms(1) by (auto simp: dir_prefixes_def)
    then show ?thesis by (intro exI[of _ i]) (simp add: nth_append)
  qed
  then show ?thesis by (auto simp: dir_prefixes_def)
qed

lemma dir_prefix_drives: "p \<in> set (dir_prefixes DRIVE_ROOT @ [DRIVE_ROOT]) \<Longrightarrow> p \<in> set (dir_prefixes (drive_dir uid))"
proof -
  have "DRIVE_ROOT \<noteq> []" by (simp add: DRIVE_ROOT_def NET_ROOT_def)
  moreover have "drive_dir uid = DRIVE_ROOT @ CHR ''/'' # show_u32 uid" by (simp add: drive_dir_def)
  ultimately show "p \<in> set (dir_prefixes DRIVE_ROOT @ [DRIVE_ROOT]) \<Longrightarrow> ?thesis" using dir_prefixes_more by metis
qed

lemma make_drive_conf:
  assumes "drive_link uid (drive_dir uid @ ''/'' @ [l, CHR '':''])" and "mount_place uid q" and "below q t"
  shows "triple (confined uid) (make_drive os uid l t) (\<lambda>_. confined uid)"
proof -
  have "length DRIVE_ROOT < 4096" by (simp add: DRIVE_ROOT_def NET_ROOT_def)
  moreover have "\<forall>p\<in>set (dir_prefixes DRIVE_ROOT @ [DRIVE_ROOT]). allowed uid (Mkdir p 0x1ED)"
  proof
    fix p assume "p \<in> set (dir_prefixes DRIVE_ROOT @ [DRIVE_ROOT])"
    from dir_prefix_drives[OF this] have "p \<in> set (dir_prefixes (drive_dir uid) @ [drive_dir uid])" by simp
    then show "allowed uid (Mkdir p 0x1ED)" unfolding allowed.simps by (intro conjI exI[of _ "drive_dir uid"] disjI1 disjI2 refl)
  qed
  ultimately have mk: "triple (confined uid) (mkdirs os DRIVE_ROOT 0x1ED) (\<lambda>_. confined uid)"
    using mkdir_all_conf[of "dir_prefixes DRIVE_ROOT @ [DRIVE_ROOT]" uid] by (simp add: mkdirs_def Let_def)
  have c: "triple (confined uid) (sys os (Mkdir (drive_dir uid) 0x1ED)) (\<lambda>_. confined uid)" by (rule sys_conf) auto
  have u: "triple (confined uid) (sys os (Unlink (drive_dir uid @ ''/'' @ [l, CHR '':'']))) (\<lambda>_. confined uid)"
    using assms(1) by (intro sys_conf) simp
  have s: "triple (confined uid) (sys os (Symlink t (drive_dir uid @ ''/'' @ [l, CHR '':'']))) (\<lambda>_. confined uid)"
    using assms by (intro sys_conf) auto
  show ?thesis unfolding make_drive_def Let_def drive_dir_eq link_eq
    by (rule triple_bind[OF mk triple_if[OF reply_err_conf triple_bind[OF c triple_if[OF reply_err_conf
          triple_bind[OF u triple_bind[OF s triple_if[OF reply_err_conf reply_conf]]]]]]])
qed

lemma result_conf: "triple (confined uid) (handle_mount_result os r) (\<lambda>_. confined uid)"
  unfolding handle_mount_result_def by (cases r) (simp_all only: sum.case reply_err_conf reply_conf)

lemma handle_mount_conf: "net_sane os \<Longrightarrow> triple (confined uid) (handle_mount os uid server share) (\<lambda>_. confined uid)"
proof -
  assume s: "net_sane os"
  show ?thesis
  proof (cases "valid_server server \<and> valid_component share")
    case True
    from triple_bind[OF triple_post[OF do_mount_conf[OF s]] result_conf, of server share uid] True
    show ?thesis unfolding handle_mount_def by (simp only: simp_thms if_False)
  next
    case False
    then show ?thesis unfolding handle_mount_def by (simp add: reply_err_conf)
  qed
qed

lemma tab_fields_set: "tab_fields n p = Some (fs, r) \<Longrightarrow> set r \<subseteq> set p \<and> (\<forall>f\<in>set fs. set f \<subseteq> set p)"
proof (induction n arbitrary: p fs r)
  case (Suc n)
  obtain q fs' where q: "strchr p TAB = Some q" "tab_fields n (tl q) = Some (fs', r)" "fs = before p {TAB} # fs'"
    using Suc.prems by (auto split: option.splits)
  have "set (tl q) \<subseteq> set p" using strchr_tl_set[OF q(1)] .
  moreover have "set (before p {TAB}) \<subseteq> set p" by (auto simp: before_def dest: set_takeWhileD)
  ultimately show ?case using Suc.IH[OF q(2)] q(3) by fastforce
qed simp

lemma net_logon_as_conf:
  assumes s: "net_sane os" and no: "LF \<notin> set user" "LF \<notin> set password"
  shows "triple (confined uid) (net_logon_as os uid server share user password) (\<lambda>_. confined uid)"
proof (cases "valid_server server \<and> valid_component share")
  case True
  then have v: "valid_server server" "valid_component share" by simp_all
  show ?thesis unfolding net_logon_as_def
    by (rule triple_if[OF reply_err_conf triple_bind[OF do_logon_conf[OF s v no] result_conf]])
next
  case False
  then have c: "(\<not> valid_server server \<or> \<not> valid_component share \<or> user = [] \<or> length user > 200
         \<or> CHR '','' \<in> set user \<or> CHR ''='' \<in> set user) = True" by blast
  show ?thesis unfolding net_logon_as_def c if_True by (rule reply_err_conf)
qed

lemma handle_net_logon_conf:
  assumes s: "net_sane os" and no: "LF \<notin> set p"
  shows "triple (confined uid) (handle_net_logon os uid p) (\<lambda>_. confined uid)"
proof -
  have "triple (confined uid) (net_logon_as os uid server share user password) (\<lambda>_. confined uid)"
    if "tab_fields 3 p = Some ([server, share, user], password)" for server share user password
  proof (rule net_logon_as_conf[OF s])
    show "LF \<notin> set user" "LF \<notin> set password" using tab_fields_set[OF that] no by auto
  qed
  then show ?thesis unfolding handle_net_logon_def
    by (auto intro: reply_err_conf split: option.split prod.split list.split)
qed

lemma handle_map_conf:
  "net_sane os \<Longrightarrow> length dirs \<le> 12 \<Longrightarrow> triple (confined uid) (handle_map os uid l server share dirs) (\<lambda>_. confined uid)"
proof -
  assume s: "net_sane os" and n: "length dirs \<le> 12"
  have "triple (confined uid) (do { r \<leftarrow> do_mount os uid server share;
      case r of Inl e \<Rightarrow> reply_err os e ''cannot mount''
              | Inr path \<Rightarrow> make_drive os uid letter (map_target path dirs) }) (\<lambda>_. confined uid)"
    if "valid_letter l = Some letter" "valid_server server" "list_all valid_component (share # dirs)" for letter
  proof (rule triple_bind[OF do_mount_conf[OF s that(2)]])
    show "valid_component share" using that(3) by simp
    fix r :: "nat + string"
    show "triple (\<lambda>h. confined uid h \<and> (\<forall>path. r = Inr path \<longrightarrow> mount_place uid path \<and> length path \<le> 400))
      (case r of Inl e \<Rightarrow> reply_err os e ''cannot mount'' | Inr path \<Rightarrow> make_drive os uid letter (map_target path dirs)) (\<lambda>_. confined uid)"
    proof (rule triple_fact, cases r)
      case (Inl e)
      then show "triple (confined uid) (case r of Inl e \<Rightarrow> reply_err os e ''cannot mount''
        | Inr path \<Rightarrow> make_drive os uid letter (map_target path dirs)) (\<lambda>_. confined uid)" by (simp only: sum.case) (rule reply_err_conf)
    next
      case (Inr path)
      assume "\<forall>path. r = Inr path \<longrightarrow> mount_place uid path \<and> length path \<le> 400"
      then have p: "mount_place uid path" "length path \<le> 400" using Inr by auto
      have "map_target path dirs = path @ concat (map ((#) CHR ''/'') dirs)"
        by (rule map_target_eq) (use that(3) n p in simp_all)
      then have "below path (map_target path dirs)"
        using that(3) part_component by (auto simp: below_def list_all_iff)
      from make_drive_conf[OF drive_letter[OF that(1)] p(1) this]
      show "triple (confined uid) (case r of Inl e \<Rightarrow> reply_err os e ''cannot mount''
        | Inr path \<Rightarrow> make_drive os uid letter (map_target path dirs)) (\<lambda>_. confined uid)" unfolding Inr sum.case .
    qed
  qed
  then show ?thesis unfolding handle_map_def
    by (cases "valid_letter l") (simp_all only: option.case reply_err_conf if_True if_False de_Morgan_disj not_not split: if_split, blast)
qed

lemma handle_unmap_conf: "triple (confined uid) (handle_unmap os uid l) (\<lambda>_. confined uid)"
proof (cases "valid_letter l")
  case None
  then show ?thesis unfolding handle_unmap_def by (simp add: reply_err_conf)
next
  case (Some c)
  have "triple (confined uid) (sys os (Unlink (drive_dir uid @ ''/'' @ [c, CHR '':'']))) (\<lambda>_. confined uid)"
    using drive_letter[OF Some] by (intro sys_conf) simp
  moreover have "snprintf_s 128 (DRIVE_ROOT @ ''/'' @ show_u32 uid @ ''/'' @ [c, CHR '':'']) = drive_dir uid @ ''/'' @ [c, CHR '':'']"
    using link_eq[of uid c] unfolding drive_dir_def append_assoc .
  ultimately show ?thesis unfolding handle_unmap_def Some option.case
    by (simp only:) (rule triple_bind[OF _ triple_if[OF reply_err_conf reply_conf]])
qed

lemma handle_logoff_conf: "triple (confined uid) (handle_logoff os uid server share) (\<lambda>_. confined uid)"
proof (cases "valid_server server \<and> valid_component share")
  case True
  have place: "own_place uid (user_path uid (lower server) (lower share))" using own_place_user_path True by blast
  have um: "triple (confined uid) (if m then sys os (Umount (user_path uid (lower server) (lower share))) else State_Monad.return 0)
      (\<lambda>_. confined uid)" for m
    by (rule triple_if[OF sys_conf ret_conf]) (use place in simp)
  have rm: "triple (confined uid) (sys os (Rmdir (user_path uid (lower server) (lower share)))) (\<lambda>_. confined uid)"
    by (rule sys_conf) (use place in \<open>simp add: mount_place_def\<close>)
  note r = triple_bind[OF mounted_conf triple_bind[OF um triple_if[OF reply_err_conf triple_bind[OF rm reply_conf]]]]
  show ?thesis unfolding handle_logoff_def Let_def by (rule triple_if[OF reply_err_conf r])
next
  case False
  then show ?thesis unfolding handle_logoff_def by (simp add: reply_err_conf)
qed

lemma net_handle_conf: "net_sane os \<Longrightarrow> triple (confined uid) (net_handle os uid l) (\<lambda>_. confined uid)"
proof -
  assume s: "net_sane os"
  have "triple (confined uid) (handle_words os uid argv) (\<lambda>_. confined uid)" if "length argv \<le> 16" for argv
  proof (cases argv)
    case (Cons cmd args)
    have "length (drop 3 args) \<le> 12" using that Cons by simp
    then show ?thesis unfolding handle_words_def Cons list.case
      by (intro triple_if handle_mount_conf[OF s] handle_map_conf[OF s] handle_unmap_conf handle_logoff_conf reply_err_conf)
  qed (simp add: handle_words_def ret_conf)
  moreover have "LF \<notin> set (drop 6 (before (cstr l) {CR, LF}))" by (auto simp: before_def dest!: in_set_dropD set_takeWhileD)
  ultimately show ?thesis unfolding net_handle_def Let_def by (intro triple_if handle_net_logon_conf[OF s]) simp_all
qed

lemma net_requests_conf: "net_sane os \<Longrightarrow> triple (confined uid) (net_requests os uid ls) (\<lambda>_. confined uid)"
proof (induction ls)
  case (Cons l ls)
  then show ?case unfolding net_requests.simps by (intro triple_bind[OF net_handle_conf]) simp_all
qed (simp add: ret_conf)


section \<open>Reading the table of mounts\<close>

text \<open>
  A line of \<open>/proc/self/mountinfo\<close>: four fields, the mount point with its spaces, tabs,
  newlines and backslashes in octal, and the rest.
\<close>

record mount_entry =
  me_head :: "string list"
  me_point :: string
  me_tail :: string

definition mangle_char :: "char \<Rightarrow> string" where
  "mangle_char c =
     (if c = CHR '' '' then BSL # ''040'' else if c = TAB then BSL # ''011'' else if c = LF then BSL # ''012''
      else if c = BSL then BSL # ''134'' else [c])"

definition entry_line :: "mount_entry \<Rightarrow> string" where
  "entry_line e = concat (map (\<lambda>f. f @ '' '') (me_head e)) @ concat (map mangle_char (me_point e)) @ '' '' @ me_tail e"

definition entry_ok :: "mount_entry \<Rightarrow> bool" where
  "entry_ok e \<longleftrightarrow>
     length (me_head e) = 4 \<and> (\<forall>f\<in>set (me_head e). CHR '' '' \<notin> set f \<and> LF \<notin> set f \<and> nul_free f) \<and>
     nul_free (me_point e) \<and> LF \<notin> set (me_tail e) \<and> nul_free (me_tail e) \<and> length (entry_line e) < 4095"

lemma octal_chars:
  "octal_char CHR ''0'' CHR ''4'' CHR ''0'' = CHR '' ''" "octal_char CHR ''0'' CHR ''1'' CHR ''1'' = TAB"
  "octal_char CHR ''0'' CHR ''1'' CHR ''2'' = LF" "octal_char CHR ''1'' CHR ''3'' CHR ''4'' = BSL"
  by (simp_all add: octal_char_def signed_char_def) code_simp+

lemma unmangle_char: "unmangle (Suc n) (mangle_char c @ p) = c # unmangle n p"
  by (simp add: mangle_char_def octal_chars)

lemma unmangle_mangle: "length p \<le> n \<Longrightarrow> unmangle n (concat (map mangle_char p) @ '' '' @ rest) = p"
proof (induction p arbitrary: n)
  case (Cons c p)
  then obtain m where "n = Suc m" "length p \<le> m" by (cases n) auto
  then show ?case using Cons.IH unmangle_char[of m c "concat (map mangle_char p) @ '' '' @ rest"] by simp
qed simp

lemma skip_fields_head:
  "\<forall>f\<in>set fs. CHR '' '' \<notin> set f \<Longrightarrow> skip_fields (length fs) (concat (map (\<lambda>f. f @ '' '') fs) @ s) = Some s"
  by (induction fs) (simp_all add: strchr_split)

lemma mangle_char_clean: "c \<noteq> NUL \<Longrightarrow> LF \<notin> set (mangle_char c) \<and> nul_free (mangle_char c)"
  by (simp add: mangle_char_def)

lemma entry_line_clean: "entry_ok e \<Longrightarrow> LF \<notin> set (entry_line e) \<and> nul_free (entry_line e)"
proof -
  assume e: "entry_ok e"
  have m: "LF \<notin> set (concat (map mangle_char p)) \<and> nul_free (concat (map mangle_char p))" if "nul_free p" for p
    using that mangle_char_clean by (induction p) simp_all
  have f: "LF \<notin> set (concat (map (\<lambda>f. f @ '' '') fs)) \<and> nul_free (concat (map (\<lambda>f. f @ '' '') fs))"
    if "\<forall>f\<in>set fs. LF \<notin> set f \<and> nul_free f" for fs using that by (induction fs) simp_all
  show ?thesis using e m[of "me_point e"] f[of "me_head e"] by (simp add: entry_ok_def entry_line_def)
qed

lemma length_mangle: "length p \<le> length (concat (map mangle_char p))"
  by (induction p) (auto simp: mangle_char_def)

lemma entry_read: "entry_ok e \<Longrightarrow> map_option mount_point (skip_fields 4 (cstr (entry_line e @ [LF]))) = Some (me_point e)"
proof -
  assume e: "entry_ok e"
  have "nul_free (entry_line e @ [LF])" using entry_line_clean[OF e] by simp
  then have "cstr (entry_line e @ [LF]) = entry_line e @ [LF]" by (rule cstr_whole)
  moreover have "skip_fields 4 (entry_line e @ [LF]) = Some (concat (map mangle_char (me_point e)) @ '' '' @ me_tail e @ [LF])"
    using skip_fields_head[of "me_head e" "concat (map mangle_char (me_point e)) @ '' '' @ me_tail e @ [LF]"] e
    by (simp add: entry_ok_def entry_line_def)
  moreover have "length (me_point e) \<le> 4095"
    using length_mangle[of "me_point e"] e by (simp add: entry_ok_def entry_line_def)
  moreover have "nul_free (me_point e)" using e by (simp add: entry_ok_def)
  ultimately show ?thesis using unmangle_mangle by (simp add: mount_point_def cstr_whole)
qed

lemma fgets_line:
  assumes "LF \<notin> set l" and "length l < sz - 1"
  shows "fgets sz (l @ LF # r) = (l @ [LF], r)"
proof -
  have t: "take (sz - 1) (l @ LF # r) = l @ LF # take (sz - 1 - length l - 1) r" using assms(2) by (simp add: take_Cons')
  have "takeWhile (\<lambda>c. c \<noteq> LF) (take (sz - 1) (l @ LF # r)) = l"
    unfolding t using assms(1) before_split[of l "{LF}" LF] by (simp add: before_def)
  then show ?thesis using t by (simp add: fgets_def Let_def)
qed

lemma fgets_all_lines:
  "\<forall>l\<in>set ls. LF \<notin> set l \<and> length l < sz - 1 \<Longrightarrow> fgets_all sz (concat (map (\<lambda>l. l @ [LF]) ls)) = map (\<lambda>l. l @ [LF]) ls"
proof (induction ls)
  case (Cons l ls)
  then have "fgets sz (concat (map (\<lambda>l. l @ [LF]) (l # ls))) = (l @ [LF], concat (map (\<lambda>l. l @ [LF]) ls))"
    using fgets_line[of l sz "concat (map (\<lambda>l. l @ [LF]) ls)"] by simp
  moreover have "\<not> sz < 2" using Cons.prems by auto
  ultimately show ?case using Cons by (subst fgets_all.simps) simp
qed (simp add: fgets_all.simps)

text \<open>
  A share counts as mounted exactly when the kernel's table has its path as a mount
  point: for every table of mounts, with whatever spaces, tabs, newlines and backslashes in
  the paths, whose lines fit the buffer.
\<close>

theorem is_mounted_exact:
  assumes "nm_mountinfo os h = Some (concat (map (\<lambda>e. entry_line e @ [LF]) entries))" and "\<forall>e\<in>set entries. entry_ok e"
  shows "run_state (is_mounted os path) h = (path \<in> me_point ` set entries, h)"
proof -
  have "\<forall>l\<in>set (map entry_line entries). LF \<notin> set l \<and> length l < 4096 - 1"
    using assms(2) entry_line_clean by (auto simp: entry_ok_def)
  from fgets_all_lines[OF this]
  have "fgets_all 4096 (concat (map (\<lambda>e. entry_line e @ [LF]) entries)) = map (\<lambda>e. entry_line e @ [LF]) entries"
    by (simp add: comp_def)
  note read = this
  define F where "F = (\<lambda>l. map_option mount_point (skip_fields 4 (cstr l)))"
  have "F (entry_line e @ [LF]) = Some (me_point e)" if "e \<in> set entries" for e
    unfolding F_def using assms(2) that entry_read by blast
  then have "list_ex (\<lambda>l. F l = Some path) (map (\<lambda>e. entry_line e @ [LF]) entries) = (path \<in> me_point ` set entries)"
    by (auto simp: list_ex_iff)
  note ex = this
  show ?thesis unfolding is_mounted_def state.sel assms(1) option.case read ex[unfolded F_def] ..
qed

section \<open>An example\<close>

definition ex_entry :: mount_entry where
  "ex_entry = \<lparr>me_head = [''36'', ''35'', ''0:40'', ''/''], me_point = ''/run/stained-glass-net/unc/nas/My Files'', me_tail = ''rw''\<rparr>"

definition ex_net_os :: net_os where
  "ex_net_os = \<lparr>nm_accounts = ex_accounts, nm_role = None, nm_addr = (\<lambda>_. Some ''192.0.2.7''), nm_srv = (\<lambda>_. None), nm_reach = (\<lambda>_. True),
     nm_mountinfo = (\<lambda>_. Some (concat (map (\<lambda>e. entry_line e @ [LF]) [ex_entry]))), nm_errno = (\<lambda>_ _. 0),
     nm_suffix = (\<lambda>_. ''aB3xY9''), nm_uid = 0\<rparr>"

definition ex_net_in :: bytes where
  "ex_net_in = ''LOGON'' @ [TAB] @ ''nas'' @ [TAB] @ ''Photos'' @ [TAB] @ ''alice'' @ [TAB] @ ''secret'' @ [LF]"

lemma ex_net_sane: "net_sane ex_net_os"
  by (simp add: net_sane_def ex_net_os_def char_class_defs)


theorem is_mounted_exact_witness:
  "run_state (is_mounted ex_net_os ''/run/stained-glass-net/unc/nas/My Files'') [] = (True, [])"
proof -
  have "nm_mountinfo ex_net_os [] = Some (concat (map (\<lambda>e. entry_line e @ [LF]) [ex_entry]))" by (simp add: ex_net_os_def)
  moreover have "\<forall>e\<in>set [ex_entry]. entry_ok e"
    by (simp add: entry_ok_def ex_entry_def entry_line_def mangle_char_def)
  ultimately have "run_state (is_mounted ex_net_os ''/run/stained-glass-net/unc/nas/My Files'') []
      = (''/run/stained-glass-net/unc/nas/My Files'' \<in> me_point ` set [ex_entry], [])" by (rule is_mounted_exact)
  then show ?thesis by (simp add: ex_entry_def)
qed

section \<open>Without a ticket\<close>

text \<open>On a domain, a share that the requester's ticket does not open is mounted as a guest.\<close>

lemma mount_share_guest:
  assumes "fst (read_role os 256) \<noteq> []"
    and "nm_errno os h (Mount unc path (snprintf_s 1024 (krb5_opts uid ip @ '',nohandlecache''))) \<noteq> 0"
  shows "\<exists>krb5 guest. run_state (mount_share os uid unc ip path) h =
    (nm_errno os (Mount unc path krb5 # h) (Mount unc path guest) = 0, [Mount unc path guest, Mount unc path krb5] @ h) \<and>
    guest = snprintf_s 1024 (guest_opts ip @ '',nohandlecache'')"
  using assms by (simp add: mount_share_def run_mount_def sys_def)

end
