(* ===== verification/Sg_Stream.thy ===== *)
theory Sg_Stream
  imports Sg_Planar
begin

text \<open>
  One remote-desktop stream (\<open>src/rdp/sg-rdp-stream.c\<close>): what the compositor grants, the
  captured frames and the tiles sent to the client, and the client's keys, buttons and
  pointer.  A frame is the list of its bytes; every operation gives the stream after it and
  what goes out.  The memory calls and whether FreeRDP takes an update are parameters.
\<close>

record bitmap =
  destLeft :: u32
  destTop :: u32
  destRight :: u32
  destBottom :: u32
  bm_width :: u32
  bm_height :: u32
  bm_compressed :: bool
  bm_stream :: "u8 list"

datatype stream_out =
    Capture
  | CopyFrame bool
  | Update "bitmap list"
  | KeyOut u32 bool
  | ModsOut
  | MotionOut u32 u32 u32 u32
  | ButtonOut u32 bool
  | AxisOut bool int int

record stream =
  st_shm :: bool
  st_seat :: bool
  st_output :: "u32 option"
  st_out_w :: "32 word"
  st_out_h :: "32 word"
  st_screencopy :: bool
  st_pointer_manager :: "u32 option"
  st_keyboard_manager :: bool
  st_view_only :: bool
  st_frame :: bool
  st_width :: u32
  st_height :: u32
  st_stride :: u32
  st_flags :: u32
  st_offered :: bool
  st_buffer :: "(u32 \<times> u32 \<times> u32) option"
  st_size :: nat
  st_data :: "u8 list"
  st_prev :: "u8 list"
  st_have_prev :: bool
  st_reading :: bool
  st_gone :: bool
  st_context :: bool
  st_planar :: bool
  st_keys :: "bool list"
  st_buttons :: u32

record stream_os =
  so_buffer :: "nat \<Rightarrow> bool"
  so_prev :: "nat \<Rightarrow> bool"
  so_junk :: "nat \<Rightarrow> u8 list"
  so_row :: bool
  so_tiles :: bool
  so_tile :: "u32 \<Rightarrow> u32 \<Rightarrow> bool"
  so_update :: "bitmap list \<Rightarrow> bool"
  so_max_request :: u32

definition TILE :: u32 where "TILE = 64"
definition MAX_KEYS :: u32 where "MAX_KEYS = 256"
definition BTN_LEFT :: u32 where "BTN_LEFT = 0x110"
definition BTN_TASK :: u32 where "BTN_TASK = 0x117"
definition KEY_LEFTSHIFT :: u32 where "KEY_LEFTSHIFT = 42"

section \<open>What the compositor grants\<close>

datatype wl_iface = Wl_shm | Wl_seat | Wl_output | Screencopy_manager | Pointer_manager | Keyboard_manager | Other_iface

definition output_mode :: "u32 \<Rightarrow> 32 word \<Rightarrow> 32 word \<Rightarrow> stream \<Rightarrow> stream" where
  "output_mode flags w h s = (if bit flags 0 then s\<lparr>st_out_w := w, st_out_h := h\<rparr> else s)"

fun registry_global :: "u32 \<Rightarrow> wl_iface \<Rightarrow> u32 \<Rightarrow> stream \<Rightarrow> stream" where
  "registry_global name Wl_shm version s = s\<lparr>st_shm := True\<rparr>"
| "registry_global name Wl_seat version s = s\<lparr>st_seat := True\<rparr>"
| "registry_global name Wl_output version s =
     (case st_output s of
        None \<Rightarrow> s\<lparr>st_out_w := 0, st_out_h := 0, st_output := Some name\<rparr>
      | Some g \<Rightarrow> if name > g then s\<lparr>st_out_w := 0, st_out_h := 0, st_output := Some name\<rparr> else s)"
| "registry_global name Screencopy_manager version s = (if version \<ge> 3 then s\<lparr>st_screencopy := True\<rparr> else s)"
| "registry_global name Pointer_manager version s = s\<lparr>st_pointer_manager := Some (if version < 2 then version else 2)\<rparr>"
| "registry_global name Keyboard_manager version s = s\<lparr>st_keyboard_manager := True\<rparr>"
| "registry_global name Other_iface version s = s"

datatype stream_error = Closed | No_capture | No_screen | No_input

text \<open>
  The end of \<open>sg_stream_new\<close>, after the round trips: \<open>made\<close> says that the virtual pointer,
  keyboard and keymap could be made, \<open>alive\<close> that the compositor answers.
\<close>

definition sg_stream_new :: "bool \<Rightarrow> bool \<Rightarrow> bool \<Rightarrow> stream \<Rightarrow> stream_error + stream" where
  "sg_stream_new alive made alive_after s =
     (if \<not> alive then Inl Closed
      else if \<not> st_screencopy s then Inl No_capture
      else if \<not> st_shm s \<or> \<not> st_seat s \<or> st_output s = None \<or> sint (st_out_w s) \<le> 0 \<or> sint (st_out_h s) \<le> 0 then Inl No_screen
      else if st_pointer_manager s = None \<or> \<not> st_keyboard_manager s then Inr (s\<lparr>st_view_only := True\<rparr>)
      else if \<not> made then Inl No_input
      else if \<not> alive_after then Inl Closed
      else Inr s)"

section \<open>Capturing\<close>

definition request_frame :: "stream \<Rightarrow> stream \<times> stream_out list" where
  "request_frame s =
     (if st_frame s then (s, [])
      else (s\<lparr>st_offered := False, st_flags := 0, st_frame := True\<rparr>, [Capture]))"

definition free_buffer :: "stream \<Rightarrow> stream" where
  "free_buffer s = s\<lparr>st_buffer := None, st_data := [], st_prev := [], st_size := 0, st_have_prev := False\<rparr>"

definition make_buffer :: "stream_os \<Rightarrow> stream \<Rightarrow> bool \<times> stream" where
  "make_buffer os s =
     (let size = unat (st_stride s) * unat (st_height s)
      in if st_buffer s \<noteq> None \<and> st_size s = size then (True, s)
         else if \<not> so_buffer os size then (False, free_buffer s)
         else let s' = (free_buffer s)\<lparr>st_data := replicate size 0, st_buffer := Some (st_width s, st_height s, st_stride s),
                         st_size := size\<rparr>
              in if \<not> so_prev os size then (False, s')
                 else (True, s'\<lparr>st_prev := so_junk os size, st_have_prev := False\<rparr>))"

text \<open>\<open>known\<close>: XRGB8888 or ARGB8888.\<close>

definition frame_buffer :: "bool \<Rightarrow> u32 \<Rightarrow> u32 \<Rightarrow> u32 \<Rightarrow> stream \<Rightarrow> stream" where
  "frame_buffer known w h stride s =
     (if \<not> known then s else s\<lparr>st_width := w, st_height := h, st_stride := stride, st_offered := True\<rparr>)"

definition frame_flags :: "u32 \<Rightarrow> stream \<Rightarrow> stream" where
  "frame_flags flags s = s\<lparr>st_flags := flags\<rparr>"

definition frame_buffer_done :: "stream_os \<Rightarrow> stream \<Rightarrow> stream \<times> stream_out list" where
  "frame_buffer_done os s =
     (if \<not> st_offered s then (s\<lparr>st_gone := True\<rparr>, [])
      else case make_buffer os s of
             (False, s') \<Rightarrow> (s'\<lparr>st_gone := True\<rparr>, [])
           | (True, s') \<Rightarrow> (s', [CopyFrame (st_have_prev s')]))"

text \<open>\<open>n\<close> bytes at \<open>off\<close> copied from one buffer to another.\<close>

definition copy_bytes :: "nat \<Rightarrow> nat \<Rightarrow> u8 list \<Rightarrow> u8 list \<Rightarrow> u8 list" where
  "copy_bytes off n src dst = take off dst @ take n (drop off src) @ drop (off + n) dst"

definition put_row :: "nat \<Rightarrow> u8 list \<Rightarrow> u8 list \<Rightarrow> u8 list" where
  "put_row off row d = take off d @ row @ drop (off + length row) d"

definition swap_rows :: "nat \<Rightarrow> nat \<Rightarrow> u8 list \<Rightarrow> nat \<Rightarrow> u8 list" where
  "swap_rows stride height d y =
     (let a = y * stride; b = (height - 1 - y) * stride; row = take stride (drop a d)
      in put_row b row (put_row a (take stride (drop b d)) d))"

definition flip_rows :: "stream_os \<Rightarrow> stream \<Rightarrow> stream" where
  "flip_rows os s =
     (if \<not> so_row os then s
      else s\<lparr>st_data := foldl (swap_rows (unat (st_stride s)) (unat (st_height s))) (st_data s) [0..<unat (st_height s) div 2]\<rparr>)"

section \<open>Tiles\<close>

definition tile_off :: "stream \<Rightarrow> u32 \<Rightarrow> u32 \<Rightarrow> nat \<Rightarrow> nat" where
  "tile_off s x y r = (unat y + r) * unat (st_stride s) + unat x * 4"

definition tile_changed :: "stream \<Rightarrow> u32 \<Rightarrow> u32 \<Rightarrow> u32 \<Rightarrow> u32 \<Rightarrow> bool" where
  "tile_changed s x y w h \<longleftrightarrow>
     \<not> st_have_prev s \<or>
     list_ex (\<lambda>r. take (unat w * 4) (drop (tile_off s x y r) (st_data s)) \<noteq> take (unat w * 4) (drop (tile_off s x y r) (st_prev s)))
       [0..<unat h]"

definition remember_tile :: "u32 \<Rightarrow> u32 \<Rightarrow> u32 \<Rightarrow> u32 \<Rightarrow> stream \<Rightarrow> stream" where
  "remember_tile x y w h s =
     s\<lparr>st_prev := foldl (\<lambda>p r. copy_bytes (tile_off s x y r) (unat w * 4) (st_data s) p) (st_prev s) [0..<unat h]\<rparr>"

definition raw_row :: "stream \<Rightarrow> u32 \<Rightarrow> u32 \<Rightarrow> u32 \<Rightarrow> nat \<Rightarrow> u8 list" where
  "raw_row s x y w r =
     concat (map (\<lambda>c. take 3 (drop (tile_off s x y r + c * 4) (st_data s)) @ [0xff]) [0..<unat w])"

definition encode_tile :: "stream_os \<Rightarrow> stream \<Rightarrow> u32 \<Rightarrow> u32 \<Rightarrow> u32 \<Rightarrow> u32 \<Rightarrow> u8 list option" where
  "encode_tile os s x y w h =
     (if st_planar s
      then let bs = sg_planar_encode (drop (tile_off s x y 0) (st_data s)) (unat (st_stride s)) w h
           in if bs = [] \<or> \<not> so_tile os x y then None else Some bs
      else if \<not> so_tile os x y then None
      else Some (concat (map (raw_row s x y w) (rev [0..<unat h]))))"

definition tile_side :: "u32 \<Rightarrow> u32 \<Rightarrow> u32" where
  "tile_side side p = (if side - p < TILE then side - p else TILE)"

definition tile_bitmap :: "stream \<Rightarrow> u32 \<Rightarrow> u32 \<Rightarrow> u32 \<Rightarrow> u32 \<Rightarrow> u8 list \<Rightarrow> bitmap" where
  "tile_bitmap s x y w h bs =
     \<lparr>destLeft = x, destTop = y, destRight = x + w - 1, destBottom = y + h - 1, bm_width = w, bm_height = h,
      bm_compressed = st_planar s, bm_stream = bs\<rparr>"

text \<open>The frame being sent: the stream, the tiles not yet sent, their bytes, the updates sent.\<close>

record sending =
  sn_stream :: stream
  sn_tiles :: "bitmap list"
  sn_bytes :: u32
  sn_sent :: "bitmap list list"

definition send_tile :: "stream_os \<Rightarrow> u32 \<Rightarrow> nat \<times> nat \<Rightarrow> sending \<Rightarrow> bool \<times> sending" where
  "send_tile os mx t f =
     (let s = sn_stream f; x = word_of_nat (fst t) * TILE; y = word_of_nat (snd t) * TILE;
          w = tile_side (st_width s) x; h = tile_side (st_height s) y
      in if \<not> tile_changed s x y w h then (True, f)
         else case encode_tile os s x y w h of
                None \<Rightarrow> (True, f)
              | Some bs \<Rightarrow>
                  let size = word_of_nat (length bs); full = sn_tiles f \<noteq> [] \<and> sn_bytes f + size + 64 > mx - 1024
                  in if full \<and> \<not> so_update os (sn_tiles f)
                     then (False, f\<lparr>sn_stream := s\<lparr>st_gone := True\<rparr>, sn_tiles := [], sn_sent := sn_sent f @ [sn_tiles f]\<rparr>)
                     else (True, \<lparr>sn_stream = remember_tile x y w h s,
                                  sn_tiles = (if full then [] else sn_tiles f) @ [tile_bitmap s x y w h bs],
                                  sn_bytes = (if full then 0 else sn_bytes f) + size + 64,
                                  sn_sent = (if full then sn_sent f @ [sn_tiles f] else sn_sent f)\<rparr>))"

fun send_tiles :: "stream_os \<Rightarrow> u32 \<Rightarrow> (nat \<times> nat) list \<Rightarrow> sending \<Rightarrow> bool \<times> sending" where
  "send_tiles os mx [] f = (True, f)"
| "send_tiles os mx (t # ts) f =
     (case send_tile os mx t f of (False, f') \<Rightarrow> (False, f') | (True, f') \<Rightarrow> send_tiles os mx ts f')"

definition frame_tiles :: "stream \<Rightarrow> (nat \<times> nat) list" where
  "frame_tiles s =
     (let cols = unat ((st_width s + TILE - 1) div TILE); rows = unat ((st_height s + TILE - 1) div TILE)
      in concat (map (\<lambda>ty. map (\<lambda>tx. (tx, ty)) [0..<cols]) [0..<rows]))"

definition send_frame :: "stream_os \<Rightarrow> stream \<Rightarrow> stream \<times> stream_out list" where
  "send_frame os s =
     (let mx = (if so_max_request os < 16384 then 16384 else so_max_request os)
      in if \<not> so_tiles os then (s, [])
         else case send_tiles os mx (frame_tiles s) \<lparr>sn_stream = s, sn_tiles = [], sn_bytes = 0, sn_sent = []\<rparr> of
                (False, f) \<Rightarrow> (sn_stream f, map Update (sn_sent f))
              | (True, f) \<Rightarrow>
                  let last_ok = sn_tiles f = [] \<or> so_update os (sn_tiles f)
                  in ((sn_stream f)\<lparr>st_gone := st_gone (sn_stream f) \<or> \<not> last_ok, st_have_prev := True\<rparr>,
                      map Update (sn_sent f @ (if sn_tiles f = [] then [] else [sn_tiles f]))))"

text \<open>\<open>data\<close> is what the compositor wrote to the shared buffer.\<close>

definition frame_ready :: "stream_os \<Rightarrow> u8 list \<Rightarrow> stream \<Rightarrow> stream \<times> stream_out list" where
  "frame_ready os data s =
     (let s1 = s\<lparr>st_frame := False, st_data := data\<rparr>;
          s2 = (if bit (st_flags s1) 0 then flip_rows os s1 else s1);
          (s3, out) = (if st_context s2 then send_frame os s2 else (s2, []));
          (s4, out') = (if st_gone s3 then (s3, []) else request_frame s3)
      in (s4, out @ out'))"

definition frame_failed :: "stream \<Rightarrow> stream \<times> stream_out list" where
  "frame_failed s =
     (let s1 = s\<lparr>st_frame := False, st_have_prev := False\<rparr> in if st_gone s1 then (s1, []) else request_frame s1)"

definition client_takes_planar :: "string option \<Rightarrow> bool \<Rightarrow> u32 \<Rightarrow> bool" where
  "client_takes_planar codec skip_alpha depth \<longleftrightarrow> codec \<noteq> Some ''raw'' \<and> skip_alpha \<and> depth = 32"

definition sg_stream_start :: "bool \<Rightarrow> bool \<Rightarrow> stream \<Rightarrow> stream \<times> stream_out list" where
  "sg_stream_start planar can_alloc s =
     request_frame (s\<lparr>st_context := True, st_planar := planar \<and> can_alloc, st_have_prev := False\<rparr>)"

section \<open>Input\<close>

definition sg_stream_key :: "u32 \<Rightarrow> bool \<Rightarrow> stream \<Rightarrow> stream \<times> stream_out list" where
  "sg_stream_key evdev down s =
     (if st_gone s \<or> st_view_only s \<or> evdev = 0 \<or> evdev \<ge> MAX_KEYS then (s, [])
      else if \<not> down \<and> \<not> st_keys s ! unat evdev then (s, [])
      else (s\<lparr>st_keys := (st_keys s)[unat evdev := down]\<rparr>, [KeyOut evdev down, ModsOut]))"

definition then_do :: "(stream \<Rightarrow> stream \<times> stream_out list) \<Rightarrow> stream \<times> stream_out list \<Rightarrow> stream \<times> stream_out list" where
  "then_do f r = (case r of (s, out) \<Rightarrow> (case f s of (s', out') \<Rightarrow> (s', out @ out')))"

text \<open>
  \<open>keysym\<close> is the symbol of the character (\<open>None\<close> for no symbol), \<open>keymap level\<close> the keys of a
  level in order with their first symbol.
\<close>

definition sg_stream_unicode :: "(nat \<Rightarrow> (u32 \<times> u32) list) \<Rightarrow> u32 option \<Rightarrow> stream \<Rightarrow> stream \<times> stream_out list" where
  "sg_stream_unicode keymap keysym s =
     (if st_gone s \<or> st_view_only s \<or> keysym = None then (s, [])
      else case find (\<lambda>(level, kc, k). Some k = keysym) (map (Pair 0) (keymap 0) @ map (Pair (1 :: nat)) (keymap 1)) of
             None \<Rightarrow> (s, [])
           | Some (level, kc, _) \<Rightarrow>
               then_do (if level = 1 then sg_stream_key KEY_LEFTSHIFT False else (\<lambda>s. (s, [])))
                 (then_do (sg_stream_key (kc - 8) False)
                   (then_do (sg_stream_key (kc - 8) True)
                     (if level = 1 then sg_stream_key KEY_LEFTSHIFT True s else (s, [])))))"

definition sg_stream_motion :: "u32 \<Rightarrow> u32 \<Rightarrow> stream \<Rightarrow> stream \<times> stream_out list" where
  "sg_stream_motion x y s =
     (if st_gone s \<or> st_view_only s then (s, [])
      else (s, [MotionOut (if x \<ge> st_out_w s then st_out_w s - 1 else x) (if y \<ge> st_out_h s then st_out_h s - 1 else y)
                  (st_out_w s) (st_out_h s)]))"

definition sg_stream_button :: "u32 \<Rightarrow> bool \<Rightarrow> stream \<Rightarrow> stream \<times> stream_out list" where
  "sg_stream_button button down s =
     (if st_gone s \<or> st_view_only s \<or> button < BTN_LEFT \<or> button > BTN_TASK then (s, [])
      else let n = unat (button - BTN_LEFT)
           in if \<not> down \<and> \<not> bit (st_buttons s) n then (s, [])
              else (s\<lparr>st_buttons := (if down then set_bit n (st_buttons s) else unset_bit n (st_buttons s))\<rparr>, [ButtonOut button down]))"

definition sg_stream_wheel :: "bool \<Rightarrow> int \<Rightarrow> stream \<Rightarrow> stream \<times> stream_out list" where
  "sg_stream_wheel horizontal steps s =
     (if st_gone s \<or> st_view_only s \<or> steps = 0 then (s, []) else (s, [AxisOut horizontal (15 * steps * 256) steps]))"

definition release_key :: "stream \<times> stream_out list \<Rightarrow> nat \<Rightarrow> stream \<times> stream_out list" where
  "release_key r k = (if st_keys (fst r) ! k then then_do (sg_stream_key (word_of_nat k) False) r else r)"

definition release_button :: "stream \<times> stream_out list \<Rightarrow> nat \<Rightarrow> stream \<times> stream_out list" where
  "release_button r b =
     (if bit (st_buttons (fst r)) b then then_do (sg_stream_button (BTN_LEFT + word_of_nat b) False) r else r)"

definition sg_stream_release_all :: "stream \<Rightarrow> stream \<times> stream_out list" where
  "sg_stream_release_all s = foldl release_button (foldl release_key (s, []) [0..<256]) [0..<32]"

text \<open>What the stream still sends as it is closed.\<close>

definition sg_stream_free :: "stream \<Rightarrow> stream_out list" where
  "sg_stream_free s = (if st_gone s then [] else snd (sg_stream_release_all s))"

section \<open>Waiting for the compositor\<close>

text \<open>
  A dispatch handles the events that have come, by the handlers above, or fails (\<open>None\<close>).
  The list has one for each time the connection was not ready to be read.
\<close>

type_synonym dispatch = "stream \<Rightarrow> (stream \<times> stream_out list) option"

definition dispatched :: "dispatch \<Rightarrow> stream \<Rightarrow> bool \<times> stream \<times> stream_out list" where
  "dispatched d s = (case d s of None \<Rightarrow> (False, s\<lparr>st_gone := True\<rparr>, []) | Some r \<Rightarrow> (True, r))"

definition sg_stream_prepare :: "dispatch list \<Rightarrow> stream \<Rightarrow> stream \<times> stream_out list" where
  "sg_stream_prepare pending s =
     (if st_gone s \<or> st_reading s then (s, [])
      else let (ok, r) = foldl (\<lambda>(ok, r) d. if ok then (case dispatched d (fst r) of (ok', s', out) \<Rightarrow> (ok', s', snd r @ out)) else (ok, r))
                           (True, s, []) pending
           in if ok then ((fst r)\<lparr>st_reading := True\<rparr>, snd r) else r)"

definition sg_stream_after_wait :: "bool \<Rightarrow> bool \<Rightarrow> dispatch \<Rightarrow> bool \<Rightarrow> stream \<Rightarrow> bool \<times> stream \<times> stream_out list" where
  "sg_stream_after_wait readable can_read d can_flush s =
     (if st_gone s then (False, s, [])
      else if st_reading s \<and> readable \<and> \<not> can_read then (False, s\<lparr>st_reading := False, st_gone := True\<rparr>, [])
      else case dispatched d (s\<lparr>st_reading := False\<rparr>) of
             (False, r) \<Rightarrow> (False, r)
           | (True, s', out) \<Rightarrow> if can_flush then (\<not> st_gone s', s', out) else (False, s'\<lparr>st_gone := True\<rparr>, out))"

section \<open>Keys and buttons\<close>

text \<open>What the session feels: the keys and the buttons held down, and whether only those are let go.\<close>

definition feel :: "u32 set \<times> u32 set \<Rightarrow> stream_out \<Rightarrow> u32 set \<times> u32 set" where
  "feel kb e =
     (case e of
        KeyOut k d \<Rightarrow> (if d then insert k (fst kb) else fst kb - {k}, snd kb)
      | ButtonOut b d \<Rightarrow> (fst kb, if d then insert b (snd kb) else snd kb - {b})
      | _ \<Rightarrow> kb)"

fun lets_go :: "u32 set \<times> u32 set \<Rightarrow> stream_out list \<Rightarrow> bool" where
  "lets_go kb [] = True"
| "lets_go kb (e # es) =
     ((case e of KeyOut k d \<Rightarrow> d \<or> k \<in> fst kb | ButtonOut b d \<Rightarrow> d \<or> b \<in> snd kb | _ \<Rightarrow> True) \<and> lets_go (feel kb e) es)"

lemma lets_go_append: "lets_go kb (es @ fs) \<longleftrightarrow> lets_go kb es \<and> lets_go (foldl feel kb es) fs"
  by (induction es arbitrary: kb) auto

definition in_hand :: "stream \<Rightarrow> u32 set \<times> u32 set \<Rightarrow> bool" where
  "in_hand s kb \<longleftrightarrow>
     kb = ({k. k < MAX_KEYS \<and> st_keys s ! unat k}, {b. BTN_LEFT \<le> b \<and> b \<le> BTN_TASK \<and> bit (st_buttons s) (unat (b - BTN_LEFT))}) \<and>
     length (st_keys s) = 256 \<and> \<not> st_keys s ! 0 \<and> (\<forall>n\<ge>8. \<not> bit (st_buttons s) n)"

text \<open>An operation after which the stream still knows what the session feels.\<close>

definition felt :: "stream \<Rightarrow> u32 set \<times> u32 set \<Rightarrow> stream \<times> stream_out list \<Rightarrow> bool" where
  "felt s kb r \<longleftrightarrow>
     in_hand (fst r) (foldl feel kb (snd r)) \<and> lets_go kb (snd r) \<and> st_gone (fst r) = st_gone s \<and> st_view_only (fst r) = st_view_only s"

definition keeps_hand :: "(stream \<Rightarrow> stream \<times> stream_out list) \<Rightarrow> bool" where
  "keeps_hand f \<longleftrightarrow> (\<forall>s kb. in_hand s kb \<longrightarrow> felt s kb (f s))"

lemma felt_then: "felt s kb r \<Longrightarrow> keeps_hand f \<Longrightarrow> felt s kb (then_do f r)"
proof -
  assume r: "felt s kb r" and f: "keeps_hand f"
  obtain t out where rp: "r = (t, out)" by (cases r)
  obtain t' out' where fp: "f t = (t', out')" by (cases "f t")
  have "in_hand t (foldl feel kb out)" using r by (simp add: felt_def rp)
  then have "felt t (foldl feel kb out) (t', out')" using f unfolding keeps_hand_def fp[symmetric] by blast
  then show ?thesis using r by (simp add: then_do_def rp fp felt_def lets_go_append)
qed

lemma keeps_hand_none: "keeps_hand (\<lambda>s. (s, []))"
  by (simp add: keeps_hand_def felt_def)

lemma keeps_hand_then: "keeps_hand f \<Longrightarrow> keeps_hand g \<Longrightarrow> keeps_hand (\<lambda>s. then_do g (f s))"
  using felt_then by (simp add: keeps_hand_def)

lemma small_key: "k < MAX_KEYS \<Longrightarrow> unat k < 256"
  by (simp add: MAX_KEYS_def word_less_nat_alt)

lemma keeps_hand_key: "keeps_hand (sg_stream_key k d)"
  unfolding keeps_hand_def
proof (intro allI impI)
  fix s kb assume h: "in_hand s kb"
  show "felt s kb (sg_stream_key k d s)"
  proof (cases "st_gone s \<or> st_view_only s \<or> k = 0 \<or> k \<ge> MAX_KEYS \<or> \<not> d \<and> \<not> st_keys s ! unat k")
    case True
    then show ?thesis using h by (auto simp: sg_stream_key_def felt_def)
  next
    case False
    then have r: "sg_stream_key k d s = (s\<lparr>st_keys := (st_keys s)[unat k := d]\<rparr>, [KeyOut k d, ModsOut])"
      by (auto simp: sg_stream_key_def)
    have k: "k < MAX_KEYS" "unat k < 256" "unat k \<noteq> 0" using False small_key[of k] by (auto simp: not_le unat_eq_0)
    have l: "length (st_keys s) = 256" using h by (simp add: in_hand_def)
    have "{j. j < MAX_KEYS \<and> (st_keys s)[unat k := d] ! unat j} =
        (if d then insert k {j. j < MAX_KEYS \<and> st_keys s ! unat j} else {j. j < MAX_KEYS \<and> st_keys s ! unat j} - {k})"
      using k l small_key by (auto simp: nth_list_update word_unat_eq_iff split: if_splits)
    then have "in_hand (fst (sg_stream_key k d s)) (foldl feel kb (snd (sg_stream_key k d s)))"
      using h k unfolding r by (simp add: in_hand_def feel_def)
    moreover have "lets_go kb (snd (sg_stream_key k d s))" using h k False unfolding r by (simp add: in_hand_def)
    ultimately show ?thesis by (simp add: r felt_def)
  qed
qed

lemma button_index: "BTN_LEFT \<le> b \<Longrightarrow> b \<le> BTN_TASK \<Longrightarrow> unat (b - BTN_LEFT) < 8 \<and> unat (b - BTN_LEFT) = unat b - 272"
  by (auto simp: BTN_LEFT_def BTN_TASK_def word_le_nat_alt unat_sub)

lemma keeps_hand_button: "keeps_hand (sg_stream_button b d)"
  unfolding keeps_hand_def
proof (intro allI impI)
  fix s kb assume h: "in_hand s kb"
  let ?n = "unat (b - BTN_LEFT)"
  show "felt s kb (sg_stream_button b d s)"
  proof (cases "st_gone s \<or> st_view_only s \<or> b < BTN_LEFT \<or> b > BTN_TASK \<or> \<not> d \<and> \<not> bit (st_buttons s) ?n")
    case True
    then show ?thesis using h by (auto simp: sg_stream_button_def Let_def felt_def)
  next
    case False
    define bs where "bs = (if d then set_bit ?n (st_buttons s) else unset_bit ?n (st_buttons s))"
    have r: "sg_stream_button b d s = (s\<lparr>st_buttons := bs\<rparr>, [ButtonOut b d])"
      using False by (auto simp: sg_stream_button_def Let_def bs_def)
    have b: "BTN_LEFT \<le> b" "b \<le> BTN_TASK" "?n < 8" using False button_index[of b] by (auto simp: not_less)
    have bits: "bit bs n = (if n = ?n then d else bit (st_buttons s) n)" for n
      using b(3) by (auto simp: bs_def bit_set_bit_iff bit_unset_bit_iff possible_bit_def)
    have inj: "unat (c - BTN_LEFT) = ?n \<longleftrightarrow> c = b" for c by (simp add: word_unat_eq_iff[symmetric])
    have "{c. BTN_LEFT \<le> c \<and> c \<le> BTN_TASK \<and> bit bs (unat (c - BTN_LEFT))} =
        (if d then insert b {c. BTN_LEFT \<le> c \<and> c \<le> BTN_TASK \<and> bit (st_buttons s) (unat (c - BTN_LEFT))}
         else {c. BTN_LEFT \<le> c \<and> c \<le> BTN_TASK \<and> bit (st_buttons s) (unat (c - BTN_LEFT))} - {b})"
      using b by (auto simp: bits inj split: if_splits)
    then have "in_hand (fst (sg_stream_button b d s)) (foldl feel kb (snd (sg_stream_button b d s)))"
      using h b(3) unfolding r by (auto simp: in_hand_def feel_def bits)
    moreover have "lets_go kb (snd (sg_stream_button b d s))" using h b False unfolding r by (simp add: in_hand_def)
    ultimately show ?thesis by (simp add: r felt_def)
  qed
qed

lemma keeps_hand_motion: "keeps_hand (sg_stream_motion x y)"
  by (simp add: keeps_hand_def felt_def sg_stream_motion_def feel_def)

lemma keeps_hand_wheel: "keeps_hand (sg_stream_wheel hz n)"
  by (simp add: keeps_hand_def felt_def sg_stream_wheel_def feel_def)

lemma keeps_hand_unicode: "keeps_hand (sg_stream_unicode keymap keysym)"
proof -
  have "felt s kb (sg_stream_unicode keymap keysym s)" if h: "in_hand s kb" for s kb
  proof -
    have none: "felt s kb (s, [])" using h by (simp add: felt_def)
    have "felt s kb (then_do (if level = (1 :: nat) then sg_stream_key KEY_LEFTSHIFT False else (\<lambda>s. (s, [])))
                 (then_do (sg_stream_key (kc - 8) False)
                   (then_do (sg_stream_key (kc - 8) True)
                     (if level = 1 then sg_stream_key KEY_LEFTSHIFT True s else (s, [])))))" for level kc
    proof -
      have "felt s kb (if level = 1 then sg_stream_key KEY_LEFTSHIFT True s else (s, []))"
        using keeps_hand_key[of KEY_LEFTSHIFT True] h none unfolding keeps_hand_def by (cases kb) simp
      moreover have "keeps_hand (if level = 1 then sg_stream_key KEY_LEFTSHIFT False else (\<lambda>s. (s, [])))"
        using keeps_hand_key keeps_hand_none by simp
      ultimately show ?thesis using keeps_hand_key by (intro felt_then)
    qed
    then show ?thesis using none by (simp add: sg_stream_unicode_def split: option.split prod.split)
  qed
  then show ?thesis by (simp add: keeps_hand_def)
qed

datatype stream_in =
    InKey u32 bool
  | InUnicode "u32 option"
  | InMotion u32 u32
  | InButton u32 bool
  | InWheel bool int

fun stream_input :: "(nat \<Rightarrow> (u32 \<times> u32) list) \<Rightarrow> stream_in \<Rightarrow> stream \<Rightarrow> stream \<times> stream_out list" where
  "stream_input keymap (InKey k d) = sg_stream_key k d"
| "stream_input keymap (InUnicode u) = sg_stream_unicode keymap u"
| "stream_input keymap (InMotion x y) = sg_stream_motion x y"
| "stream_input keymap (InButton b d) = sg_stream_button b d"
| "stream_input keymap (InWheel hz n) = sg_stream_wheel hz n"

lemma keeps_hand_input: "keeps_hand (stream_input keymap i)"
  by (cases i) (simp_all add: keeps_hand_key keeps_hand_unicode keeps_hand_motion keeps_hand_button keeps_hand_wheel)

definition stream_inputs :: "(nat \<Rightarrow> (u32 \<times> u32) list) \<Rightarrow> stream_in list \<Rightarrow> stream \<Rightarrow> stream \<times> stream_out list" where
  "stream_inputs keymap ins s = foldl (\<lambda>r i. then_do (stream_input keymap i) r) (s, []) ins"

lemma felt_inputs: "felt s kb r \<Longrightarrow> felt s kb (foldl (\<lambda>r i. then_do (stream_input keymap i) r) r ins)"
  by (induction ins arbitrary: r) (simp_all add: felt_then keeps_hand_input)

text \<open>Letting everything go.\<close>

definition live :: "stream \<Rightarrow> bool" where
  "live s \<longleftrightarrow> \<not> st_gone s \<and> \<not> st_view_only s"

lemma felt_live: "felt s kb r \<Longrightarrow> live s \<Longrightarrow> live (fst r)"
  by (simp add: felt_def live_def)

lemma felt_release_key: "felt s kb r \<Longrightarrow> felt s kb (release_key r k)"
  by (simp add: release_key_def felt_then keeps_hand_key)

lemma felt_release_button: "felt s kb r \<Longrightarrow> felt s kb (release_button r b)"
  by (simp add: release_button_def felt_then keeps_hand_button)

lemma release_key_up:
  assumes "felt s kb r" and "live s" and "k < 256"
  shows "st_keys (fst (release_key r k)) = (st_keys (fst r))[k := False]"
proof -
  obtain t out where r: "r = (t, out)" by (cases r)
  have live: "live t" using felt_live[OF assms(1,2)] by (simp add: r)
  have h: "\<not> st_keys t ! 0" "length (st_keys t) = 256" using assms(1) by (simp_all add: felt_def in_hand_def r)
  have k: "unat (word_of_nat k :: u32) = k" using assms(3) by (simp add: unat_of_nat)
  show "st_keys (fst (release_key r k)) = (st_keys (fst r))[k := False]"
  proof (cases "st_keys t ! k")
    case True
    then have "k \<noteq> 0" using h by (cases k) simp_all
    then have "(word_of_nat k :: u32) \<noteq> 0" "(word_of_nat k :: u32) < MAX_KEYS"
      using k assms(3) by (auto simp: MAX_KEYS_def word_less_nat_alt)
    then have "sg_stream_key (word_of_nat k) False t = (t\<lparr>st_keys := (st_keys t)[k := False]\<rparr>, [KeyOut (word_of_nat k) False, ModsOut])"
      using live True k by (simp add: sg_stream_key_def live_def)
    then show "st_keys (fst (release_key r k)) = (st_keys (fst r))[k := False]"
      using True by (simp add: release_key_def then_do_def r)
  next
    case False
    then have "(st_keys t)[k := False] = st_keys t" by (metis list_update_id)
    with False show "st_keys (fst (release_key r k)) = (st_keys (fst r))[k := False]"
      by (simp add: release_key_def r)
  qed
qed

lemma release_keys_up:
  assumes "felt s kb r" and "live s" and "n \<le> 256"
  shows "felt s kb (foldl release_key r [0..<n]) \<and> (\<forall>k<n. \<not> st_keys (fst (foldl release_key r [0..<n])) ! k)"
  using assms(3)
proof (induction n)
  case 0
  show ?case using assms(1) by simp
next
  case (Suc n)
  let ?r = "foldl release_key r [0..<n]"
  have f: "felt s kb ?r" "\<forall>k<n. \<not> st_keys (fst ?r) ! k" using Suc by simp_all
  have "length (st_keys (fst ?r)) = 256" using f(1) by (simp add: felt_def in_hand_def)
  then show ?case using release_key_up[OF f(1) assms(2), of n] f Suc.prems felt_release_key[OF f(1)]
    by (auto simp: nth_list_update less_Suc_eq)
qed

lemma release_button_up:
  assumes "felt s kb r" and "live s"
  shows "st_keys (fst (release_button r b)) = st_keys (fst r)"
    "bit (st_buttons (fst (release_button r b))) n \<longleftrightarrow> bit (st_buttons (fst r)) n \<and> n \<noteq> b"
proof -
  obtain t out where r: "r = (t, out)" by (cases r)
  have live: "live t" using felt_live[OF assms] by (simp add: r)
  have h: "\<forall>n\<ge>8. \<not> bit (st_buttons t) n" using assms(1) by (simp add: felt_def in_hand_def r)
  have "st_keys (fst (release_button r b)) = st_keys (fst r) \<and>
    (bit (st_buttons (fst (release_button r b))) n \<longleftrightarrow> bit (st_buttons (fst r)) n \<and> n \<noteq> b)"
  proof (cases "bit (st_buttons t) b")
    case True
    then have b: "b < 8" using h not_less by blast
    let ?w = "BTN_LEFT + word_of_nat b :: u32"
    have u: "unat (word_of_nat b :: u32) = b" using b by (simp add: unat_of_nat)
    have "unat ?w = 272 + b" using b u by (simp add: BTN_LEFT_def unat_add_lem[THEN iffD1])
    then have range: "\<not> ?w < BTN_LEFT" "\<not> ?w > BTN_TASK" using b by (simp_all add: BTN_LEFT_def BTN_TASK_def word_less_nat_alt)
    have "sg_stream_button ?w False t = (t\<lparr>st_buttons := unset_bit b (st_buttons t)\<rparr>, [ButtonOut ?w False])"
      using live True range u by (simp add: sg_stream_button_def live_def Let_def)
    then show ?thesis using True by (auto simp: release_button_def then_do_def r bit_unset_bit_iff)
  next
    case False
    then show ?thesis by (auto simp: release_button_def r)
  qed
  then show "st_keys (fst (release_button r b)) = st_keys (fst r)"
    "bit (st_buttons (fst (release_button r b))) n \<longleftrightarrow> bit (st_buttons (fst r)) n \<and> n \<noteq> b" by simp_all
qed

lemma release_buttons_up:
  assumes "felt s kb r" and "live s"
  shows "felt s kb (foldl release_button r bs) \<and> st_keys (fst (foldl release_button r bs)) = st_keys (fst r) \<and>
    (\<forall>n\<in>set bs. \<not> bit (st_buttons (fst (foldl release_button r bs))) n)"
proof (induction bs rule: rev_induct)
  case Nil
  show ?case using assms(1) by simp
next
  case (snoc b bs)
  let ?r = "foldl release_button r bs"
  have f: "felt s kb ?r" using snoc.IH by simp
  show ?case using snoc.IH felt_release_button[OF f] release_button_up[OF f assms(2)] by auto
qed

lemma release_all_up:
  assumes "in_hand s kb" and "live s"
  shows "felt s kb (sg_stream_release_all s)" "in_hand (fst (sg_stream_release_all s)) ({}, {})"
proof -
  let ?k = "foldl release_key (s, []) [0..<256]"
  have "felt s kb (s, [])" using assms(1) by (simp add: felt_def)
  from release_keys_up[OF this assms(2) order_refl]
  have k: "felt s kb ?k" "\<forall>k<256. \<not> st_keys (fst ?k) ! k" by simp_all
  note b = release_buttons_up[OF k(1) assms(2), of "[0..<32]"]
  define t where "t = fst (sg_stream_release_all s)"
  show felt: "felt s kb (sg_stream_release_all s)" unfolding sg_stream_release_all_def using b by blast
  have keys: "st_keys t ! unat j = False" if "j < MAX_KEYS" for j :: u32
    using b k(2) small_key[OF that] unfolding t_def sg_stream_release_all_def by simp
  have "\<not> bit (st_buttons t) n" for n
  proof (cases "n < 32")
    case True
    then show ?thesis using b unfolding t_def sg_stream_release_all_def by simp
  next
    case False
    then show ?thesis using felt by (simp add: felt_def in_hand_def t_def)
  qed
  then show "in_hand (fst (sg_stream_release_all s)) ({}, {})"
    using keys felt unfolding t_def[symmetric] by (simp add: felt_def in_hand_def t_def[symmetric])
qed

lemma in_hand_unique: "in_hand s kb \<Longrightarrow> in_hand s kb' \<Longrightarrow> kb = kb'"
  by (simp add: in_hand_def)

text \<open>
  C26.  No key sticks: whatever keys, characters, buttons, wheel and pointer moves a client
  sends and wherever it stops, once the stream has let everything go the session feels no
  key and no button held down, and no key or button was ever let go that was not down.
\<close>

theorem no_stuck_keys:
  assumes "st_keys s = replicate 256 False" and "st_buttons s = 0" and "live s"
    and "stream_inputs keymap ins s = (s1, out1)" and "sg_stream_release_all s1 = (s2, out2)"
  shows "foldl feel ({}, {}) (out1 @ out2) = ({}, {}) \<and> lets_go ({}, {}) (out1 @ out2)"
proof -
  have start: "in_hand s ({}, {})" using assms(1,2) small_key by (auto simp: in_hand_def)
  then have "felt s ({}, {}) (s, [])" by (simp add: felt_def)
  from felt_inputs[OF this, of keymap ins] assms(4)
  have f: "felt s ({}, {}) (s1, out1)" by (simp add: stream_inputs_def)
  have "in_hand s1 (foldl feel ({}, {}) out1)" "live s1" using f felt_live[OF f assms(3)] by (simp_all add: felt_def)
  note r = release_all_up[OF this]
  have "foldl feel (foldl feel ({}, {}) out1) out2 = ({}, {})"
    using r in_hand_unique[of s2] by (simp add: felt_def assms(5))
  then show ?thesis using f r(1) by (simp add: felt_def assms(5) lets_go_append)
qed


definition stream_example :: stream where
  "stream_example =
     \<lparr>st_shm = True, st_seat = True, st_output = Some 1, st_out_w = 2, st_out_h = 1, st_screencopy = True,
      st_pointer_manager = Some 2, st_keyboard_manager = True, st_view_only = False, st_frame = False, st_width = 2,
      st_height = 1, st_stride = 8, st_flags = 0, st_offered = True, st_buffer = Some (2, 1, 8), st_size = 8,
      st_data = [1, 2, 3, 0, 4, 5, 6, 0], st_prev = [1, 2, 3, 0, 9, 9, 9, 0], st_have_prev = True, st_reading = False, st_gone = False,
      st_context = True, st_planar = False, st_keys = replicate 256 False, st_buttons = 0\<rparr>"

theorem no_stuck_keys_witness:
  "let (s1, out1) = stream_inputs (\<lambda>_. []) [InKey 30 True, InButton 0x110 True] stream_example;
       (s2, out2) = sg_stream_release_all s1
   in out1 = [KeyOut 30 True, ModsOut, ButtonOut 0x110 True] \<and>
      foldl feel ({}, {}) (out1 @ out2) = ({}, {}) \<and> lets_go ({}, {}) (out1 @ out2)"
proof -
  let ?r1 = "stream_inputs (\<lambda>_. []) [InKey 30 True, InButton 0x110 True] stream_example"
  let ?r2 = "sg_stream_release_all (fst ?r1)"
  have "snd ?r1 = [KeyOut 30 True, ModsOut, ButtonOut 0x110 True]"
    by (simp add: stream_inputs_def then_do_def sg_stream_key_def sg_stream_button_def stream_example_def MAX_KEYS_def
        BTN_LEFT_def BTN_TASK_def Let_def)
  moreover have "st_keys stream_example = replicate 256 False" "st_buttons stream_example = 0" "live stream_example"
    by (simp_all add: live_def stream_example_def)
  note no_stuck_keys[OF this prod.collapse[symmetric] prod.collapse[symmetric], of "\<lambda>_. []" "[InKey 30 True, InButton 0x110 True]"]
  ultimately show ?thesis by (simp only: case_prod_beta Let_def simp_thms)
qed

end
