(* ===== verification/Sg_Screen.thy ===== *)
theory Sg_Screen
  imports Sg_Stream
begin

text \<open>
  What a client of the remote desktop sees: the picture it has after drawing the bitmap
  updates of \<open>src/rdp/sg-rdp-stream.c\<close>, decoded with the decoder of \<open>Sg_Planar\<close> or taken
  as they are, against the frames the compositor captured.
\<close>

type_synonym colour = "u8 \<times> u8 \<times> u8"
type_synonym picture = "nat \<Rightarrow> nat \<Rightarrow> colour"

section \<open>The client\<close>

text \<open>A pixel of a frame: blue, green, red.\<close>

definition pixel :: "nat \<Rightarrow> u8 list \<Rightarrow> nat \<Rightarrow> nat \<Rightarrow> colour" where
  "pixel stride d x y = (d ! (y * stride + x * 4), d ! (y * stride + x * 4 + 1), d ! (y * stride + x * 4 + 2))"

text \<open>A pixel of a bitmap, from its left and from its top; its rows are stored from the bottom up.\<close>

definition bitmap_pixel :: "bitmap \<Rightarrow> nat \<Rightarrow> nat \<Rightarrow> colour option" where
  "bitmap_pixel b i j =
     (let w = unat (bm_width b); h = unat (bm_height b); r = h - 1 - j
      in if bm_compressed b
         then map_option (\<lambda>planes. (planes ! 2 ! r ! i, planes ! 1 ! r ! i, planes ! 0 ! r ! i)) (decode_planar w h (bm_stream b))
         else Some (pixel (w * 4) (bm_stream b) i r))"

definition draw :: "bitmap \<Rightarrow> picture \<Rightarrow> picture" where
  "draw b p x y =
     (if unat (destLeft b) \<le> x \<and> x \<le> unat (destRight b) \<and> unat (destTop b) \<le> y \<and> y \<le> unat (destBottom b)
      then case bitmap_pixel b (x - unat (destLeft b)) (y - unat (destTop b)) of Some c \<Rightarrow> c | None \<Rightarrow> p x y
      else p x y)"

fun view :: "stream_out list \<Rightarrow> picture \<Rightarrow> picture" where
  "view [] p = p"
| "view (Update bs # out) p = view out (fold draw bs p)"
| "view (_ # out) p = view out p"

lemma view_append: "view (a @ b) p = view b (view a p)"
  by (induction a p rule: view.induct) simp_all

lemma view_updates: "view (map Update us) p = fold draw (concat us) p"
  by (induction us arbitrary: p) simp_all

section \<open>One tile\<close>

lemma concat_blocks_nth:
  "\<forall>xs\<in>set xss. length xs = m \<Longrightarrow> k < length xss \<Longrightarrow> j < m \<Longrightarrow> concat xss ! (k * m + j) = xss ! k ! j"
proof (induction xss arbitrary: k)
  case (Cons xs xss)
  then show ?case by (cases k) (simp_all add: nth_append add.assoc)
qed simp

text \<open>A stream whose buffers hold its frame.\<close>

definition frame_fits :: "stream \<Rightarrow> bool" where
  "frame_fits s \<longleftrightarrow>
     unat (st_width s) * 4 \<le> unat (st_stride s) \<and> unat (st_width s) + 63 < 2 ^ 32 \<and> unat (st_height s) + 63 < 2 ^ 32 \<and>
     unat (st_stride s) * unat (st_height s) \<le> length (st_data s) \<and> unat (st_stride s) * unat (st_height s) \<le> length (st_prev s)"

text \<open>A rectangle of the frame.\<close>

definition within :: "stream \<Rightarrow> u32 \<Rightarrow> u32 \<Rightarrow> u32 \<Rightarrow> u32 \<Rightarrow> bool" where
  "within s x y w h \<longleftrightarrow>
     0 < unat w \<and> 0 < unat h \<and> unat w \<le> 64 \<and> unat h \<le> 64 \<and>
     unat x + unat w \<le> unat (st_width s) \<and> unat y + unat h \<le> unat (st_height s)"

lemma row_end:
  assumes "frame_fits s" and "x \<le> unat (st_width s)" and "y < unat (st_height s)"
  shows "y * unat (st_stride s) + x * 4 \<le> unat (st_stride s) * unat (st_height s)"
proof -
  have "y * unat (st_stride s) + x * 4 \<le> (y + 1) * unat (st_stride s)" using assms(1,2) by (simp add: frame_fits_def)
  also have "\<dots> \<le> unat (st_height s) * unat (st_stride s)" using assms(3) by (intro mult_le_mono1) simp
  finally show ?thesis by (simp add: mult.commute)
qed

lemma length_raw_row:
  assumes "frame_fits s" and "within s x y w h" and "r < unat h" and "c < unat w"
  shows "length (take 3 (drop (tile_off s x y r + c * 4) (st_data s)) @ [0xff]) = 4"
proof -
  have "(unat y + r) * unat (st_stride s) + (unat x + c + 1) * 4 \<le> length (st_data s)"
    using row_end[OF assms(1), of "unat x + c + 1" "unat y + r"] assms by (simp add: within_def frame_fits_def)
  then show ?thesis by (simp add: tile_off_def)
qed

lemma raw_row_nth:
  assumes "frame_fits s" and "within s x y w h" and "r < unat h" and "c < unat w" and "k < 3"
  shows "raw_row s x y w r ! (c * 4 + k) = st_data s ! (tile_off s x y r + c * 4 + k)"
proof -
  let ?f = "\<lambda>c. take 3 (drop (tile_off s x y r + c * 4) (st_data s)) @ [0xff]"
  have "raw_row s x y w r ! (c * 4 + k) = map ?f [0..<unat w] ! c ! k"
    unfolding raw_row_def using assms(4,5) length_raw_row[OF assms(1-3)] by (intro concat_blocks_nth) simp_all
  then show ?thesis using assms(4,5) length_raw_row[OF assms(1-4)] by (auto simp: nth_append min_def split: if_splits)
qed

lemma length_raw_row':
  assumes "frame_fits s" and "within s x y w h" and "r < unat h"
  shows "length (raw_row s x y w r) = unat w * 4"
  unfolding raw_row_def using length_raw_row[OF assms] by (subst length_concat_blocks[where m = 4]) simp_all

lemma raw_tile_nth:
  assumes "frame_fits s" and "within s x y w h" and "i < unat w" and "j < unat h" and "k < 3"
  shows "concat (map (raw_row s x y w) (rev [0..<unat h])) ! ((unat h - 1 - j) * (unat w * 4) + (i * 4 + k)) =
    st_data s ! (tile_off s x y j + i * 4 + k)"
proof -
  have "concat (map (raw_row s x y w) (rev [0..<unat h])) ! ((unat h - 1 - j) * (unat w * 4) + (i * 4 + k)) =
    map (raw_row s x y w) (rev [0..<unat h]) ! (unat h - 1 - j) ! (i * 4 + k)"
    using assms(3,4,5) length_raw_row'[OF assms(1,2)] by (intro concat_blocks_nth) simp_all
  also have "\<dots> = raw_row s x y w j ! (i * 4 + k)" using assms(4) by (simp add: rev_nth)
  finally show ?thesis using raw_row_nth[OF assms(1,2,4,3,5)] by simp
qed

lemma tile_pixel:
  assumes "frame_fits s" and "within s x y w h" and "encode_tile os s x y w h = Some bs" and "i < unat w" and "j < unat h"
  shows "bitmap_pixel (tile_bitmap s x y w h bs) i j = Some (pixel (unat (st_stride s)) (st_data s) (unat x + i) (unat y + j))"
proof (cases "st_planar s")
  case True
  let ?src = "drop (tile_off s x y 0) (st_data s)"
  have w: "0 < w" "0 < h" "unat w \<le> MAX_SIDE" "unat h \<le> MAX_SIDE"
    using assms(2) by (simp_all add: within_def MAX_SIDE_def word_less_nat_alt)
  have bs: "bs = sg_planar_encode ?src (unat (st_stride s)) w h"
    using assms(3) True by (simp add: encode_tile_def Let_def split: if_splits)
  have "tile_off s x y 0 \<le> length (st_data s)"
    using row_end[OF assms(1), of "unat x" "unat y"] assms(1,2) by (simp add: tile_off_def within_def frame_fits_def)
  then show ?thesis
    using assms(4,5) planar_decodes[OF w, of ?src "unat (st_stride s)"]
    by (simp add: bitmap_pixel_def tile_bitmap_def True bs Let_def tile_planes_def plane_line_def pixel_def tile_off_def algebra_simps)
next
  case False
  then have "bs = concat (map (raw_row s x y w) (rev [0..<unat h]))"
    using assms(3) by (simp add: encode_tile_def split: if_splits)
  then show ?thesis
    using raw_tile_nth[OF assms(1,2,4,5), of 0] raw_tile_nth[OF assms(1,2,4,5), of 1] raw_tile_nth[OF assms(1,2,4,5), of 2]
    by (simp add: bitmap_pixel_def tile_bitmap_def False Let_def pixel_def tile_off_def algebra_simps)
qed


text \<open>The rectangle of a tile, and the pixels it holds.\<close>

definition tile_at :: "nat \<Rightarrow> nat \<Rightarrow> nat \<times> nat" where
  "tile_at x y = (x div 64, y div 64)"

lemma tile_column:
  assumes "k < unat ((side + TILE - 1) div TILE)" and "unat side + 63 < 2 ^ 32"
  shows "unat (word_of_nat k * TILE :: u32) = k * 64"
    "unat (tile_side side (word_of_nat k * TILE)) = min 64 (unat side - k * 64)"
    "k * 64 < unat side"
proof -
  have sum: "unat (side + TILE - 1) = unat side + 63"
    using assms(2) by (simp add: TILE_def unat_add_lem[THEN iffD1])
  then have "k < (unat side + 63) div 64" using assms(1) by (simp add: unat_div TILE_def)
  then show side: "k * 64 < unat side" by linarith
  have small: "unat side < 2 ^ 32" using assms(2) by simp
  then have "k < 2 ^ 32" using side by linarith
  then have k: "unat (word_of_nat k :: u32) = k" by (simp add: unat_of_nat)
  have "k * 64 < 2 ^ 32" using side small by linarith
  then show x: "unat (word_of_nat k * TILE :: u32) = k * 64"
    using k by (simp add: TILE_def unat_mult_lem[THEN iffD1])
  have "unat (side - word_of_nat k * TILE) = unat side - k * 64"
    using x side by (simp add: unat_sub word_le_nat_alt)
  then show "unat (tile_side side (word_of_nat k * TILE)) = min 64 (unat side - k * 64)"
    by (simp add: tile_side_def TILE_def word_less_nat_alt)
qed

lemma frame_tiles_set:
  "set (frame_tiles s) =
     {..<unat ((st_width s + TILE - 1) div TILE)} \<times> {..<unat ((st_height s + TILE - 1) div TILE)}"
  by (auto simp: frame_tiles_def Let_def)

lemma tile_at_listed:
  assumes "frame_fits s" and "x < unat (st_width s)" and "y < unat (st_height s)"
  shows "tile_at x y \<in> set (frame_tiles s)"
proof -
  have count: "k div 64 < unat ((side + TILE - 1) div TILE)" if "k < unat side" "unat side + 63 < 2 ^ 32" for k and side :: u32
  proof -
    have "unat (side + TILE - 1) = unat side + 63" using that(2) by (simp add: TILE_def unat_add_lem[THEN iffD1])
    then have "unat ((side + TILE - 1) div TILE) = (unat side + 63) div 64" by (simp add: unat_div TILE_def)
    then show ?thesis using that(1) by linarith
  qed
  show ?thesis using assms count by (simp add: tile_at_def frame_tiles_set frame_fits_def)
qed

lemma tile_holds:
  assumes "(tx, ty) \<in> set (frame_tiles s)" and "frame_fits s"
  defines "x0 \<equiv> word_of_nat tx * TILE" and "y0 \<equiv> word_of_nat ty * TILE"
  defines "w \<equiv> tile_side (st_width s) x0" and "h \<equiv> tile_side (st_height s) y0"
  shows "within s x0 y0 w h"
    "x < unat (st_width s) \<Longrightarrow> y < unat (st_height s) \<Longrightarrow>
       tile_at x y = (tx, ty) \<longleftrightarrow> unat x0 \<le> x \<and> x < unat x0 + unat w \<and> unat y0 \<le> y \<and> y < unat y0 + unat h"
proof -
  have c: "tx < unat ((st_width s + TILE - 1) div TILE)" "ty < unat ((st_height s + TILE - 1) div TILE)"
    using assms(1) by (simp_all add: frame_tiles_set)
  have f: "unat (st_width s) + 63 < 2 ^ 32" "unat (st_height s) + 63 < 2 ^ 32" using assms(2) by (simp_all add: frame_fits_def)
  note cx = tile_column[OF c(1) f(1)] and cy = tile_column[OF c(2) f(2)]
  show "within s x0 y0 w h" using cx cy by (auto simp: within_def x0_def y0_def w_def h_def min_def)
  show "tile_at x y = (tx, ty) \<longleftrightarrow> unat x0 \<le> x \<and> x < unat x0 + unat w \<and> unat y0 \<le> y \<and> y < unat y0 + unat h"
    if "x < unat (st_width s)" "y < unat (st_height s)"
  proof -
    have "x div 64 = tx \<longleftrightarrow> tx * 64 \<le> x \<and> x < tx * 64 + min 64 (unat (st_width s) - tx * 64)" using that(1) cx(3) by linarith
    moreover have "y div 64 = ty \<longleftrightarrow> ty * 64 \<le> y \<and> y < ty * 64 + min 64 (unat (st_height s) - ty * 64)" using that(2) cy(3) by linarith
    ultimately show ?thesis unfolding tile_at_def x0_def y0_def w_def h_def cx(1,2) cy(1,2) by simp
  qed
qed

lemma draw_tile:
  assumes "(tx, ty) \<in> set (frame_tiles s)" and "frame_fits s"
  defines "x0 \<equiv> word_of_nat tx * TILE" and "y0 \<equiv> word_of_nat ty * TILE"
  defines "w \<equiv> tile_side (st_width s) x0" and "h \<equiv> tile_side (st_height s) y0"
  assumes "encode_tile os s x0 y0 w h = Some bs" and "x < unat (st_width s)" and "y < unat (st_height s)"
  shows "draw (tile_bitmap s x0 y0 w h bs) p x y =
    (if tile_at x y = (tx, ty) then pixel (unat (st_stride s)) (st_data s) x y else p x y)"
proof -
  note t = tile_holds[OF assms(1,2), folded x0_def y0_def, folded w_def h_def]
  have last: "unat (a + b - 1) = unat a + unat b - 1" if "0 < unat b" "unat a + unat b \<le> unat c" for a b c :: u32
  proof -
    have "unat c < 2 ^ LENGTH(32)" by (rule unsigned_less)
    with that(2) have "unat a + unat b < 2 ^ LENGTH(32)" by (rule le_less_trans)
    then have "unat (a + b) = unat a + unat b" by (simp add: unat_add_lem[THEN iffD1])
    then show ?thesis using that(1) by (simp add: unat_minus_one unat_gt_0[symmetric])
  qed
  have ends: "unat (x0 + w - 1) = unat x0 + unat w - 1" "unat (y0 + h - 1) = unat y0 + unat h - 1"
    using t(1) last[of w x0 "st_width s"] last[of h y0 "st_height s"] by (simp_all add: within_def)
  have pos: "0 < unat w" "0 < unat h" using t(1) by (simp_all add: within_def)
  show ?thesis
  proof (cases "tile_at x y = (tx, ty)")
    case True
    with t(2)[OF assms(8,9)] have r: "unat x0 \<le> x" "x < unat x0 + unat w" "unat y0 \<le> y" "y < unat y0 + unat h" by simp_all
    then have "bitmap_pixel (tile_bitmap s x0 y0 w h bs) (x - unat x0) (y - unat y0) = Some (pixel (unat (st_stride s)) (st_data s) x y)"
      using tile_pixel[OF assms(2) t(1) assms(7), of "x - unat x0" "y - unat y0"] by simp
    moreover have "x \<le> unat x0 + unat w - 1" "y \<le> unat y0 + unat h - 1" using r by simp_all
    ultimately show ?thesis using True r ends by (simp add: draw_def tile_bitmap_def)
  next
    case False
    then have "\<not> (unat x0 \<le> x \<and> x \<le> unat x0 + unat w - 1 \<and> unat y0 \<le> y \<and> y \<le> unat y0 + unat h - 1)"
      using t(2)[OF assms(8,9)] pos by auto
    then show ?thesis using False by (auto simp: draw_def tile_bitmap_def ends)
  qed
qed


lemma copy_bytes_nth:
  assumes "off + n \<le> length src" and "off + n \<le> length dst"
  shows "length (copy_bytes off n src dst) = length dst"
    "copy_bytes off n src dst ! k = (if off \<le> k \<and> k < off + n then src ! k else dst ! k)"
  using assms by (auto simp: copy_bytes_def nth_append)

lemma copy_rows_nth:
  assumes "\<forall>r\<in>set rs. off r + n \<le> length src \<and> off r + n \<le> length dst"
  shows "length (foldl (\<lambda>p r. copy_bytes (off r) n src p) dst rs) = length dst \<and>
    foldl (\<lambda>p r. copy_bytes (off r) n src p) dst rs ! k = (if \<exists>r\<in>set rs. off r \<le> k \<and> k < off r + n then src ! k else dst ! k)"
  using assms
proof (induction rs rule: rev_induct)
  case (snoc r rs)
  then show ?case using copy_bytes_nth[of "off r" n src "foldl (\<lambda>p r. copy_bytes (off r) n src p) dst rs"] by auto
qed simp

lemma same_row:
  fixes y Y :: nat
  assumes "Y * stride + a \<le> y * stride + b" and "y * stride + b < Y * stride + c" and "b < stride" and "c \<le> stride"
  shows "y = Y \<and> a \<le> b \<and> b < c"
proof -
  have "\<not> y < Y"
  proof
    assume "y < Y"
    then have "(y + 1) * stride \<le> Y * stride" by (intro mult_le_mono1) simp
    then show False using assms(1,3) by simp
  qed
  moreover have "\<not> Y < y"
  proof
    assume "Y < y"
    then have "(Y + 1) * stride \<le> y * stride" by (intro mult_le_mono1) simp
    then show False using assms(2,4) by simp
  qed
  ultimately show ?thesis using assms(1,2) by simp
qed

lemma tile_rows_end:
  assumes "frame_fits s" and "within s x0 y0 w h" and "r < unat h"
  shows "tile_off s x0 y0 r + unat w * 4 \<le> length (st_data s) \<and> tile_off s x0 y0 r + unat w * 4 \<le> length (st_prev s)"
  using row_end[OF assms(1), of "unat x0 + unat w" "unat y0 + r"] assms
  by (simp add: tile_off_def within_def frame_fits_def add_mult_distrib)

lemma remembered_byte:
  assumes "frame_fits s" and "within s x0 y0 w h" and "x < unat (st_width s)" and "k < 4"
  shows "length (st_prev (remember_tile x0 y0 w h s)) = length (st_prev s)"
    "st_prev (remember_tile x0 y0 w h s) ! (y * unat (st_stride s) + x * 4 + k) =
      (if unat x0 \<le> x \<and> x < unat x0 + unat w \<and> unat y0 \<le> y \<and> y < unat y0 + unat h then st_data s else st_prev s) !
        (y * unat (st_stride s) + x * 4 + k)"
proof -
  let ?k = "y * unat (st_stride s) + x * 4 + k"
  have rows: "\<forall>r\<in>set [0..<unat h]. tile_off s x0 y0 r + unat w * 4 \<le> length (st_data s) \<and> tile_off s x0 y0 r + unat w * 4 \<le> length (st_prev s)"
    using tile_rows_end[OF assms(1,2)] by simp
  show "length (st_prev (remember_tile x0 y0 w h s)) = length (st_prev s)"
    using copy_rows_nth[OF rows] by (simp add: remember_tile_def)
  have hit: "(\<exists>r\<in>set [0..<unat h]. tile_off s x0 y0 r \<le> ?k \<and> ?k < tile_off s x0 y0 r + unat w * 4) \<longleftrightarrow>
    unat x0 \<le> x \<and> x < unat x0 + unat w \<and> unat y0 \<le> y \<and> y < unat y0 + unat h" (is "?l \<longleftrightarrow> ?r")
  proof
    assume ?l
    then obtain r where r: "r < unat h" "tile_off s x0 y0 r \<le> ?k" "?k < tile_off s x0 y0 r + unat w * 4" by auto
    have "y = unat y0 + r \<and> unat x0 * 4 \<le> x * 4 + k \<and> x * 4 + k < unat x0 * 4 + unat w * 4"
      using r assms by (intro same_row[of _ "unat (st_stride s)"]) (simp_all add: tile_off_def frame_fits_def within_def)
    then show ?r using r(1) assms(4) by linarith
  next
    assume ?r
    then show ?l using assms(4) by (intro bexI[of _ "y - unat y0"]) (auto simp: tile_off_def)
  qed
  show "st_prev (remember_tile x0 y0 w h s) ! ?k =
      (if unat x0 \<le> x \<and> x < unat x0 + unat w \<and> unat y0 \<le> y \<and> y < unat y0 + unat h then st_data s else st_prev s) ! ?k"
    using copy_rows_nth[OF rows, of ?k] unfolding hit by (simp add: remember_tile_def)
qed


section \<open>A frame\<close>

text \<open>
  The client has what the stream remembers of the last frame: \<open>in_step\<close>.  While a frame is
  sent, the tiles \<open>D\<close> seen so far show the new frame and the others the old one.
\<close>

definition in_step :: "picture \<Rightarrow> stream \<Rightarrow> bool" where
  "in_step p s \<longleftrightarrow>
     (st_have_prev s \<longrightarrow>
       (\<forall>x y. x < unat (st_width s) \<longrightarrow> y < unat (st_height s) \<longrightarrow> p x y = pixel (unat (st_stride s)) (st_prev s) x y))"

definition shown :: "picture \<Rightarrow> stream \<Rightarrow> (nat \<times> nat) set \<Rightarrow> sending \<Rightarrow> bool" where
  "shown p s D f \<longleftrightarrow>
     sn_stream f = s\<lparr>st_prev := st_prev (sn_stream f)\<rparr> \<and> length (st_prev (sn_stream f)) = length (st_prev s) \<and>
     (\<forall>x y. x < unat (st_width s) \<longrightarrow> y < unat (st_height s) \<longrightarrow>
        fold draw (concat (sn_sent f) @ sn_tiles f) p x y =
          (if tile_at x y \<in> D then pixel (unat (st_stride s)) (st_data s) x y else p x y) \<and>
        pixel (unat (st_stride s)) (st_prev (sn_stream f)) x y =
          pixel (unat (st_stride s)) (if tile_at x y \<in> D then st_data s else st_prev s) x y)"

lemma unchanged_pixel:
  assumes "frame_fits s" and "within s x0 y0 w h" and "\<not> tile_changed s x0 y0 w h"
    and "unat x0 \<le> x" and "x < unat x0 + unat w" and "unat y0 \<le> y" and "y < unat y0 + unat h"
  shows "pixel (unat (st_stride s)) (st_prev s) x y = pixel (unat (st_stride s)) (st_data s) x y"
proof -
  define r where "r = y - unat y0"
  have r: "r < unat h" "y = unat y0 + r" using assms(6,7) by (auto simp: r_def)
  let ?o = "tile_off s x0 y0 r"
  have same: "take (unat w * 4) (drop ?o (st_data s)) = take (unat w * 4) (drop ?o (st_prev s))"
    using assms(3) r(1) by (auto simp: tile_changed_def list_ex_iff)
  have ends: "?o + unat w * 4 \<le> length (st_data s)" "?o + unat w * 4 \<le> length (st_prev s)"
    using tile_rows_end[OF assms(1,2) r(1)] by simp_all
  have "st_data s ! (?o + j) = st_prev s ! (?o + j)" if "j < unat w * 4" for j
    using arg_cong[OF same, of "\<lambda>l. l ! j"] that ends by simp
  then have "st_data s ! (?o + ((x - unat x0) * 4 + k)) = st_prev s ! (?o + ((x - unat x0) * 4 + k))" if "k < 4" for k
    using that assms(4,5) by simp
  moreover have "?o + ((x - unat x0) * 4 + k) = y * unat (st_stride s) + x * 4 + k" for k
    using assms(4) r(2) by (simp add: tile_off_def)
  ultimately have b: "st_data s ! (y * unat (st_stride s) + x * 4 + k) = st_prev s ! (y * unat (st_stride s) + x * 4 + k)" if "k < 4" for k
    using that by simp
  show ?thesis using b[of 0] b[of 1] b[of 2] by (simp add: pixel_def)
qed

lemma remembered_pixel:
  assumes "frame_fits s" and "within s x0 y0 w h" and "x < unat (st_width s)"
  shows "pixel (unat (st_stride s)) (st_prev (remember_tile x0 y0 w h s)) x y =
    pixel (unat (st_stride s)) (if unat x0 \<le> x \<and> x < unat x0 + unat w \<and> unat y0 \<le> y \<and> y < unat y0 + unat h then st_data s else st_prev s) x y"
  using remembered_byte(2)[OF assms, of 0 y] remembered_byte(2)[OF assms, of 1 y] remembered_byte(2)[OF assms, of 2 y]
  by (simp add: pixel_def)


lemma encode_tile_some:
  assumes "within s x y w h" and "\<forall>x y. so_tile os x y"
  shows "\<exists>bs. encode_tile os s x y w h = Some bs"
proof -
  have "w \<noteq> 0" "h \<noteq> 0" "\<not> MAX_SIDE < unat w" "\<not> MAX_SIDE < unat h" using assms(1) by (auto simp: within_def MAX_SIDE_def)
  then have "sg_planar_encode px st w h \<noteq> []" for px st using planar_sizes[of px st w h] by simp
  then show ?thesis using assms(2) by (simp add: encode_tile_def Let_def)
qed

lemma send_tile_shown:
  assumes "shown p s D f" and "frame_fits s" and "in_step p s" and "t \<in> set (frame_tiles s)" and "\<forall>x y. so_tile os x y"
    and "send_tile os mx t f = (True, f')"
  shows "shown p s (insert t D) f'"
proof -
  obtain tx ty where t: "t = (tx, ty)" by (cases t)
  define s' where "s' = sn_stream f"
  have s': "s' = s\<lparr>st_prev := st_prev s'\<rparr>" "length (st_prev s') = length (st_prev s)" using assms(1) by (simp_all add: shown_def s'_def)
  have same: "st_width s' = st_width s" "st_height s' = st_height s" "st_stride s' = st_stride s" "st_data s' = st_data s"
    "st_have_prev s' = st_have_prev s"
    by (subst s'(1); simp)+
  have fits: "frame_fits s'" using assms(2) s'(2) same by (simp add: frame_fits_def)
  have listed: "(tx, ty) \<in> set (frame_tiles s')" using assms(4) same t by (simp add: frame_tiles_set)
  let ?x = "word_of_nat tx * TILE :: u32" and ?y = "word_of_nat ty * TILE :: u32"
  let ?w = "tile_side (st_width s') ?x" and ?h = "tile_side (st_height s') ?y"
  let ?px = "pixel (unat (st_stride s))"
  note tile = tile_holds[OF listed fits]
  have old: "fold draw (concat (sn_sent f) @ sn_tiles f) p x y = (if tile_at x y \<in> D then ?px (st_data s) x y else p x y)"
    "?px (st_prev s') x y = ?px (if tile_at x y \<in> D then st_data s else st_prev s) x y"
    if "x < unat (st_width s)" "y < unat (st_height s)" for x y
    using assms(1) that unfolding shown_def s'_def by blast+
  show ?thesis
  proof (cases "tile_changed s' ?x ?y ?w ?h")
    case False
    then have f': "f' = f" using assms(6) by (simp add: send_tile_def t s'_def[symmetric] Let_def)
    have "?px (st_prev s') x y = ?px (st_data s) x y \<and> fold draw (concat (sn_sent f) @ sn_tiles f) p x y = ?px (st_data s) x y"
      if "x < unat (st_width s)" "y < unat (st_height s)" "tile_at x y = t" for x y
    proof -
      have "?px (st_prev s') x y = ?px (st_data s) x y"
        using unchanged_pixel[OF fits tile(1) False, of x y] tile(2)[of x y] that same by (simp add: t)
      moreover have "st_have_prev s" using False same by (simp add: tile_changed_def)
      ultimately show ?thesis using old[OF that(1,2)] assms(3) that by (auto simp: in_step_def)
    qed
    then show ?thesis using assms(1) unfolding shown_def f' s'_def by simp
  next
    case True
    obtain bs where bs: "encode_tile os s' ?x ?y ?w ?h = Some bs" using encode_tile_some[OF tile(1) assms(5)] by blast
    have f': "sn_stream f' = remember_tile ?x ?y ?w ?h s'"
      "concat (sn_sent f') @ sn_tiles f' = (concat (sn_sent f) @ sn_tiles f) @ [tile_bitmap s' ?x ?y ?w ?h bs]"
      using assms(6) True bs by (auto simp: send_tile_def t s'_def[symmetric] Let_def split: if_splits)
    have "sn_stream f' = s\<lparr>st_prev := st_prev (sn_stream f')\<rparr>" unfolding f'(1) remember_tile_def by (subst (1) s'(1)) simp
    moreover have "fold draw (concat (sn_sent f') @ sn_tiles f') p x y = (if tile_at x y \<in> insert t D then ?px (st_data s) x y else p x y)"
      "?px (st_prev (sn_stream f')) x y = ?px (if tile_at x y \<in> insert t D then st_data s else st_prev s) x y"
      if "x < unat (st_width s)" "y < unat (st_height s)" for x y
    proof -
      have xy: "x < unat (st_width s')" "y < unat (st_height s')" using that same by simp_all
      show "fold draw (concat (sn_sent f') @ sn_tiles f') p x y = (if tile_at x y \<in> insert t D then ?px (st_data s) x y else p x y)"
        unfolding f'(2) fold_append comp_apply using draw_tile[OF listed fits bs xy] old(1)[OF that] same by (simp add: t)
      show "?px (st_prev (sn_stream f')) x y = ?px (if tile_at x y \<in> insert t D then st_data s else st_prev s) x y"
        unfolding f'(1) using remembered_pixel[OF fits tile(1) xy(1), of y] tile(2)[OF xy] old(2)[OF that] same by (auto simp: t)
    qed
    moreover have "length (st_prev (sn_stream f')) = length (st_prev s)"
    proof (cases "unat (st_width s) = 0")
      case True
      then show ?thesis using tile(1) same by (simp add: within_def)
    next
      case False
      then show ?thesis unfolding f'(1) using remembered_byte(1)[OF fits tile(1), of 0 0] s'(2) same by simp
    qed
    ultimately show ?thesis unfolding shown_def by blast
  qed
qed

lemma send_tiles_shown:
  assumes "shown p s D f" and "frame_fits s" and "in_step p s" and "set ts \<subseteq> set (frame_tiles s)" and "\<forall>x y. so_tile os x y"
    and "send_tiles os mx ts f = (True, f')"
  shows "shown p s (D \<union> set ts) f'"
  using assms(1,4,6)
proof (induction ts arbitrary: D f)
  case (Cons t ts)
  then obtain g where g: "send_tile os mx t f = (True, g)" "send_tiles os mx ts g = (True, f')" by (auto split: prod.splits bool.splits)
  have "shown p s (insert t D) g" using send_tile_shown[OF Cons.prems(1) assms(2,3) _ assms(5) g(1)] Cons.prems(2) by simp
  then show ?case using Cons.IH[of "insert t D" g] Cons.prems(2) g(2) by simp
qed simp


lemma send_tiles_stop: "send_tiles os mx ts g = (False, f) \<Longrightarrow> st_gone (sn_stream f)"
proof (induction ts arbitrary: g)
  case (Cons t ts)
  obtain ok g' where g: "send_tile os mx t g = (ok, g')" by (cases "send_tile os mx t g")
  show ?case
  proof (cases ok)
    case True
    then show ?thesis using Cons g by simp
  next
    case False
    then have "st_gone (sn_stream g')" using g by (auto simp: send_tile_def Let_def split: if_splits option.splits)
    then show ?thesis using Cons.prems g False by simp
  qed
qed simp

lemma send_frame_shows:
  assumes "frame_fits s" and "in_step p s" and "so_tiles os" and "\<forall>x y. so_tile os x y"
    and "send_frame os s = (s', out)" and "\<not> st_gone s'"
  shows "\<forall>x y. x < unat (st_width s) \<longrightarrow> y < unat (st_height s) \<longrightarrow> view out p x y = pixel (unat (st_stride s)) (st_data s) x y"
    "in_step (view out p) s'" "\<exists>prev. length prev = length (st_prev s) \<and> s' = s\<lparr>st_prev := prev, st_have_prev := True\<rparr>"
proof -
  define mx where "mx = (if so_max_request os < 16384 then 16384 else so_max_request os)"
  define f0 where "f0 = \<lparr>sn_stream = s, sn_tiles = [], sn_bytes = 0, sn_sent = []\<rparr>"
  obtain ok f where f: "send_tiles os mx (frame_tiles s) f0 = (ok, f)" by (cases "send_tiles os mx (frame_tiles s) f0")
  have ok: ok
  proof (rule ccontr)
    assume "\<not> ok"
    then have "s' = sn_stream f" using assms(3,5) f by (simp add: send_frame_def mx_def f0_def)
    then show False using send_tiles_stop f \<open>\<not> ok\<close> assms(6) by simp
  qed
  have "shown p s {} f0" by (simp add: shown_def f0_def)
  from send_tiles_shown[OF this assms(1,2) order_refl assms(4)] f ok
  have shown: "shown p s (set (frame_tiles s)) f" by simp
  have out: "out = map Update (sn_sent f @ (if sn_tiles f = [] then [] else [sn_tiles f]))"
    and s': "s' = (sn_stream f)\<lparr>st_gone := st_gone (sn_stream f) \<or> \<not> (sn_tiles f = [] \<or> so_update os (sn_tiles f)), st_have_prev := True\<rparr>"
    using assms(3,5) f ok by (simp_all add: send_frame_def mx_def[symmetric] f0_def[symmetric] Let_def)
  have going: "st_gone (sn_stream f) \<or> \<not> (sn_tiles f = [] \<or> so_update os (sn_tiles f)) \<longleftrightarrow> st_gone (sn_stream f)"
    using assms(6) unfolding s' by auto
  have stream: "sn_stream f = s\<lparr>st_prev := st_prev (sn_stream f)\<rparr>" "length (st_prev (sn_stream f)) = length (st_prev s)"
    using shown by (simp_all add: shown_def)
  have s'': "s' = s\<lparr>st_prev := st_prev (sn_stream f), st_have_prev := True\<rparr>"
  proof -
    have "sn_stream f = (sn_stream f)\<lparr>st_gone := st_gone (sn_stream f)\<rparr>" by simp
    then have "s' = (sn_stream f)\<lparr>st_have_prev := True\<rparr>" unfolding s' going by simp
    then show ?thesis by (subst (asm) stream(1)) simp
  qed
  then show "\<exists>prev. length prev = length (st_prev s) \<and> s' = s\<lparr>st_prev := prev, st_have_prev := True\<rparr>" using stream(2) by blast
  have view: "view out p = fold draw (concat (sn_sent f) @ sn_tiles f) p" unfolding out view_updates by simp
  have seen: "view out p x y = pixel (unat (st_stride s)) (st_data s) x y \<and>
      pixel (unat (st_stride s)) (st_prev (sn_stream f)) x y = pixel (unat (st_stride s)) (st_data s) x y"
    if "x < unat (st_width s)" "y < unat (st_height s)" for x y
    using shown that tile_at_listed[OF assms(1) that] by (simp add: shown_def view)
  then show "\<forall>x y. x < unat (st_width s) \<longrightarrow> y < unat (st_height s) \<longrightarrow> view out p x y = pixel (unat (st_stride s)) (st_data s) x y" by blast
  show "in_step (view out p) s'" using seen by (simp add: in_step_def s'')
qed

section \<open>Frames the wrong way up\<close>

lemma put_row_nth:
  assumes "off + length row \<le> length d"
  shows "length (put_row off row d) = length d"
    "put_row off row d ! k = (if off \<le> k \<and> k < off + length row then row ! (k - off) else d ! k)"
  using assms by (auto simp: put_row_def nth_append)

lemma flip_prefix:
  assumes "stride * height \<le> length d" and "n \<le> height div 2"
  shows "length (foldl (swap_rows stride height) d [0..<n]) = length d \<and>
    (\<forall>y j. y < height \<longrightarrow> j < stride \<longrightarrow>
      foldl (swap_rows stride height) d [0..<n] ! (y * stride + j) =
        d ! ((if y < n \<or> height - 1 - n < y then height - 1 - y else y) * stride + j))"
  using assms(2)
proof (induction n)
  case 0
  show ?case by auto
next
  case (Suc n)
  let ?d = "foldl (swap_rows stride height) d [0..<n]" and ?m = "height - 1 - n"
  have len: "length ?d = length d" using Suc by simp
  have ends: "y * stride + stride \<le> length d" if "y < height" for y
  proof -
    have "(y + 1) * stride \<le> height * stride" using that by (intro mult_le_mono1) simp
    then show ?thesis using assms(1) by (simp add: mult.commute)
  qed
  have nm: "n < ?m" "?m < height" "n < height" using Suc.prems by simp_all
  define a where "a = take stride (drop (n * stride) ?d)"
  define b where "b = take stride (drop (?m * stride) ?d)"
  have ab: "length a = stride" "length b = stride" using ends[OF nm(2)] ends[OF nm(3)] len by (simp_all add: a_def b_def)
  have step: "foldl (swap_rows stride height) d [0..<Suc n] = put_row (?m * stride) a (put_row (n * stride) b ?d)"
    by (simp add: swap_rows_def a_def b_def Let_def)
  have p1: "n * stride + length b \<le> length ?d" using ends[OF nm(3)] ab len by simp
  then have p2: "?m * stride + length a \<le> length (put_row (n * stride) b ?d)" using ends[OF nm(2)] ab len put_row_nth(1)[OF p1] by simp
  have row: "Y * stride \<le> y * stride + j \<and> y * stride + j < Y * stride + stride \<longleftrightarrow> y = Y" if "j < stride" for y Y j
    using same_row[of Y stride 0 y j stride] that by auto
  have "put_row (?m * stride) a (put_row (n * stride) b ?d) ! (y * stride + j) =
      d ! ((if y < Suc n \<or> height - 1 - Suc n < y then height - 1 - y else y) * stride + j)" if y: "y < height" and j: "j < stride" for y j
  proof -
    have "put_row (?m * stride) a (put_row (n * stride) b ?d) ! (y * stride + j) = (if y = ?m then a ! j else if y = n then b ! j else ?d ! (y * stride + j))"
      unfolding put_row_nth(2)[OF p2] put_row_nth(2)[OF p1] ab row[OF j] by simp
    also have "\<dots> = ?d ! ((if y = ?m then n else if y = n then ?m else y) * stride + j)"
      using j ends[OF nm(2)] ends[OF nm(3)] len by (simp add: a_def b_def)
    also have "\<dots> = d ! ((if y < Suc n \<or> height - 1 - Suc n < y then height - 1 - y else y) * stride + j)"
    proof -
      have IH: "?d ! (Y * stride + j) = d ! ((if Y < n \<or> height - 1 - n < Y then height - 1 - Y else Y) * stride + j)" if "Y < height" for Y
        using Suc j that by simp
      consider "y = ?m" | "y = n" | "y \<noteq> ?m" "y \<noteq> n" by blast
      then show ?thesis
      proof cases
        case 1
        have "height - 1 - Suc n < ?m" "height - 1 - ?m = n" using nm by linarith+
        then show ?thesis using 1 nm IH[of n] by simp
      next
        case 2
        then show ?thesis using nm IH[of ?m] by simp
      next
        case 3
        then have "y < Suc n \<longleftrightarrow> y < n" "height - 1 - Suc n < y \<longleftrightarrow> ?m < y" using nm by linarith+
        then show ?thesis using 3 y IH[of y] by simp
      qed
    qed
    finally show ?thesis .
  qed
  then show ?case using step put_row_nth(1)[OF p1] put_row_nth(1)[OF p2] len by simp
qed


lemma flip_rows_shows:
  assumes "frame_fits s" and "so_row os" and "x < unat (st_width s)" and "y < unat (st_height s)"
  shows "pixel (unat (st_stride s)) (st_data (flip_rows os s)) x y = pixel (unat (st_stride s)) (st_data s) x (unat (st_height s) - 1 - y)"
proof -
  let ?H = "unat (st_height s)" and ?S = "unat (st_stride s)"
  have fits: "?S * ?H \<le> length (st_data s)" using assms(1) by (simp add: frame_fits_def)
  have mid: "(if y < ?H div 2 \<or> ?H - 1 - ?H div 2 < y then ?H - 1 - y else y) = ?H - 1 - y" using assms(4) by simp linarith
  have "st_data (flip_rows os s) ! (y * ?S + (x * 4 + k)) = st_data s ! ((?H - 1 - y) * ?S + (x * 4 + k))" if "k < 4" for k
  proof -
    have "x * 4 + k < ?S" using assms(1,3) that by (simp add: frame_fits_def)
    then have "foldl (swap_rows ?S ?H) (st_data s) [0..<?H div 2] ! (y * ?S + (x * 4 + k)) =
        st_data s ! ((if y < ?H div 2 \<or> ?H - 1 - ?H div 2 < y then ?H - 1 - y else y) * ?S + (x * 4 + k))"
      using flip_prefix[OF fits order_refl] assms(4) by blast
    then show ?thesis unfolding mid flip_rows_def using assms(2) by simp
  qed
  from this[of 0] this[of 1] this[of 2] show ?thesis by (simp add: pixel_def add.assoc)
qed

lemma flip_rows_same:
  "flip_rows os s = s\<lparr>st_data := st_data (flip_rows os s)\<rparr>"
  "unat (st_stride s) * unat (st_height s) \<le> length (st_data s) \<Longrightarrow> length (st_data (flip_rows os s)) = length (st_data s)"
  using flip_prefix[of "unat (st_stride s)" "unat (st_height s)" "st_data s", OF _ order_refl] by (simp_all add: flip_rows_def)

section \<open>A run of frames\<close>

text \<open>A frame the compositor captures: its shape, its flags and its bytes.\<close>

record frame =
  cf_width :: u32
  cf_height :: u32
  cf_stride :: u32
  cf_flags :: u32
  cf_data :: "u8 list"

definition cf_size :: "frame \<Rightarrow> nat" where
  "cf_size c = unat (cf_stride c) * unat (cf_height c)"

text \<open>The frame offered, its buffer made, copied with its flags and ready.\<close>

definition captured :: "stream_os \<Rightarrow> stream \<times> stream_out list \<Rightarrow> frame \<Rightarrow> stream \<times> stream_out list" where
  "captured os r c =
     (let (s1, out1) = frame_buffer_done os (frame_buffer True (cf_width c) (cf_height c) (cf_stride c) (fst r));
          (s2, out2) = frame_ready os (cf_data c) (frame_flags (cf_flags c) s1)
      in (s2, snd r @ out1 @ out2))"

text \<open>What the frame shows, the right way up.\<close>

definition frame_pixel :: "frame \<Rightarrow> nat \<Rightarrow> nat \<Rightarrow> colour" where
  "frame_pixel c x y = pixel (unat (cf_stride c)) (cf_data c) x (if bit (cf_flags c) 0 then unat (cf_height c) - 1 - y else y)"

text \<open>The memory calls succeed; a frame has all its bytes and no overflow in its shape.\<close>

definition no_shortage :: "stream_os \<Rightarrow> bool" where
  "no_shortage os \<longleftrightarrow>
     (\<forall>n. so_buffer os n \<and> so_prev os n \<and> length (so_junk os n) = n) \<and> so_row os \<and> so_tiles os \<and> (\<forall>x y. so_tile os x y)"

definition frame_whole :: "frame \<Rightarrow> bool" where
  "frame_whole c \<longleftrightarrow>
     unat (cf_width c) * 4 \<le> unat (cf_stride c) \<and> unat (cf_width c) + 63 < 2 ^ 32 \<and> unat (cf_height c) + 63 < 2 ^ 32 \<and>
     length (cf_data c) = cf_size c"

text \<open>Two frames the stream tells apart: of one shape, or of two sizes.\<close>

definition told_apart :: "frame \<Rightarrow> frame \<Rightarrow> bool" where
  "told_apart c d \<longleftrightarrow>
     cf_width c = cf_width d \<and> cf_height c = cf_height d \<and> cf_stride c = cf_stride d \<or> cf_size c \<noteq> cf_size d"

definition steady :: "picture \<Rightarrow> stream \<Rightarrow> bool" where
  "steady p s \<longleftrightarrow> st_context s \<and>
     (st_buffer s \<noteq> None \<longrightarrow>
        st_size s = unat (st_stride s) * unat (st_height s) \<and> length (st_prev s) = st_size s \<and> in_step p s)"

definition follows :: "stream \<Rightarrow> frame \<Rightarrow> bool" where
  "follows s c \<longleftrightarrow>
     (st_buffer s \<noteq> None \<longrightarrow>
        st_width s = cf_width c \<and> st_height s = cf_height c \<and> st_stride s = cf_stride c \<or> st_size s \<noteq> cf_size c)"

lemma send_tiles_gone: "st_gone (sn_stream g) \<Longrightarrow> st_gone (sn_stream (snd (send_tiles os mx ts g)))"
proof (induction ts arbitrary: g)
  case (Cons t ts)
  obtain ok g' where g: "send_tile os mx t g = (ok, g')" by (cases "send_tile os mx t g")
  then have "st_gone (sn_stream g')"
    using Cons.prems by (auto simp: send_tile_def Let_def remember_tile_def split: if_splits option.splits)
  then show ?case using Cons.IH[of g'] g by (cases ok) simp_all
qed simp

lemma send_frame_gone: "st_gone s \<Longrightarrow> st_gone (fst (send_frame os s))"
proof -
  assume h: "st_gone s"
  define mx where "mx = (if so_max_request os < 16384 then 16384 else so_max_request os)"
  define f0 where "f0 = \<lparr>sn_stream = s, sn_tiles = [], sn_bytes = 0, sn_sent = []\<rparr>"
  obtain ok f where f: "send_tiles os mx (frame_tiles s) f0 = (ok, f)" by (cases "send_tiles os mx (frame_tiles s) f0")
  have "st_gone (sn_stream f)" using send_tiles_gone[of f0 os mx "frame_tiles s"] f h by (simp add: f0_def)
  then show ?thesis using h f by (cases ok) (simp_all add: send_frame_def mx_def[symmetric] f0_def[symmetric] Let_def)
qed

lemma request_frame_same:
  assumes "request_frame s = (s', out)"
  shows "view out p = p" "st_buffer s' = st_buffer s" "st_size s' = st_size s" "st_prev s' = st_prev s" "st_width s' = st_width s"
    "st_height s' = st_height s" "st_stride s' = st_stride s" "st_have_prev s' = st_have_prev s" "st_context s' = st_context s"
    "st_gone s' = st_gone s"
  using assms by (auto simp: request_frame_def split: if_splits)

lemma frame_buffer_steady:
  assumes "steady p s" and "follows s c" and "no_shortage os"
    and "frame_buffer_done os (frame_buffer True (cf_width c) (cf_height c) (cf_stride c) s) = (s', out)"
  shows "view out p = p" "in_step p s'" "st_width s' = cf_width c" "st_height s' = cf_height c" "st_stride s' = cf_stride c"
    "st_buffer s' \<noteq> None" "st_size s' = cf_size c" "length (st_prev s') = cf_size c" "st_context s'"
proof -
  let ?s = "frame_buffer True (cf_width c) (cf_height c) (cf_stride c) s"
  have m: "frame_buffer_done os ?s = (case make_buffer os ?s of (False, s') \<Rightarrow> (s'\<lparr>st_gone := True\<rparr>, []) | (True, s') \<Rightarrow> (s', [CopyFrame (st_have_prev s')]))"
    by (simp add: frame_buffer_done_def frame_buffer_def)
  have "view out p = p \<and> in_step p s' \<and> st_width s' = cf_width c \<and> st_height s' = cf_height c \<and> st_stride s' = cf_stride c \<and>
    st_buffer s' \<noteq> None \<and> st_size s' = cf_size c \<and> length (st_prev s') = cf_size c \<and> st_context s'"
  proof (cases "st_buffer s \<noteq> None \<and> st_size s = cf_size c")
    case True
    then have shape: "st_width s = cf_width c" "st_height s = cf_height c" "st_stride s = cf_stride c" using assms(2) by (auto simp: follows_def)
    have "make_buffer os ?s = (True, ?s)" using True by (simp add: make_buffer_def frame_buffer_def cf_size_def Let_def)
    then have s': "s' = ?s" "out = [CopyFrame (st_have_prev ?s)]" using assms(4) m by auto
    show ?thesis unfolding s' using assms(1) True shape by (simp add: frame_buffer_def steady_def in_step_def)
  next
    case False
    have "s' = snd (make_buffer os ?s) \<and> fst (make_buffer os ?s) \<and> out = [CopyFrame (st_have_prev s')]"
      using assms(3,4) False m by (auto simp: make_buffer_def frame_buffer_def cf_size_def Let_def no_shortage_def)
    then show ?thesis
      using assms(1,3) False by (auto simp: make_buffer_def frame_buffer_def free_buffer_def cf_size_def Let_def no_shortage_def in_step_def steady_def)
  qed
  then show "view out p = p" "in_step p s'" "st_width s' = cf_width c" "st_height s' = cf_height c" "st_stride s' = cf_stride c"
    "st_buffer s' \<noteq> None" "st_size s' = cf_size c" "length (st_prev s') = cf_size c" "st_context s'" by blast+
qed


lemma captured_shows:
  assumes "steady p s" and "follows s c" and "no_shortage os" and "frame_whole c"
    and "captured os (s, out) c = (s', out')" and "\<not> st_gone s'" and "p = view out p0"
  shows "\<forall>x y. x < unat (cf_width c) \<longrightarrow> y < unat (cf_height c) \<longrightarrow> view out' p0 x y = frame_pixel c x y"
    "steady (view out' p0) s'"
    "st_width s' = cf_width c" "st_height s' = cf_height c" "st_stride s' = cf_stride c" "st_size s' = cf_size c"
proof -
  obtain s1 out1 where b: "frame_buffer_done os (frame_buffer True (cf_width c) (cf_height c) (cf_stride c) s) = (s1, out1)" by fastforce
  note b1 = frame_buffer_steady[OF assms(1-3) b]
  obtain s2 where s2: "s2 = (frame_flags (cf_flags c) s1)\<lparr>st_frame := False, st_data := cf_data c\<rparr>" by blast
  define s3 where "s3 = (if bit (cf_flags c) 0 then flip_rows os s2 else s2)"
  have fits2: "frame_fits s2" using b1 assms(4) by (simp add: frame_fits_def frame_whole_def s2 frame_flags_def cf_size_def)
  then have len2: "unat (st_stride s2) * unat (st_height s2) \<le> length (st_data s2)" by (simp add: frame_fits_def)
  have s3: "s3 = s2\<lparr>st_data := st_data s3\<rparr>" "length (st_data s3) = length (st_data s2)"
    using flip_rows_same(1)[of os s2] flip_rows_same(2)[OF len2, of os] by (simp_all add: s3_def)
  have same: "st_width s3 = cf_width c" "st_height s3 = cf_height c" "st_stride s3 = cf_stride c" "st_prev s3 = st_prev s1"
    "st_have_prev s3 = st_have_prev s1" "st_context s3" "st_buffer s3 = st_buffer s1" "st_size s3 = cf_size c"
    using b1 by (subst s3(1); simp add: s2 frame_flags_def)+
  have fits: "frame_fits s3" using fits2 s3(2) same b1 by (simp add: frame_fits_def s2 frame_flags_def)
  have step: "in_step p s3" using b1(2-5) same by (simp add: in_step_def)
  obtain s4 out2 where send: "send_frame os s3 = (s4, out2)" by fastforce
  obtain s5 out3 where req: "(if st_gone s4 then (s4, []) else request_frame s4) = (s5, out3)" by fastforce
  have "frame_ready os (cf_data c) (frame_flags (cf_flags c) s1) = (s5, out2 @ out3)"
    using send req same(6) unfolding frame_ready_def Let_def s2[symmetric] by (simp add: s3_def[symmetric] s2 frame_flags_def)
  then have r: "s' = s5" "out' = out @ out1 @ out2 @ out3" using assms(5) b by (simp_all add: captured_def)
  have alive: "\<not> st_gone s4" using req assms(6) r(1) by (auto split: if_splits)
  then have req: "request_frame s4 = (s5, out3)" using req by simp
  note q = request_frame_same[OF req]
  have osok: "so_tiles os" "\<forall>x y. so_tile os x y" "so_row os" using assms(3) by (simp_all add: no_shortage_def)
  note sent = send_frame_shows[OF fits step osok(1,2) send alive]
  obtain prev where s4: "length prev = length (st_prev s3)" "s4 = s3\<lparr>st_prev := prev, st_have_prev := True\<rparr>" using sent(3) by blast
  have view: "view out' p0 = view out2 p" unfolding r view_append q(1) b1(1)[unfolded assms(7)] using assms(7) b1(1) by simp
  have data: "pixel (unat (st_stride s3)) (st_data s3) x y = frame_pixel c x y" if "x < unat (cf_width c)" "y < unat (cf_height c)" for x y
    using flip_rows_shows[OF fits2 osok(3), of x y] that same b1(3-5)
    by (simp add: frame_pixel_def s3_def s2 frame_flags_def)
  show "\<forall>x y. x < unat (cf_width c) \<longrightarrow> y < unat (cf_height c) \<longrightarrow> view out' p0 x y = frame_pixel c x y"
    using sent(1) data same unfolding view by simp
  show shape: "st_width s' = cf_width c" "st_height s' = cf_height c" "st_stride s' = cf_stride c" "st_size s' = cf_size c"
    using q same by (simp_all add: r s4(2))
  show "steady (view out' p0) s'"
    using sent(2) q same b1(8) s4 shape unfolding view steady_def in_step_def by (simp add: r cf_size_def)
qed

lemma captured_gone: "st_gone s \<Longrightarrow> st_gone (fst (captured os (s, out) c))"
proof -
  assume h: "st_gone s"
  obtain s1 out1 where b: "frame_buffer_done os (frame_buffer True (cf_width c) (cf_height c) (cf_stride c) s) = (s1, out1)" by fastforce
  then have s1: "st_gone s1"
    using h by (auto simp: frame_buffer_done_def make_buffer_def frame_buffer_def free_buffer_def Let_def split: if_splits)
  define s2 where "s2 = (frame_flags (cf_flags c) s1)\<lparr>st_frame := False, st_data := cf_data c\<rparr>"
  define s3 where "s3 = (if bit (st_flags s2) 0 then flip_rows os s2 else s2)"
  have s3: "st_gone s3" using s1 by (simp add: s3_def s2_def frame_flags_def flip_rows_def)
  obtain s4 out2 where send: "(if st_context s3 then send_frame os s3 else (s3, [])) = (s4, out2)" by fastforce
  then have "st_gone s4" using send_frame_gone[OF s3, of os] s3 by (auto split: if_splits)
  then have "frame_ready os (cf_data c) (frame_flags (cf_flags c) s1) = (s4, out2)"
    using send unfolding frame_ready_def Let_def s2_def[symmetric] s3_def[symmetric] by simp
  then show ?thesis using b \<open>st_gone s4\<close> by (simp add: captured_def)
qed


text \<open>
  C25.  What the client sees is the screen: from a stream just started, after any run of
  frames (of any shapes the stream tells apart, either way up, in planar or raw coding,
  split over any number of updates), unless the stream was given up, every pixel of the
  client's picture is the pixel of the last frame, whatever the client showed at first.
\<close>

theorem client_sees_screen:
  assumes "st_buffer s = None" and "st_context s" and "no_shortage os" and "frames \<noteq> []"
    and "\<forall>c\<in>set frames. frame_whole c" and "successively told_apart frames"
    and "foldl (captured os) (s, []) frames = (s', out)" and "\<not> st_gone s'"
    and "x < unat (cf_width (last frames))" and "y < unat (cf_height (last frames))"
  shows "view out p x y = frame_pixel (last frames) x y"
proof -
  have "steady (view out p) s' \<and>
      (\<forall>x y. x < unat (cf_width (last frames)) \<longrightarrow> y < unat (cf_height (last frames)) \<longrightarrow> view out p x y = frame_pixel (last frames) x y) \<and>
      st_width s' = cf_width (last frames) \<and> st_height s' = cf_height (last frames) \<and> st_stride s' = cf_stride (last frames) \<and>
      st_size s' = cf_size (last frames)"
    using assms(4-8)
  proof (induction frames arbitrary: s' out rule: rev_induct)
    case (snoc c frames)
    obtain s1 out1 where r: "foldl (captured os) (s, []) frames = (s1, out1)" by fastforce
    then have step: "captured os (s1, out1) c = (s', out)" using snoc.prems(4) by simp
    then have alive: "\<not> st_gone s1" using captured_gone[of s1 os out1 c] snoc.prems(5) by auto
    have "steady (view out1 p) s1 \<and> follows s1 c"
    proof (cases "frames = []")
      case True
      then show ?thesis using r assms(1,2) by (simp add: steady_def follows_def)
    next
      case False
      have "successively told_apart frames" "told_apart (last frames) c"
        using snoc.prems(3) False by (simp_all add: successively_append_iff)
      moreover from this(1) have "steady (view out1 p) s1" "st_width s1 = cf_width (last frames)" "st_height s1 = cf_height (last frames)"
        "st_stride s1 = cf_stride (last frames)" "st_size s1 = cf_size (last frames)"
        using snoc.IH[OF False _ _ r alive] snoc.prems(2) by simp_all
      ultimately show ?thesis by (auto simp: follows_def told_apart_def)
    qed
    then have now: "steady (view out1 p) s1" "follows s1 c" by simp_all
    have "frame_whole c" using snoc.prems(2) by simp
    note captured_shows[OF now assms(3) this step snoc.prems(5) refl]
    then show ?case by simp
  qed simp
  then show ?thesis using assms(9,10) by blast
qed

definition screen_os :: stream_os where
  "screen_os = \<lparr>so_buffer = (\<lambda>_. True), so_prev = (\<lambda>_. True), so_junk = (\<lambda>n. replicate n 7), so_row = True, so_tiles = True,
     so_tile = (\<lambda>_ _. True), so_update = (\<lambda>_. True), so_max_request = 0\<rparr>"

definition screen_frames :: "frame list" where
  "screen_frames =
     [\<lparr>cf_width = 1, cf_height = 2, cf_stride = 4, cf_flags = 0, cf_data = [1, 2, 3, 0, 4, 5, 6, 0]\<rparr>,
      \<lparr>cf_width = 1, cf_height = 2, cf_stride = 4, cf_flags = 1, cf_data = [7, 8, 9, 0, 1, 2, 3, 0]\<rparr>]"

lemma captured_alive:
  assumes "\<forall>bs. so_update os bs" and "no_shortage os" and "\<not> st_gone s"
  shows "\<not> st_gone (fst (captured os (s, out) c))"
proof -
  obtain s1 out1 where b: "frame_buffer_done os (frame_buffer True (cf_width c) (cf_height c) (cf_stride c) s) = (s1, out1)" by fastforce
  then have s1: "\<not> st_gone s1"
    using assms by (auto simp: frame_buffer_done_def make_buffer_def frame_buffer_def free_buffer_def no_shortage_def Let_def split: if_splits)
  define s2 where "s2 = (frame_flags (cf_flags c) s1)\<lparr>st_frame := False, st_data := cf_data c\<rparr>"
  define s3 where "s3 = (if bit (st_flags s2) 0 then flip_rows os s2 else s2)"
  have s3: "\<not> st_gone s3" using s1 by (simp add: s3_def s2_def frame_flags_def flip_rows_def)
  have tile: "fst (send_tile os mx t g) \<and> \<not> st_gone (sn_stream (snd (send_tile os mx t g)))" if "\<not> st_gone (sn_stream g)" for mx t g
    using that assms(1) by (auto simp: send_tile_def Let_def remember_tile_def split: option.split)
  have tiles: "fst (send_tiles os mx ts g) \<and> \<not> st_gone (sn_stream (snd (send_tiles os mx ts g)))" if "\<not> st_gone (sn_stream g)" for mx ts g
    using that
  proof (induction ts arbitrary: g)
    case (Cons t ts)
    obtain ok g' where g: "send_tile os mx t g = (ok, g')" by (cases "send_tile os mx t g")
    then have "ok" "\<not> st_gone (sn_stream g')" using tile[OF Cons.prems, of mx t] by simp_all
    then show ?case using Cons.IH[of g'] g by simp
  qed simp
  define mx where "mx = (if so_max_request os < 16384 then 16384 else so_max_request os)"
  define f0 where "f0 = \<lparr>sn_stream = s3, sn_tiles = [], sn_bytes = 0, sn_sent = []\<rparr>"
  obtain ok f where f: "send_tiles os mx (frame_tiles s3) f0 = (ok, f)" by (cases "send_tiles os mx (frame_tiles s3) f0")
  then have "ok" "\<not> st_gone (sn_stream f)" using tiles[of f0 mx "frame_tiles s3"] s3 by (simp_all add: f0_def)
  then have sent: "\<not> st_gone (fst (send_frame os s3))"
    using f s3 assms(1) by (simp add: send_frame_def mx_def[symmetric] f0_def[symmetric] Let_def)
  obtain s4 out2 where send: "(if st_context s3 then send_frame os s3 else (s3, [])) = (s4, out2)" by fastforce
  then have s4: "\<not> st_gone s4" using sent s3 by (auto split: if_splits)
  obtain s5 out3 where req: "request_frame s4 = (s5, out3)" by fastforce
  have "frame_ready os (cf_data c) (frame_flags (cf_flags c) s1) = (s5, out2 @ out3)"
    using send req s4 unfolding frame_ready_def Let_def s2_def[symmetric] s3_def[symmetric] by simp
  then show ?thesis using b s4 request_frame_same(10)[OF req] by (simp add: captured_def)
qed

theorem client_sees_screen_witness:
  "\<not> st_gone (fst (foldl (captured screen_os) (stream_example\<lparr>st_buffer := None\<rparr>, []) screen_frames)) \<and>
   view (snd (foldl (captured screen_os) (stream_example\<lparr>st_buffer := None\<rparr>, []) screen_frames)) (\<lambda>_ _. (0, 0, 0)) 0 1 = (7, 8, 9)"
proof -
  let ?s = "stream_example\<lparr>st_buffer := None\<rparr>"
  let ?r = "foldl (captured screen_os) (?s, []) screen_frames"
  have os: "no_shortage screen_os" "\<forall>bs. so_update screen_os bs" by (simp_all add: no_shortage_def screen_os_def)
  have alive: "\<not> st_gone (fst (captured screen_os r c))" if "\<not> st_gone (fst r)" for r c
    using captured_alive[OF os(2,1) that, of "snd r" c] by simp
  have run: "\<not> st_gone (fst ?r)" by (simp add: screen_frames_def alive stream_example_def)
  have shapes: "\<forall>c\<in>set screen_frames. frame_whole c" "successively told_apart screen_frames"
    by (simp_all add: screen_frames_def frame_whole_def cf_size_def told_apart_def)
  have "view (snd ?r) (\<lambda>_ _. (0, 0, 0)) 0 1 = frame_pixel (last screen_frames) 0 1"
    using client_sees_screen[OF _ _ os(1) _ shapes prod.collapse[symmetric] run, of 0 1 "\<lambda>_ _. (0, 0, 0)"]
    by (simp add: stream_example_def screen_frames_def)
  then show ?thesis using run by (simp add: frame_pixel_def pixel_def screen_frames_def)
qed

text \<open>
  A screen turned by a quarter has frames of the same size: the buffer of the old shape is
  kept, with the frame remembered in it, and the next copy is asked for into it.
\<close>

lemma turned_screen_keeps_buffer:
  assumes "st_buffer s = Some (w, h, 4 * w)" and "unat w < 2 ^ 30" and "unat h < 2 ^ 30" and "st_size s = 4 * (unat w * unat h)"
  shows "frame_buffer_done os (frame_buffer True h w (4 * h) s) =
    (s\<lparr>st_width := h, st_height := w, st_stride := 4 * h, st_offered := True\<rparr>, [CopyFrame (st_have_prev s)])"
proof -
  have "unat (4 * h) = 4 * unat h" using assms(3) by (simp add: unat_mult_lem[THEN iffD1])
  then show ?thesis using assms(1,4) by (simp add: frame_buffer_done_def frame_buffer_def make_buffer_def Let_def mult.commute)
qed

end
