(* ===== verification/Sg_Pamcheck.thy ===== *)
theory Sg_Pamcheck
  imports Sg_Monitor Sg_Lock Sg_Rdp
begin

text \<open>
  The one program that asks PAM (\<open>src/greeter/sg-rdp-pamcheck.c\<close>), and what the broker,
  the lock screen and Remote Desktop make of it: each of their password checks is PAM's
  answer for exactly the name and the password that were typed.  PAM is the record
  \<open>pam_os\<close>: each of its calls with what it answers (0: \<open>PAM_SUCCESS\<close>), where
  \<open>pam_authenticate\<close> and \<open>pam_acct_mgmt\<close> may call the conversation back with any lists of
  messages.  Memory allocation does not fail.
\<close>

section \<open>The program\<close>

datatype msg_style = PROMPT_ECHO_OFF | PROMPT_ECHO_ON | ERROR_MSG | TEXT_INFO

text \<open>The conversation PAM calls back: one answer (or none) per message, or \<open>PAM_CONV_ERR\<close>.\<close>

type_synonym conversation = "msg_style list \<Rightarrow> string option list option"

record pam_handle =
  ph_service :: string
  ph_user :: string
  ph_confdir :: "string option"
  ph_rhost :: "string option"
  ph_env :: "string list"

record pam_os =
  pam_start :: "string \<Rightarrow> string \<Rightarrow> string option \<Rightarrow> nat"
  pam_set_rhost :: "pam_handle \<Rightarrow> string \<Rightarrow> nat"
  pam_putenv :: "pam_handle \<Rightarrow> string \<Rightarrow> nat"
  pam_authenticate :: "pam_handle \<Rightarrow> bool \<Rightarrow> conversation \<Rightarrow> nat"
  pam_acct_mgmt :: "pam_handle \<Rightarrow> bool \<Rightarrow> conversation \<Rightarrow> nat"
  pam_strerror :: "nat \<Rightarrow> string"
  pam_accounts :: accounts
  pam_dir_owner :: "string \<Rightarrow> uid_t option"

definition PAM_MAXFIELD :: nat where "PAM_MAXFIELD = 512"
definition PAM_MAX_NUM_MSG :: nat where "PAM_MAX_NUM_MSG = 32"

definition pam_conv :: "string \<Rightarrow> conversation" where
  "pam_conv password msgs =
     (if msgs = [] \<or> length msgs > PAM_MAX_NUM_MSG then None
      else if PROMPT_ECHO_ON \<in> set msgs then None
      else Some (map (\<lambda>m. if m = PROMPT_ECHO_OFF then Some password else None) msgs))"

text \<open>\<open>acc\<close>: the bytes of the field so far, \<open>i\<close> in number.\<close>

fun read_field_from :: "nat \<Rightarrow> string \<Rightarrow> bytes \<Rightarrow> (string \<times> bytes) option" where
  "read_field_from mx acc [] = None"
| "read_field_from mx acc (c # input) =
     (if c = NUL then Some (acc, input)
      else if length acc + 1 \<ge> mx then None
      else read_field_from mx (acc @ [c]) input)"

definition read_field :: "nat \<Rightarrow> bytes \<Rightarrow> (string \<times> bytes) option" where
  "read_field mx input = read_field_from mx [] input"

definition set_runtime_dir :: "env \<Rightarrow> pam_os \<Rightarrow> pam_handle \<Rightarrow> string \<Rightarrow> nat \<times> pam_handle" where
  "set_runtime_dir e pam ph user =
     (case getpwnam (pam_accounts pam) user of
        None \<Rightarrow> (0, ph)
      | Some pw \<Rightarrow>
          let root = (case e ''SG_RUNTIME_ROOT'' of Some r \<Rightarrow> if r = [] then ''/run/user'' else r | None \<Rightarrow> ''/run/user'');
              dir = snprintf_s 400 (root @ ''/'' @ show_u32 (pw_uid pw))
          in if pam_dir_owner pam dir \<noteq> Some (pw_uid pw) then (0, ph)
             else let line = snprintf_s 440 (''XDG_RUNTIME_DIR='' @ dir)
                  in (pam_putenv pam ph line, ph\<lparr>ph_env := ph_env ph @ [line]\<rparr>))"

definition pam_service :: "env \<Rightarrow> string" where
  "pam_service e = (case e ''SG_REMOTE_PAM_SERVICE'' of Some s \<Rightarrow> s | None \<Rightarrow> ''stained-glass-remote'')"

definition pam_console :: "env \<Rightarrow> bool" where
  "pam_console e \<longleftrightarrow> e ''SG_PAMCHECK_CONSOLE'' = Some ''1''"

definition pam_keyring :: "env \<Rightarrow> bool" where
  "pam_keyring e \<longleftrightarrow> e ''SG_PAMCHECK_KEYRING'' = Some ''1''"

definition pam_rhost :: "env \<Rightarrow> string" where
  "pam_rhost e = (case e ''SG_PAMCHECK_RHOST'' of Some h \<Rightarrow> h | None \<Rightarrow> if pam_console e then [] else ''rdp'')"

definition pam_confdir :: "env \<Rightarrow> string option" where
  "pam_confdir e = (case e ''SG_PAM_CONFDIR'' of Some d \<Rightarrow> if d = [] then None else Some d | None \<Rightarrow> None)"

text \<open>The calls in order, each only after the success of those before it.\<close>

definition pam_prepare :: "env \<Rightarrow> pam_os \<Rightarrow> string \<Rightarrow> nat \<times> pam_handle" where
  "pam_prepare e pam user =
     (let ph = \<lparr>ph_service = pam_service e, ph_user = user, ph_confdir = pam_confdir e, ph_rhost = None, ph_env = []\<rparr>;
          rc = pam_start pam (pam_service e) user (pam_confdir e);
          (rc, ph) = (if rc = 0 \<and> pam_rhost e \<noteq> [] then (pam_set_rhost pam ph (pam_rhost e), ph\<lparr>ph_rhost := Some (pam_rhost e)\<rparr>) else (rc, ph));
          (rc, ph) = (if rc = 0 \<and> pam_console e then set_runtime_dir e pam ph user else (rc, ph))
      in if rc = 0 \<and> pam_keyring e \<and> \<not> pam_console e then set_runtime_dir e pam ph user else (rc, ph))"

definition pam_result :: "env \<Rightarrow> pam_os \<Rightarrow> string \<Rightarrow> string \<Rightarrow> nat" where
  "pam_result e pam user password =
     (let (rc, ph) = pam_prepare e pam user; disallow_null = \<not> pam_console e;
          rc = (if rc = 0 then pam_authenticate pam ph disallow_null (pam_conv password) else rc)
      in if rc = 0 then pam_acct_mgmt pam ph disallow_null (pam_conv password) else rc)"

definition pamcheck :: "env \<Rightarrow> pam_os \<Rightarrow> bytes \<Rightarrow> wait_status \<times> bytes" where
  "pamcheck e pam input =
     (case read_field PAM_MAXFIELD input of
        None \<Rightarrow> (Exited 1, ''FAIL malformed request'' @ [LF])
      | Some (user, rest) \<Rightarrow>
          (case read_field PAM_MAXFIELD rest of
             None \<Rightarrow> (Exited 1, ''FAIL malformed request'' @ [LF])
           | Some (password, _) \<Rightarrow>
               if user = [] then (Exited 1, ''FAIL empty user'' @ [LF])
               else let rc = pam_result e pam user password
                    in if rc = 0 then (Exited 0, ''OK'' @ [LF])
                       else (Exited 1, ''FAIL '' @ pam_strerror pam rc @ [LF])))"

section \<open>Its callers' environments\<close>

text \<open>
  The variables the callers set: \<open>e\<close> is the service's own environment.  \<open>lock_pam_env\<close> and
  \<open>broker_pam_env\<close> set the PAM service only when it is not set already.
\<close>

definition broker_pam_env :: "env \<Rightarrow> string option \<Rightarrow> env" where
  "broker_pam_env e service =
     (let e1 = setenv ''SG_PAMCHECK_RHOST'' '''' e;
          e2 = (if e1 ''SG_REMOTE_PAM_SERVICE'' = None then setenv ''SG_REMOTE_PAM_SERVICE'' ''stained-glass-elevate'' e1 else e1)
      in case service of Some s \<Rightarrow> setenv ''SG_REMOTE_PAM_SERVICE'' s e2 | None \<Rightarrow> e2)"

definition lock_pam_env :: "env \<Rightarrow> env" where
  "lock_pam_env e =
     (let e1 = (if e ''SG_REMOTE_PAM_SERVICE'' = None then setenv ''SG_REMOTE_PAM_SERVICE'' ''stained-glass-lock'' e else e)
      in setenv ''SG_PAMCHECK_CONSOLE'' ''1'' e1)"

definition rdp_pam_env :: "env \<Rightarrow> bool \<Rightarrow> string \<Rightarrow> env" where
  "rdp_pam_env e keyring rhost =
     (let e1 = setenv ''SG_PAMCHECK_RHOST'' rhost (e(''SG_PAMCHECK_CONSOLE'' := None))
      in if keyring then setenv ''SG_PAMCHECK_KEYRING'' ''1'' e1 else e1(''SG_PAMCHECK_KEYRING'' := None))"

section \<open>Fields\<close>

lemma read_field_from_cput:
  "nul_free s \<Longrightarrow> read_field_from mx acc (cput s @ rest) =
     (if s = [] \<or> length acc + length s < mx then Some (acc @ s, rest) else None)"
proof (induction s arbitrary: acc)
  case Nil
  show ?case by (simp add: cput_def)
next
  case (Cons c s)
  have "c \<noteq> NUL" "nul_free s" using Cons.prems by (auto simp: nul_free_def)
  then show ?case using Cons.IH[of "acc @ [c]"] by (auto simp: cput_def)
qed

lemma read_field_cput:
  "nul_free s \<Longrightarrow> read_field PAM_MAXFIELD (cput s @ rest) = (if length s < PAM_MAXFIELD then Some (s, rest) else None)"
  by (auto simp: read_field_def read_field_from_cput PAM_MAXFIELD_def)

lemma pamcheck_says:
  assumes "nul_free user" and "nul_free pass"
  shows "(\<exists>out. pamcheck e pam (cput user @ cput pass) = (Exited 0, out)) \<longleftrightarrow>
      length user < PAM_MAXFIELD \<and> length pass < PAM_MAXFIELD \<and> user \<noteq> [] \<and> pam_result e pam user pass = 0"
    "pamcheck e pam (cput user @ cput pass) = (Exited 0, out) \<Longrightarrow> out = ''OK'' @ [LF]"
proof -
  have two: "read_field PAM_MAXFIELD (cput pass) = (if length pass < PAM_MAXFIELD then Some (pass, []) else None)"
    using read_field_cput[OF assms(2), of "[]"] by simp
  show "(\<exists>out. pamcheck e pam (cput user @ cput pass) = (Exited 0, out)) \<longleftrightarrow>
      length user < PAM_MAXFIELD \<and> length pass < PAM_MAXFIELD \<and> user \<noteq> [] \<and> pam_result e pam user pass = 0"
    unfolding pamcheck_def read_field_cput[OF assms(1)]
    by (cases "length user < PAM_MAXFIELD"; cases "length pass < PAM_MAXFIELD"; cases "user = []"; cases "pam_result e pam user pass = 0")
      (simp_all add: two Let_def)
  show "pamcheck e pam (cput user @ cput pass) = (Exited 0, out) \<Longrightarrow> out = ''OK'' @ [LF]"
    unfolding pamcheck_def read_field_cput[OF assms(1)]
    by (cases "length user < PAM_MAXFIELD"; cases "length pass < PAM_MAXFIELD"; cases "user = []"; cases "pam_result e pam user pass = 0")
      (simp_all add: two Let_def)
qed


section \<open>The three callers\<close>

lemma pam_limits: "length s < MAXFIELD \<Longrightarrow> length s < PAM_MAXFIELD" "length s < LOCK_MAXFIELD \<longleftrightarrow> length s < PAM_MAXFIELD"
  by (simp_all add: MAXFIELD_def PAM_MAXFIELD_def LOCK_MAXFIELD_def)

lemma says_ok: "starts ''OK'' (''OK'' @ [LF])"
  by (rule starts_append)

lemma ok_line: "cstr (''OK'' @ [LF]) = ''OK'' @ [LF]" "take 63 (''OK'' @ [LF]) = ''OK'' @ [LF]" "take 255 (''OK'' @ [LF]) = ''OK'' @ [LF]"
  by (simp_all add: cstr_def)

text \<open>A caller takes the exit status 0 with a line that starts with OK.\<close>

lemma helper_takes:
  assumes "nul_free user" and "nul_free pass" and "starts ''OK'' (f (''OK'' @ [LF]))"
  shows "(\<exists>out. pamcheck e pam (cput user @ cput pass) = (Exited 0, out) \<and> starts ''OK'' (f out)) \<longleftrightarrow>
    length user < PAM_MAXFIELD \<and> length pass < PAM_MAXFIELD \<and> user \<noteq> [] \<and> pam_result e pam user pass = 0"
  using pamcheck_says(1)[OF assms(1,2), of e pam] pamcheck_says(2)[OF assms(1,2), of e pam] assms(3) by metis

lemma lock_pamcheck_pam:
  assumes "nul_free user" and "nul_free pass"
  shows "lock_pamcheck (\<lambda>input. Some (pamcheck (lock_pam_env e) pam input)) user pass \<longleftrightarrow>
    length user < PAM_MAXFIELD \<and> length pass < PAM_MAXFIELD \<and> user \<noteq> [] \<and> pam_result (lock_pam_env e) pam user pass = 0"
  unfolding helper_takes[OF assms, where f = "take 63", unfolded ok_line, OF says_ok, symmetric] lock_pamcheck_def
  by (auto split: prod.split)

lemma monitor_check_pam:
  assumes "nul_free user" and "nul_free pass" and "rd_helper os = (\<lambda>keyring rhost input. Some (pamcheck (rdp_pam_env e keyring rhost) pam input))"
  shows "monitor_check os user pass rhost keyring \<longleftrightarrow>
    length user < PAM_MAXFIELD \<and> length pass < PAM_MAXFIELD \<and> user \<noteq> [] \<and> pam_result (rdp_pam_env e keyring rhost) pam user pass = 0"
  unfolding helper_takes[OF assms(1,2), where f = "take 255", unfolded ok_line, OF says_ok, symmetric] monitor_check_def assms(3)
  by (auto split: prod.split)


definition ex_pam :: pam_os where
  "ex_pam = \<lparr>pam_start = (\<lambda>_ _ _. 0), pam_set_rhost = (\<lambda>_ _. 0), pam_putenv = (\<lambda>_ _. 0),
     pam_authenticate = (\<lambda>ph disallow_null conv.
       if conv [TEXT_INFO, PROMPT_ECHO_OFF] = Some [None, Some ''pw''] then 0 else 7),
     pam_acct_mgmt = (\<lambda>ph _ _. if ph_user ph = ''alice'' then 0 else 13), pam_strerror = (\<lambda>_. ''no''),
     pam_accounts = ex_accounts, pam_dir_owner = (\<lambda>_. None)\<rparr>"


lemma pam_result_authenticated:
  "pam_result e pam user pass = 0 \<Longrightarrow> \<exists>ph. pam_authenticate pam ph (\<not> pam_console e) (pam_conv pass) = 0"
  by (auto simp: pam_result_def Let_def split: prod.splits if_splits)

lemma console_broker: "pam_console (broker_pam_env e service) \<longleftrightarrow> pam_console e"
  by (simp add: broker_pam_env_def pam_console_def Let_def split: option.split)

lemma console_rdp: "\<not> pam_console (rdp_pam_env e keyring rhost)"
  by (simp add: rdp_pam_env_def pam_console_def Let_def)

lemma pam_conv_blank: "pam_conv [] msgs = Some answers \<Longrightarrow> a \<in> set answers \<Longrightarrow> a = None \<or> a = Some []"
  by (auto simp: pam_conv_def split: if_splits)


text \<open>
  A blank password is for the console only: with a PAM that honours
  \<open>PAM_DISALLOW_NULL_AUTHTOK\<close> (it authenticates nobody by blank answers under that flag), the
  broker and Remote Desktop refuse every blank password, whatever the account.
\<close>

theorem blank_password_refused:
  assumes "\<forall>ph conv. (\<forall>msgs answers. conv msgs = Some answers \<longrightarrow> (\<forall>a\<in>set answers. a = None \<or> a = Some [])) \<longrightarrow>
      pam_authenticate pam ph True conv \<noteq> 0"
    and "nul_free user" and "length user < 2 ^ 32" and "\<not> pam_console e"
    and "rd_helper ros = (\<lambda>keyring rhost input. Some (pamcheck (rdp_pam_env e keyring rhost) pam input))"
  shows "\<not> check_password_as (monitor_reply cfg (os\<lparr>mo_pamcheck := \<lambda>service input. Some (pamcheck (broker_pam_env e service) pam input)\<rparr>))
            user [] logon \<and> \<not> monitor_check ros user [] rhost keyring"
proof -
  have none: "pam_result e' pam user [] \<noteq> 0" if c: "\<not> pam_console e'" for e'
  proof
    assume "pam_result e' pam user [] = 0"
    then obtain ph where "pam_authenticate pam ph True (pam_conv []) = 0"
      using pam_result_authenticated[of e' pam user "[]"] unfolding eqTrueI[OF c] by blast
    moreover have "\<forall>msgs answers. pam_conv [] msgs = Some answers \<longrightarrow> (\<forall>a\<in>set answers. a = None \<or> a = Some [])"
      using pam_conv_blank by blast
    ultimately show False using assms(1) by blast
  qed
  let ?e = "\<lambda>service. broker_pam_env e service"
  have "\<not> monitor_check ros user [] rhost keyring"
    using none[OF console_rdp, of e keyring rhost] unfolding monitor_check_pam[OF assms(2) nul_free_Nil assms(5)] by blast
  moreover have ok: "starts ''OK'' (cstr (take 63 (''OK'' @ [LF])))" unfolding ok_line by (rule says_ok)
  have "\<not> (\<exists>out. pamcheck (?e service) pam (cput user @ cput []) = (Exited 0, out) \<and> starts ''OK'' (cstr (take 63 out)))" for service
    unfolding helper_takes[OF assms(2) nul_free_Nil, of "\<lambda>out. cstr (take 63 out)", OF ok]
    using none[of "?e service"] assms(4) console_broker by blast
  then have "\<not> check_password_as (monitor_reply cfg (os\<lparr>mo_pamcheck := \<lambda>service input. Some (pamcheck (?e service) pam input)\<rparr>)) user [] logon"
    using check_password_as_iff[OF assms(2) nul_free_Nil assms(3), of cfg "os\<lparr>mo_pamcheck := \<lambda>service input. Some (pamcheck (?e service) pam input)\<rparr>" logon]
    by simp
  ultimately show ?thesis by blast
qed

theorem blank_password_refused_witness:
  "\<not> monitor_check (ex_rdp_os\<lparr>rd_helper := \<lambda>keyring rhost input. Some (pamcheck (rdp_pam_env Map.empty keyring rhost) ex_pam input)\<rparr>)
       ''alice'' [] ''192.0.2.1'' False"
proof -
  have "\<forall>ph conv. (\<forall>msgs answers. conv msgs = Some answers \<longrightarrow> (\<forall>a\<in>set answers. a = None \<or> a = Some [])) \<longrightarrow>
      pam_authenticate ex_pam ph True conv \<noteq> 0"
  proof (intro allI impI)
    fix ph and conv :: conversation assume h: "\<forall>msgs answers. conv msgs = Some answers \<longrightarrow> (\<forall>a\<in>set answers. a = None \<or> a = Some [])"
    have "conv [TEXT_INFO, PROMPT_ECHO_OFF] \<noteq> Some [None, Some ''pw'']" using h by fastforce
    then show "pam_authenticate ex_pam ph True conv \<noteq> 0" by (simp add: ex_pam_def)
  qed
  from blank_password_refused[OF this, of "''alice''" Map.empty
      "ex_rdp_os\<lparr>rd_helper := \<lambda>keyring rhost input. Some (pamcheck (rdp_pam_env Map.empty keyring rhost) ex_pam input)\<rparr>"]
  show ?thesis by (simp add: nul_free_def pam_console_def)
qed

end
