(* ===== verification/Sg_Saver.thy ===== *)
theory Sg_Saver
  imports Sg_Prelude "HOL-Library.Multiset"
begin

text \<open>
  The screen saver service of a session (\<open>src/power/sg-screensaverd.c\<close>): the inhibitions
  programs hold, the one connection to the compositor that holds its idle off, and every
  method of the interface.  A D-Bus message is the record \<open>message\<close>; D-Bus gives
  \<open>m_sender\<close>, the unique name of the connection that sent it.  \<open>compositor\<close> gives the reply to a command on a new connection: \<open>None\<close> when
  it cannot be reached.
\<close>

section \<open>The service\<close>

record inhibition =
  cookie :: u32
  owner :: string
  app :: string
  reason :: string

record saver =
  sv_held :: "inhibition list"
  sv_size :: nat
  sv_next :: u32
  sv_hold :: bool

datatype arg = AString string | AUint u32 | ABool bool

datatype message_type = Method_call | Signal | Other_type

record message =
  m_type :: message_type
  m_sender :: "string option"
  m_path :: "string option"
  m_iface :: "string option"
  m_member :: "string option"
  m_args :: "arg list"

datatype saver_reply = Return "arg list" | Invalid_args | No_memory | No_such_inhibition | Unknown_method string | Introspection

datatype handled = Handled "saver_reply option" | Not_yet_handled

text \<open>
  The compositor at one moment: what it sends back to a command (\<open>Some []\<close>: nothing came),
  \<open>None\<close> if the socket cannot be reached.
\<close>

type_synonym compositor = "string \<Rightarrow> bytes option"

text \<open>The reply of a command, up to 63 bytes; nothing is an error.\<close>

definition saver_command :: "compositor \<Rightarrow> string \<Rightarrow> string option" where
  "saver_command cm command =
     (case cm command of
        None \<Rightarrow> None
      | Some bs \<Rightarrow> if take 63 bs = [] then None else Some (cstr (take 63 bs)))"

definition update_hold :: "compositor \<Rightarrow> saver \<Rightarrow> saver" where
  "update_hold cm s =
     (if sv_held s \<noteq> [] \<and> \<not> sv_hold s then
        (case cm (''INHIBIT'' @ [LF]) of
           None \<Rightarrow> s
         | Some bs \<Rightarrow> s\<lparr>sv_hold := take 63 bs \<noteq> [] \<and> starts ''OK'' (take 63 bs)\<rparr>)
      else if sv_held s = [] \<and> sv_hold s then s\<lparr>sv_hold := False\<rparr>
      else s)"

text \<open>The last one takes the place of the one dropped.\<close>

definition drop_inhibition :: "nat \<Rightarrow> saver \<Rightarrow> saver" where
  "drop_inhibition i s = s\<lparr>sv_held := butlast ((sv_held s)[i := last (sv_held s)])\<rparr>"

text \<open>\<open>grown\<close>: \<open>realloc\<close> gives more memory.  The cookie 0 is a failure.\<close>

definition add :: "bool \<Rightarrow> string option \<Rightarrow> string \<Rightarrow> string \<Rightarrow> saver \<Rightarrow> u32 \<times> saver" where
  "add grown sender a r s =
     (if length (sv_held s) = sv_size s \<and> \<not> grown then (0, s)
      else let size = (if length (sv_held s) = sv_size s then (if sv_size s \<noteq> 0 then sv_size s * 2 else 8) else sv_size s);
               c = sv_next s; n = c + 1
           in (c, s\<lparr>sv_held := sv_held s @ [\<lparr>cookie = c, owner = (case sender of Some o' \<Rightarrow> o' | None \<Rightarrow> []), app = a, reason = r\<rparr>],
                    sv_size := size, sv_next := if n = 0 then 1 else n\<rparr>))"

definition is_locked :: "compositor \<Rightarrow> bool" where
  "is_locked cm = (case saver_command cm (''STATUS'' @ [LF]) of None \<Rightarrow> False | Some r \<Rightarrow> starts ''OK locked'' r)"

text \<open>The loop over the inhibitions of a program that went away.\<close>

function drop_owned :: "string \<Rightarrow> nat \<Rightarrow> saver \<Rightarrow> saver" where
  "drop_owned name i s =
     (if i < length (sv_held s)
      then (if owner (sv_held s ! i) = name then drop_owned name i (drop_inhibition i s) else drop_owned name (i + 1) s)
      else s)"
  by pat_completeness auto
termination
  by (relation "measure (\<lambda>(name, i, s). length (sv_held s) - i)") (auto simp: drop_inhibition_def)

declare drop_owned.simps [simp del]

definition find_inhibition :: "u32 \<Rightarrow> string option \<Rightarrow> saver \<Rightarrow> nat option" where
  "find_inhibition c sender s =
     find (\<lambda>i. cookie (sv_held s ! i) = c \<and> sender = Some (owner (sv_held s ! i))) [0..<length (sv_held s)]"

definition saver_path :: "string \<Rightarrow> bool" where
  "saver_path path \<longleftrightarrow> path = ''/org/freedesktop/ScreenSaver'' \<or> path = ''/ScreenSaver''"

definition uninhibit :: "compositor \<Rightarrow> string option \<Rightarrow> u32 \<Rightarrow> saver \<Rightarrow> saver_reply \<times> saver" where
  "uninhibit cm sender c s =
     (case find_inhibition c sender s of
        None \<Rightarrow> (No_such_inhibition, s)
      | Some i \<Rightarrow> (Return [], update_hold cm (drop_inhibition i s)))"

definition inhibit :: "compositor \<Rightarrow> bool \<Rightarrow> string option \<Rightarrow> string \<Rightarrow> string \<Rightarrow> saver \<Rightarrow> saver_reply \<times> saver" where
  "inhibit cm grown sender a r s =
     (case add grown sender a r s of
        (c, s') \<Rightarrow> if c = 0 then (No_memory, s') else (Return [AUint c], update_hold cm s'))"

datatype method_name = Inhibit | UnInhibit | SimulateUserActivity | Lock | SetActive | GetActive | GetTime | Unknown

definition saver_method :: "string \<Rightarrow> method_name" where
  "saver_method member =
     (if member = ''Inhibit'' then Inhibit
      else if member = ''UnInhibit'' then UnInhibit
      else if member = ''SimulateUserActivity'' then SimulateUserActivity
      else if member = ''Lock'' then Lock
      else if member = ''SetActive'' then SetActive
      else if member = ''GetActive'' then GetActive
      else if member = ''GetActiveTime'' \<or> member = ''GetSessionIdleTime'' then GetTime
      else Unknown)"

text \<open>A method with its arguments: the reply, the commands sent besides the hold, the service after it.\<close>

definition call_method :: "compositor \<Rightarrow> bool \<Rightarrow> string option \<Rightarrow> method_name \<Rightarrow> string \<Rightarrow> arg list \<Rightarrow> saver \<Rightarrow> saver_reply \<times> string list \<times> saver" where
  "call_method cm grown sender m member args s =
     (case m of
        Inhibit \<Rightarrow>
          (case args of
             AString a # AString r # _ \<Rightarrow> (case inhibit cm grown sender a r s of (reply, s') \<Rightarrow> (reply, [], s'))
           | _ \<Rightarrow> (Invalid_args, [], s))
      | UnInhibit \<Rightarrow>
          (case args of
             AUint c # _ \<Rightarrow> (case uninhibit cm sender c s of (reply, s') \<Rightarrow> (reply, [], s'))
           | _ \<Rightarrow> (Invalid_args, [], s))
      | SimulateUserActivity \<Rightarrow> (Return [], [''INHIBIT'' @ [LF]], s)
      | Lock \<Rightarrow> (Return [], [''LOCK'' @ [LF]], s)
      | SetActive \<Rightarrow>
          (case args of
             ABool active # _ \<Rightarrow>
               (Return [ABool (active \<and> (case saver_command cm (''LOCK'' @ [LF]) of None \<Rightarrow> False | Some r \<Rightarrow> starts ''OK'' r))],
                if active then [''LOCK'' @ [LF]] else [], s)
           | _ \<Rightarrow> (Invalid_args, [], s))
      | GetActive \<Rightarrow> (Return [ABool (is_locked cm)], [''STATUS'' @ [LF]], s)
      | GetTime \<Rightarrow> (Return [AUint 0], [], s)
      | Unknown \<Rightarrow> (Unknown_method member, [], s))"

text \<open>A message without an interface is taken for any interface.\<close>

definition message_is :: "message_type \<Rightarrow> string \<Rightarrow> string \<Rightarrow> message \<Rightarrow> bool" where
  "message_is ty iface member msg \<longleftrightarrow>
     m_type msg = ty \<and> m_member msg = Some member \<and> (m_iface msg = None \<or> m_iface msg = Some iface)"

definition owner_changed :: "compositor \<Rightarrow> arg list \<Rightarrow> saver \<Rightarrow> saver" where
  "owner_changed cm args s =
     (case args of
        AString name # AString old_owner # AString new_owner # _ \<Rightarrow>
          if take 1 name = '':'' \<and> new_owner = [] then update_hold cm (drop_owned name 0 s) else s
      | _ \<Rightarrow> s)"

definition handle_message :: "compositor \<Rightarrow> bool \<Rightarrow> message \<Rightarrow> saver \<Rightarrow> handled \<times> string list \<times> saver" where
  "handle_message cm grown msg s =
     (if message_is Signal ''org.freedesktop.DBus'' ''NameOwnerChanged'' msg then (Handled None, [], owner_changed cm (m_args msg) s)
      else case (m_path msg, m_member msg) of
        (Some path, Some member) \<Rightarrow>
          if m_type msg \<noteq> Method_call \<or> \<not> saver_path path then (Not_yet_handled, [], s)
          else if message_is Method_call ''org.freedesktop.DBus.Introspectable'' ''Introspect'' msg then (Handled (Some Introspection), [], s)
          else let m = (if m_iface msg = None \<or> m_iface msg = Some ''org.freedesktop.ScreenSaver'' then saver_method member else Unknown);
                   (reply, sent, s') = call_method cm grown (m_sender msg) m member (m_args msg) s
               in (Handled (Some reply), sent, s')
      | _ \<Rightarrow> (Not_yet_handled, [], s))"


section \<open>What the inhibitions are\<close>

abbreviation bag :: "saver \<Rightarrow> inhibition multiset" where
  "bag s \<equiv> mset (sv_held s)"

lemma swap_last:
  assumes "i < length xs"
  shows "add_mset (xs ! i) (mset (butlast (xs[i := last xs]))) = mset xs"
proof -
  have ne: "xs \<noteq> []" using assms by auto
  then obtain ys z where xs: "xs = ys @ [z]" by (metis append_butlast_last_id)
  show ?thesis
  proof (cases "i < length ys")
    case True
    then have "butlast (xs[i := last xs]) = ys[i := z]" by (simp add: xs list_update_append)
    moreover have "add_mset (ys ! i) (mset (ys[i := z])) = add_mset z (mset ys)"
      using True by (simp add: mset_update)
    ultimately show ?thesis using True by (simp add: xs nth_append)
  next
    case False
    then have "i = length ys" using assms by (simp add: xs)
    then show ?thesis by (simp add: xs)
  qed
qed

lemma bag_drop: "i < length (sv_held s) \<Longrightarrow> add_mset (sv_held s ! i) (bag (drop_inhibition i s)) = bag s"
  by (simp add: drop_inhibition_def swap_last)

lemma bag_update_hold [simp]: "sv_held (update_hold cm s) = sv_held s"
  by (simp add: update_hold_def split: option.split)

lemma take_drop_inhibition:
  assumes "i < length (sv_held s)"
  shows "take i (sv_held (drop_inhibition i s)) = take i (sv_held s)"
  using assms by (simp add: drop_inhibition_def take_butlast)

text \<open>The loop takes away exactly the program's inhibitions, whatever order the others are left in.\<close>

lemma drop_owned_bag:
  "\<forall>h\<in>set (take i (sv_held s)). owner h \<noteq> name \<Longrightarrow> bag (drop_owned name i s) = filter_mset (\<lambda>h. owner h \<noteq> name) (bag s)"
proof (induction name i s rule: drop_owned.induct)
  case (1 name i s)
  show ?case
  proof (cases "i < length (sv_held s)")
    case False
    then have "filter_mset (\<lambda>h. owner h \<noteq> name) (bag s) = bag s" using "1.prems" by (simp add: filter_mset_eq_conv)
    then show ?thesis using False by (simp add: drop_owned.simps[of name i s])
  next
    case True
    show ?thesis
    proof (cases "owner (sv_held s ! i) = name")
      case True
      then have "bag (drop_owned name i s) = filter_mset (\<lambda>h. owner h \<noteq> name) (bag (drop_inhibition i s))"
        using "1.IH"(1) \<open>i < length (sv_held s)\<close> "1.prems" by (simp add: drop_owned.simps[of name i s] take_drop_inhibition)
      also have "\<dots> = filter_mset (\<lambda>h. owner h \<noteq> name) (bag s)"
        unfolding bag_drop[OF \<open>i < length (sv_held s)\<close>, symmetric] using True by simp
      finally show ?thesis .
    next
      case False
      then show ?thesis using "1.IH"(2) True "1.prems" by (simp add: drop_owned.simps[of name i s] take_Suc_conv_app_nth)
    qed
  qed
qed

lemma find_inhibition_Some:
  "find_inhibition c sender s = Some i \<Longrightarrow> i < length (sv_held s) \<and> cookie (sv_held s ! i) = c \<and> sender = Some (owner (sv_held s ! i))"
  by (auto simp: find_inhibition_def find_Some_iff)

lemma find_inhibition_None:
  "find_inhibition c sender s = None \<longleftrightarrow> (\<forall>h\<in>set (sv_held s). cookie h = c \<longrightarrow> sender \<noteq> Some (owner h))"
  by (auto simp: find_inhibition_def find_None_iff all_set_conv_all_nth)

text \<open>
  What the service promises of the bag of inhibitions for a message it answered with
  \<open>reply\<close>: one more for an Inhibit, with the cookie told, or an error; one less for an
  UnInhibit of the holder's, or an error when the caller holds no such cookie; all of a
  program's when its connection goes; no change for anything else.
\<close>

definition goes :: "message \<Rightarrow> string option" where
  "goes msg =
     (case m_args msg of
        AString name # AString _ # AString new_owner # _ \<Rightarrow>
          if message_is Signal ''org.freedesktop.DBus'' ''NameOwnerChanged'' msg \<and> take 1 name = '':'' \<and> new_owner = [] then Some name else None
      | _ \<Rightarrow> None)"

definition calls :: "method_name \<Rightarrow> message \<Rightarrow> bool" where
  "calls m msg \<longleftrightarrow>
     m_type msg = Method_call \<and> (m_iface msg = None \<or> m_iface msg = Some ''org.freedesktop.ScreenSaver'') \<and>
     (\<exists>path member. m_path msg = Some path \<and> saver_path path \<and> m_member msg = Some member \<and> saver_method member = m)"

definition inhibit_promise :: "message \<Rightarrow> handled \<Rightarrow> inhibition multiset \<Rightarrow> inhibition multiset \<Rightarrow> bool" where
  "inhibit_promise msg reply B B' \<longleftrightarrow>
     (\<exists>c a r rest. reply = Handled (Some (Return [AUint c])) \<and> m_args msg = AString a # AString r # rest \<and>
        B' = add_mset \<lparr>cookie = c, owner = (case m_sender msg of Some o' \<Rightarrow> o' | None \<Rightarrow> []), app = a, reason = r\<rparr> B) \<or>
     (reply = Handled (Some Invalid_args) \<or> reply = Handled (Some No_memory)) \<and> B' = B"

definition uninhibit_promise :: "message \<Rightarrow> handled \<Rightarrow> inhibition multiset \<Rightarrow> inhibition multiset \<Rightarrow> bool" where
  "uninhibit_promise msg reply B B' \<longleftrightarrow>
     (\<exists>h rest. reply = Handled (Some (Return [])) \<and> m_args msg = AUint (cookie h) # rest \<and> m_sender msg = Some (owner h) \<and>
        B = add_mset h B') \<or>
     (\<exists>c rest. reply = Handled (Some No_such_inhibition) \<and> m_args msg = AUint c # rest \<and> B' = B \<and>
        (\<forall>h\<in>#B. cookie h = c \<longrightarrow> m_sender msg \<noteq> Some (owner h))) \<or>
     reply = Handled (Some Invalid_args) \<and> B' = B"

definition promised :: "message \<Rightarrow> handled \<Rightarrow> inhibition multiset \<Rightarrow> inhibition multiset \<Rightarrow> bool" where
  "promised msg reply B B' \<longleftrightarrow>
     (case goes msg of
        Some name \<Rightarrow> B' = filter_mset (\<lambda>h. owner h \<noteq> name) B
      | None \<Rightarrow>
          if calls Inhibit msg then inhibit_promise msg reply B B'
          else if calls UnInhibit msg then uninhibit_promise msg reply B B'
          else B' = B)"

text \<open>No cookie is 0.\<close>

definition cookies_ok :: "saver \<Rightarrow> bool" where
  "cookies_ok s \<longleftrightarrow> sv_next s \<noteq> 0 \<and> (\<forall>h\<in>#bag s. cookie h \<noteq> 0)"

lemma update_hold_next [simp]: "sv_next (update_hold cm s) = sv_next s"
  by (simp add: update_hold_def split: option.split)

lemma inhibit_promised:
  assumes "inhibit cm grown (m_sender msg) a r s = (reply, s')" and "cookies_ok s" and "m_args msg = AString a # AString r # rest"
  shows "inhibit_promise msg (Handled (Some reply)) (bag s) (bag s') \<and> cookies_ok s'"
proof -
  obtain c s1 where c: "add grown (m_sender msg) a r s = (c, s1)" by fastforce
  show ?thesis
  proof (cases "length (sv_held s) = sv_size s \<and> \<not> grown")
    case True
    then have "s' = s \<and> reply = No_memory" using assms(1) c by (simp add: add_def inhibit_def)
    then show ?thesis using assms(2) by (simp add: inhibit_promise_def)
  next
    case False
    then have "c = sv_next s" "sv_next s1 \<noteq> 0"
      "bag s1 = add_mset \<lparr>cookie = c, owner = (case m_sender msg of Some o' \<Rightarrow> o' | None \<Rightarrow> []), app = a, reason = r\<rparr> (bag s)"
      using c by (auto simp: add_def Let_def split: if_splits)
    moreover have "c \<noteq> 0" using \<open>c = sv_next s\<close> assms(2) by (simp add: cookies_ok_def)
    moreover from this have "reply = Return [AUint c]" "s' = update_hold cm s1" using assms(1) c by (simp_all add: inhibit_def)
    ultimately show ?thesis using assms(2,3) by (simp add: inhibit_promise_def cookies_ok_def)
  qed
qed

lemma uninhibit_promised:
  assumes "uninhibit cm (m_sender msg) c s = (reply, s')" and "cookies_ok s" and "m_args msg = AUint c # rest"
  shows "uninhibit_promise msg (Handled (Some reply)) (bag s) (bag s') \<and> cookies_ok s'"
proof (cases "find_inhibition c (m_sender msg) s")
  case None
  have "\<forall>h\<in>set (sv_held s). cookie h = c \<longrightarrow> m_sender msg \<noteq> Some (owner h)" using None find_inhibition_None by blast
  moreover have "reply = No_such_inhibition" "s' = s" using assms(1) None by (simp_all add: uninhibit_def)
  ultimately show ?thesis using assms(2,3) by (simp add: uninhibit_promise_def)
next
  case (Some i)
  note i = find_inhibition_Some[OF Some]
  have s': "reply = Return []" "bag s' = bag (drop_inhibition i s)" "sv_next s' = sv_next s"
    using assms(1) Some by (auto simp: uninhibit_def drop_inhibition_def)
  have b: "bag s = add_mset (sv_held s ! i) (bag s')" using bag_drop[of i s] i s'(2) by simp
  then have "cookies_ok s'" using assms(2) s'(3) by (simp add: cookies_ok_def)
  moreover have "\<exists>h rest. Handled (Some reply) = Handled (Some (Return [])) \<and> m_args msg = AUint (cookie h) # rest \<and>
      m_sender msg = Some (owner h) \<and> bag s = add_mset h (bag s')"
    using i s'(1) b assms(3) by (intro exI[of _ "sv_held s ! i"] exI[of _ rest]) simp
  ultimately show ?thesis unfolding uninhibit_promise_def by blast
qed

lemma call_method_promised:
  assumes "call_method cm grown (m_sender msg) m member (m_args msg) s = (reply, sent, s')" and "cookies_ok s"
  shows "(if m = Inhibit then inhibit_promise msg (Handled (Some reply)) (bag s) (bag s')
          else if m = UnInhibit then uninhibit_promise msg (Handled (Some reply)) (bag s) (bag s')
          else bag s' = bag s) \<and> cookies_ok s'"
proof -
  consider a r rest where "m = Inhibit" "m_args msg = AString a # AString r # rest"
    | "m = Inhibit" "s' = s" "reply = Invalid_args"
    | c rest where "m = UnInhibit" "m_args msg = AUint c # rest"
    | "m = UnInhibit" "s' = s" "reply = Invalid_args" | "m \<noteq> Inhibit" "m \<noteq> UnInhibit" "s' = s"
    using assms(1) by (cases m) (auto simp: call_method_def split: list.splits arg.splits)
  then show ?thesis
  proof cases
    case 1
    then have "inhibit cm grown (m_sender msg) a r s = (reply, s')" using assms(1) by (auto simp: call_method_def split: prod.splits)
    then show ?thesis using inhibit_promised[OF _ assms(2) 1(2)] 1(1) by simp
  next
    case 3
    then have "uninhibit cm (m_sender msg) c s = (reply, s')" using assms(1) by (auto simp: call_method_def split: prod.splits)
    then show ?thesis using uninhibit_promised[OF _ assms(2) 3(2)] 3(1) by simp
  qed (use assms(2) in \<open>simp_all add: inhibit_promise_def uninhibit_promise_def\<close>)
qed

lemma drop_owned_next: "sv_next (drop_owned name i s) = sv_next s"
  by (induction name i s rule: drop_owned.induct) (simp add: drop_owned.simps[of _ i s for i s] drop_inhibition_def)

lemma owner_changed_goes:
  "message_is Signal ''org.freedesktop.DBus'' ''NameOwnerChanged'' msg \<Longrightarrow>
   owner_changed cm (m_args msg) s = (case goes msg of None \<Rightarrow> s | Some name \<Rightarrow> update_hold cm (drop_owned name 0 s))"
  by (auto simp: owner_changed_def goes_def split: list.splits arg.splits)

lemma handle_message_promised:
  assumes "handle_message cm grown msg s = (reply, sent, s')" and "cookies_ok s"
  shows "promised msg reply (bag s) (bag s') \<and> cookies_ok s'"
proof (cases "message_is Signal ''org.freedesktop.DBus'' ''NameOwnerChanged'' msg")
  case True
  have no_call: "\<not> calls m msg" for m using True by (simp add: calls_def message_is_def)
  have s': "s' = (case goes msg of None \<Rightarrow> s | Some name \<Rightarrow> update_hold cm (drop_owned name 0 s))"
    using assms(1) True by (simp add: handle_message_def owner_changed_goes)
  have bag: "bag (drop_owned name 0 s) = filter_mset (\<lambda>h. owner h \<noteq> name) (bag s)" for name by (simp add: drop_owned_bag)
  have "\<forall>h\<in>#bag (drop_owned name 0 s). cookie h \<noteq> 0" for name unfolding bag using assms(2) by (simp add: cookies_ok_def)
  then have "\<forall>h\<in>set (sv_held (drop_owned name 0 s)). cookie h \<noteq> 0" for name by simp
  then show ?thesis
    using assms(2) by (simp add: s' promised_def no_call bag drop_owned_next cookies_ok_def split: option.split)
next
  case False
  then have goes: "goes msg = None" by (simp add: goes_def split: list.split arg.split)
  define m where "m = (if m_iface msg = None \<or> m_iface msg = Some ''org.freedesktop.ScreenSaver'' then saver_method (the (m_member msg)) else Unknown)"
  obtain r sent' s1 where c: "call_method cm grown (m_sender msg) m (the (m_member msg)) (m_args msg) s = (r, sent', s1)" by (rule prod_cases3)
  let ?call = "\<exists>path member. m_path msg = Some path \<and> m_member msg = Some member \<and> m_type msg = Method_call \<and> saver_path path \<and>
      \<not> message_is Method_call ''org.freedesktop.DBus.Introspectable'' ''Introspect'' msg"
  have introspect: "saver_method ''Introspect'' = Unknown" by (simp add: saver_method_def)
  show ?thesis
  proof (cases ?call)
    case True
    then obtain path member where p: "m_path msg = Some path" "m_member msg = Some member" "m_type msg = Method_call" "saver_path path"
      "\<not> message_is Method_call ''org.freedesktop.DBus.Introspectable'' ''Introspect'' msg" by blast
    have m: "(if m_iface msg = None \<or> m_iface msg = Some ''org.freedesktop.ScreenSaver'' then saver_method member else Unknown) = m"
      by (simp add: m_def p(2))
    have "handle_message cm grown msg s = (Handled (Some r), sent', s1)"
      using c unfolding handle_message_def p(1,2) option.case prod.case Let_def m by (simp add: False p)
    then have "reply = Handled (Some r)" "s' = s1" using assms(1) by simp_all
    moreover have "calls k msg \<longleftrightarrow> m = k" if "k \<noteq> Unknown" for k
      using True that by (auto simp: calls_def m_def)
    ultimately show ?thesis using call_method_promised[OF c assms(2)] by (simp add: promised_def goes split: if_splits)
  next
    case no: False
    then have "s' = s" using assms(1) False by (auto simp: handle_message_def Let_def split: option.splits if_splits)
    moreover have "\<not> calls k msg" if "k \<noteq> Unknown" for k
      using no that introspect by (auto simp: calls_def message_is_def)
    ultimately show ?thesis using assms(2) by (simp add: promised_def goes)
  qed
qed

section \<open>The compositor's idle is held off while anything is held\<close>

definition answers :: "compositor \<Rightarrow> bool" where
  "answers cm \<longleftrightarrow> (\<exists>bs. cm (''INHIBIT'' @ [LF]) = Some bs \<and> starts ''OK'' (take 63 bs))"

definition hold_ok :: "bool \<Rightarrow> saver \<Rightarrow> bool" where
  "hold_ok answering s \<longleftrightarrow> (sv_hold s \<longrightarrow> sv_held s \<noteq> []) \<and> (answering \<and> sv_held s \<noteq> [] \<longrightarrow> sv_hold s)"

lemma update_hold_ok: "(answering \<Longrightarrow> answers cm) \<Longrightarrow> hold_ok answering (update_hold cm s)"
  by (auto simp: hold_ok_def update_hold_def answers_def starts_def split: option.splits)

lemma call_method_hold:
  assumes "call_method cm grown sender m member args s = (reply, sent, s')" and "hold_ok answering s" and "answering \<Longrightarrow> answers cm"
    and "sv_next s \<noteq> 0"
  shows "hold_ok answering s'"
proof -
  have add: "s1 = s \<or> c \<noteq> 0" if "add grown sender a r s = (c, s1)" for a r c s1
    using that assms(4) by (auto simp: add_def Let_def split: if_splits)
  consider "s' = s" | s1 where "s' = update_hold cm s1"
    using assms(1) add
    by (cases m) (auto simp: call_method_def inhibit_def uninhibit_def split: list.splits arg.splits prod.splits option.splits if_splits)
  then show ?thesis using assms(2) update_hold_ok[OF assms(3)] by cases auto
qed

lemma handle_message_hold:
  assumes "handle_message cm grown msg s = (reply, sent, s')" and "hold_ok answering s" and "answering \<Longrightarrow> answers cm" and "sv_next s \<noteq> 0"
  shows "hold_ok answering s'"
proof (cases "message_is Signal ''org.freedesktop.DBus'' ''NameOwnerChanged'' msg")
  case True
  then have "s' = owner_changed cm (m_args msg) s" using assms(1) by (simp add: handle_message_def)
  moreover have "owner_changed cm (m_args msg) s = s \<or> (\<exists>s1. owner_changed cm (m_args msg) s = update_hold cm s1)"
    by (auto simp: owner_changed_def split: list.splits arg.splits)
  ultimately show ?thesis using assms(2) update_hold_ok[OF assms(3)] by auto
next
  case False
  define m where "m = (if m_iface msg = None \<or> m_iface msg = Some ''org.freedesktop.ScreenSaver'' then saver_method (the (m_member msg)) else Unknown)"
  obtain r sent' s1 where c: "call_method cm grown (m_sender msg) m (the (m_member msg)) (m_args msg) s = (r, sent', s1)" by (rule prod_cases3)
  have "s' = s \<or> s' = s1"
    using assms(1) False c unfolding handle_message_def m_def by (auto simp: Let_def split: option.splits if_splits)
  then show ?thesis using assms(2) call_method_hold[OF c assms(2,3,4)] by blast
qed

text \<open>The service from its start: each message with the compositor as it is then.\<close>

definition saver_start :: saver where
  "saver_start = \<lparr>sv_held = [], sv_size = 0, sv_next = 1, sv_hold = False\<rparr>"

definition saver_run :: "(compositor \<times> bool \<times> message) list \<Rightarrow> saver" where
  "saver_run ms = foldl (\<lambda>s (cm, grown, msg). snd (snd (handle_message cm grown msg s))) saver_start ms"

lemma saver_run_ok:
  "cookies_ok (saver_run ms) \<and> hold_ok (\<forall>(cm, _)\<in>set ms. answers cm) (saver_run ms)"
proof (induction ms rule: rev_induct)
  case Nil
  show ?case by (simp add: saver_run_def saver_start_def cookies_ok_def hold_ok_def)
next
  case (snoc m ms)
  obtain cm grown msg where m: "m = (cm, grown, msg)" by (rule prod_cases3)
  obtain reply sent s' where h: "handle_message cm grown msg (saver_run ms) = (reply, sent, s')" by (rule prod_cases3)
  have run: "saver_run (ms @ [m]) = s'" using h by (simp add: saver_run_def m)
  let ?all = "\<forall>(cm, _)\<in>set (ms @ [m]). answers cm"
  have "hold_ok ?all (saver_run ms)" using snoc.IH by (auto simp: hold_ok_def)
  moreover have "?all \<Longrightarrow> answers cm" by (simp add: m)
  ultimately have "hold_ok ?all s'" using snoc.IH by (intro handle_message_hold[OF h]) (simp_all add: cookies_ok_def)
  then show ?case using run handle_message_promised[OF h] snoc.IH by simp
qed


definition ex_inhibit :: message where
  "ex_inhibit = \<lparr>m_type = Method_call, m_sender = Some '':1.7'', m_path = Some ''/ScreenSaver'', m_iface = None,
     m_member = Some ''Inhibit'', m_args = [AString ''player'', AString ''film'']\<rparr>"

definition ex_compositor :: compositor where
  "ex_compositor command = Some (''OK'' @ [LF])"

lemma ex_inhibit_handled:
  "handle_message ex_compositor True ex_inhibit saver_start =
     (Handled (Some (Return [AUint 1])), [],
      \<lparr>sv_held = [\<lparr>cookie = 1, owner = '':1.7'', app = ''player'', reason = ''film''\<rparr>], sv_size = 8, sv_next = 2, sv_hold = True\<rparr>)"
  by (simp add: handle_message_def message_is_def ex_inhibit_def saver_path_def call_method_def inhibit_def add_def saver_start_def
      update_hold_def ex_compositor_def starts_def saver_method_def Let_def)


text \<open>
  C29.  The sender of NameOwnerChanged is not looked at: the signal sent by any program on the
  bus, naming another's connection, takes away that program's inhibitions, although only
  the program that holds a cookie may give it back.
\<close>

theorem forged_signal_releases:
  assumes "name = CHR '':'' # rest" and "m_args msg = [AString name, AString name, AString []]"
    and "m_type msg = Signal" and "m_iface msg = Some ''org.freedesktop.DBus''" and "m_member msg = Some ''NameOwnerChanged''"
  shows "bag (snd (snd (handle_message cm grown msg s))) = filter_mset (\<lambda>h. owner h \<noteq> name) (bag s)"
  using assms by (simp add: handle_message_def message_is_def owner_changed_def drop_owned_bag)

definition ex_forged :: message where
  "ex_forged = \<lparr>m_type = Signal, m_sender = Some '':1.9'', m_path = Some ''/'', m_iface = Some ''org.freedesktop.DBus'',
     m_member = Some ''NameOwnerChanged'', m_args = [AString '':1.7'', AString '':1.7'', AString []]\<rparr>"

theorem forged_signal_releases_witness:
  "sv_held (saver_run [(ex_compositor, True, ex_inhibit)]) \<noteq> [] \<and> m_sender ex_forged \<noteq> m_sender ex_inhibit \<and>
   bag (snd (snd (handle_message ex_compositor True ex_forged (saver_run [(ex_compositor, True, ex_inhibit)])))) = {#}"
proof -
  have run: "sv_held (saver_run [(ex_compositor, True, ex_inhibit)]) = [\<lparr>cookie = 1, owner = '':1.7'', app = ''player'', reason = ''film''\<rparr>]"
    by (simp add: saver_run_def ex_inhibit_handled)
  then show ?thesis
    using forged_signal_releases[of "'':1.7''" "''1.7''" ex_forged ex_compositor True "saver_run [(ex_compositor, True, ex_inhibit)]"]
    by (simp add: ex_forged_def ex_inhibit_def)
qed

end
