(* ===== verification/Sg_Procagent.thy ===== *)
theory Sg_Procagent
  imports Sg_Wire
begin

text \<open>
  The process agent of a user (\<open>src/procagent/sg-procagent.c\<close>): memory, signals and
  processor affinity of the user's own processes, for the wineserver.  The kernel is the
  record \<open>proc_os\<close> of its calls on a state \<open>'k\<close>, each with what it answers.  The wait for a
  stop may go on for ever: \<open>attach_wait\<close> is then \<open>None\<close>, and so is what calls it.  A reply
  can always be written.
\<close>

section \<open>The protocol\<close>

record proc_req =
  pr_op :: u32
  pr_sig :: u32
  pr_pid :: u32
  pr_tid :: u32
  pr_addr :: "64 word"
  pr_len :: u32

definition PROC_READ :: u32 where "PROC_READ = 1"
definition PROC_WRITE :: u32 where "PROC_WRITE = 2"
definition PROC_SIGNAL :: u32 where "PROC_SIGNAL = 3"
definition PROC_SETAFF :: u32 where "PROC_SETAFF = 6"
definition SIGSTOP :: u32 where "SIGSTOP = 19"
definition PROC_MAXLEN :: nat where "PROC_MAXLEN = 64 * 1024 * 1024"

lemmas proc_ops = PROC_READ_def PROC_WRITE_def PROC_SIGNAL_def PROC_SETAFF_def

text \<open>The structure in memory: 28 bytes of fields and 4 of padding.\<close>

definition un_le64 :: "bytes \<Rightarrow> 64 word" where
  "un_le64 bs = word_of_nat (unat (un_le32 bs) + 2 ^ 32 * unat (un_le32 (drop 4 bs)))"

definition le64 :: "64 word \<Rightarrow> bytes" where
  "le64 w = le32 (word_of_nat (unat w)) @ le32 (word_of_nat (unat w div 2 ^ 32))"

definition proc_parse :: "bytes \<Rightarrow> proc_req" where
  "proc_parse b = \<lparr>pr_op = un_le32 b, pr_sig = un_le32 (drop 4 b), pr_pid = un_le32 (drop 8 b), pr_tid = un_le32 (drop 12 b),
     pr_addr = un_le64 (drop 16 b), pr_len = un_le32 (drop 24 b)\<rparr>"

section \<open>The kernel\<close>

datatype wait_result = Stopped u32 | Ended | Interrupted | Wait_failed

record 'k proc_os =
  px_alloc :: "u32 \<Rightarrow> bool"
  px_attach :: "u32 \<Rightarrow> 'k \<Rightarrow> bool \<times> 'k"
  px_wait :: "u32 \<Rightarrow> 'k \<Rightarrow> wait_result \<times> 'k"
  px_cont :: "u32 \<Rightarrow> u32 \<Rightarrow> 'k \<Rightarrow> 'k"
  px_detach :: "u32 \<Rightarrow> 'k \<Rightarrow> 'k"
  px_open :: "u32 \<Rightarrow> bool \<Rightarrow> 'k \<Rightarrow> bool"
  px_pread :: "u32 \<Rightarrow> 64 word \<Rightarrow> u32 \<Rightarrow> 'k \<Rightarrow> bytes"
  px_pwrite :: "u32 \<Rightarrow> 64 word \<Rightarrow> bytes \<Rightarrow> 'k \<Rightarrow> nat \<times> 'k"
  px_tgkill :: "u32 \<Rightarrow> u32 \<Rightarrow> u32 \<Rightarrow> 'k \<Rightarrow> bool \<times> 'k"
  px_kill :: "u32 \<Rightarrow> u32 \<Rightarrow> 'k \<Rightarrow> bool \<times> 'k"
  px_setaffinity :: "u32 \<Rightarrow> nat set \<Rightarrow> 'k \<Rightarrow> bool \<times> 'k"

text \<open>The wait for the stop asked for; a signal that comes first is handed back.\<close>

partial_function (option) attach_wait :: "'k proc_os \<Rightarrow> u32 \<Rightarrow> 'k \<Rightarrow> (bool \<times> 'k) option" where
  "attach_wait os pid k =
     (case px_wait os pid k of
        (Interrupted, k1) \<Rightarrow> attach_wait os pid k1
      | (Wait_failed, k1) \<Rightarrow> Some (False, k1)
      | (Ended, k1) \<Rightarrow> Some (False, k1)
      | (Stopped s, k1) \<Rightarrow> if s \<noteq> SIGSTOP then attach_wait os pid (px_cont os pid s k1) else Some (True, k1))"

definition attach :: "'k proc_os \<Rightarrow> u32 \<Rightarrow> 'k \<Rightarrow> (bool \<times> 'k) option" where
  "attach os pid k = (case px_attach os pid k of (False, k1) \<Rightarrow> Some (False, k1) | (True, k1) \<Rightarrow> attach_wait os pid k1)"

text \<open>\<open>Inl len\<close> reads, \<open>Inr bytes\<close> writes; the bytes read are given when they are all there.\<close>

definition do_mem :: "'k proc_os \<Rightarrow> u32 \<Rightarrow> 64 word \<Rightarrow> u32 + bytes \<Rightarrow> 'k \<Rightarrow> (bytes option \<times> 'k) option" where
  "do_mem os pid addr what k =
     (case attach os pid k of
        None \<Rightarrow> None
      | Some (False, k1) \<Rightarrow> Some (None, k1)
      | Some (True, k1) \<Rightarrow>
          let (got, k2) =
            (case what of
               Inl len \<Rightarrow>
                 (if px_open os pid False k1 \<and> length (px_pread os pid addr len k1) = unat len
                  then Some (px_pread os pid addr len k1) else None, k1)
             | Inr bs \<Rightarrow>
                 if px_open os pid True k1
                 then (case px_pwrite os pid addr bs k1 of (n, k2) \<Rightarrow> (if n = length bs then Some bs else None, k2))
                 else (None, k1))
          in Some (got, px_detach os pid k2))"

definition do_signal :: "'k proc_os \<Rightarrow> u32 \<Rightarrow> u32 \<Rightarrow> u32 \<Rightarrow> 'k \<Rightarrow> bool \<times> 'k" where
  "do_signal os pid tid s k =
     (case (if tid \<noteq> 0 then px_tgkill os pid tid s k else (False, k)) of
        (True, k1) \<Rightarrow> (True, k1)
      | (False, k1) \<Rightarrow> px_kill os pid s k1)"

definition affinity_set :: "64 word \<Rightarrow> nat set" where
  "affinity_set m = {i\<in>{..<64}. bit m i}"

section \<open>Serving a connection\<close>

text \<open>A request with what follows it: only a write has a payload.\<close>

definition proc_read :: "(u32 \<Rightarrow> bool) \<Rightarrow> (unit, proc_req \<times> bytes) reader" where
  "proc_read alloc bs =
     or_exit () (read_full 32 bs) (\<lambda>(b, rest).
       let r = proc_parse b
       in if unat (pr_len r) > PROC_MAXLEN then Inl ()
          else if pr_op r = PROC_WRITE
          then (if pr_len r = 0 \<or> \<not> alloc (pr_len r) then Inl ()
                else or_exit () (read_full (unat (pr_len r)) rest) (\<lambda>(payload, rest'). Inr ((r, payload), rest')))
          else Inr ((r, []), rest))"

text \<open>The reply: its status, and the bytes that follow it.\<close>

definition proc_answer :: "'k proc_os \<Rightarrow> proc_req \<times> bytes \<Rightarrow> 'k \<Rightarrow> ((bool \<times> bytes) \<times> 'k) option" where
  "proc_answer os rq k =
     (let r = fst rq
      in if pr_op r = PROC_READ then
           (if pr_len r \<noteq> 0 \<and> px_alloc os (pr_len r) then
              (case do_mem os (pr_pid r) (pr_addr r) (Inl (pr_len r)) k of
                 None \<Rightarrow> None
               | Some (None, k') \<Rightarrow> Some ((False, []), k')
               | Some (Some bs, k') \<Rightarrow> Some ((True, bs), k'))
            else Some ((False, []), k))
         else if pr_op r = PROC_WRITE then
           (case do_mem os (pr_pid r) (pr_addr r) (Inr (snd rq)) k of
              None \<Rightarrow> None
            | Some (got, k') \<Rightarrow> Some ((got \<noteq> None, []), k'))
         else if pr_op r = PROC_SIGNAL then
           (case do_signal os (pr_pid r) (pr_tid r) (pr_sig r) k of (ok, k') \<Rightarrow> Some ((ok, []), k'))
         else if pr_op r = PROC_SETAFF then
           (case px_setaffinity os (pr_tid r) (affinity_set (pr_addr r)) k of (ok, k') \<Rightarrow> Some ((ok, []), k'))
         else Some ((False, []), k))"

definition proc_reply :: "bool \<times> bytes \<Rightarrow> bytes" where
  "proc_reply a = le32 (if fst a then 1 else 0) @ le32 (word_of_nat (length (snd a))) @ snd a"

lemma proc_read_shrinks: "proc_read alloc bs = Inr (r, rest) \<Longrightarrow> length rest < length bs"
  by (auto simp: proc_read_def or_exit_Inr read_full_Some Let_def split: if_splits)

function serve :: "'k proc_os \<Rightarrow> bytes \<Rightarrow> 'k \<Rightarrow> (bytes \<times> 'k) option" where
  "serve os bs k =
     (case proc_read (px_alloc os) bs of
        Inl _ \<Rightarrow> Some ([], k)
      | Inr (r, rest) \<Rightarrow>
          (case proc_answer os r k of
             None \<Rightarrow> None
           | Some (a, k') \<Rightarrow>
               (case serve os rest k' of None \<Rightarrow> None | Some (out, k'') \<Rightarrow> Some (proc_reply a @ out, k''))))"
  by pat_completeness auto
termination by (relation "measure (\<lambda>(os, bs, k). length bs)") (auto dest: proc_read_shrinks)

declare serve.simps [simp del]


section \<open>The two ends stay in step\<close>

definition proc_enc :: "proc_req \<times> bytes \<Rightarrow> bytes" where
  "proc_enc rq =
     (let r = fst rq
      in le32 (pr_op r) @ le32 (pr_sig r) @ le32 (pr_pid r) @ le32 (pr_tid r) @ le64 (pr_addr r) @ le32 (pr_len r) @ le32 0 @ snd rq)"

text \<open>What a client may send: a payload with a write and only there, of the length it says.\<close>

definition proc_ok :: "(u32 \<Rightarrow> bool) \<Rightarrow> proc_req \<times> bytes \<Rightarrow> bool" where
  "proc_ok alloc rq \<longleftrightarrow>
     unat (pr_len (fst rq)) \<le> PROC_MAXLEN \<and>
     (if pr_op (fst rq) = PROC_WRITE
      then pr_len (fst rq) \<noteq> 0 \<and> alloc (pr_len (fst rq)) \<and> length (snd rq) = unat (pr_len (fst rq))
      else snd rq = [])"

lemma un_le64_le64: "un_le64 (le64 w @ rest) = w"
proof -
  define n where "n = unat w"
  have "unat w < 2 ^ LENGTH(64)" by (rule unsigned_less)
  then have small: "n < 2 ^ 64" by (simp add: n_def)
  then have hi: "n div 2 ^ 32 < 2 ^ 32" by (simp add: less_mult_imp_div_less)
  have "un_le32 (le64 w @ rest) = word_of_nat n" by (simp add: le64_def n_def un_le32_le32)
  moreover have "un_le32 (drop 4 (le64 w @ rest)) = word_of_nat (n div 2 ^ 32)" by (simp add: le64_def n_def un_le32_le32)
  moreover have "unat (word_of_nat n :: u32) = n mod 2 ^ 32" by (simp add: unat_of_nat take_bit_eq_mod)
  moreover have "unat (word_of_nat (n div 2 ^ 32) :: u32) = n div 2 ^ 32" using hi by (simp add: unat_of_nat take_bit_eq_mod)
  moreover have "n mod 2 ^ 32 + 2 ^ 32 * (n div 2 ^ 32) = n" by simp
  ultimately have "un_le64 (le64 w @ rest) = word_of_nat n" unfolding un_le64_def by metis
  then show ?thesis by (simp add: n_def)
qed

lemma length_le64 [simp]: "length (le64 w) = 8"
  by (simp add: le64_def)

lemma proc_parse_enc:
  "proc_parse (le32 (pr_op r) @ le32 (pr_sig r) @ le32 (pr_pid r) @ le32 (pr_tid r) @ le64 (pr_addr r) @ le32 (pr_len r) @ le32 0) = r"
  by (simp add: proc_parse_def un_le32_le32 un_le64_le64)

lemma proc_read_enc: "proc_ok alloc rq \<Longrightarrow> proc_read alloc (proc_enc rq @ rest) = Inr (rq, rest)"
proof -
  assume ok: "proc_ok alloc rq"
  obtain r payload where rq: "rq = (r, payload)" by (cases rq)
  let ?h = "le32 (pr_op r) @ le32 (pr_sig r) @ le32 (pr_pid r) @ le32 (pr_tid r) @ le64 (pr_addr r) @ le32 (pr_len r) @ le32 0"
  have "proc_enc rq @ rest = ?h @ payload @ rest" by (simp add: proc_enc_def rq)
  moreover have "read_full 32 (?h @ payload @ rest) = Some (?h, payload @ rest)" by (rule read_full_append) simp
  ultimately have "proc_read alloc (proc_enc rq @ rest) =
      (if unat (pr_len r) > PROC_MAXLEN then Inl ()
       else if pr_op r = PROC_WRITE
       then (if pr_len r = 0 \<or> \<not> alloc (pr_len r) then Inl ()
             else or_exit () (read_full (unat (pr_len r)) (payload @ rest)) (\<lambda>(payload, rest'). Inr ((r, payload), rest')))
       else Inr ((r, []), payload @ rest))"
    unfolding proc_read_def by (simp only: or_exit_Some prod.case proc_parse_enc Let_def)
  then show ?thesis using ok by (auto simp: proc_ok_def rq read_full_append split: if_splits)
qed

interpretation proc_frames: framed proc_enc "proc_ok alloc" "proc_read alloc"
  by unfold_locales (simp_all add: proc_read_enc proc_read_shrinks)

text \<open>The answers to requests one after another, on the kernel each leaves.\<close>

fun proc_answers :: "'k proc_os \<Rightarrow> (proc_req \<times> bytes) list \<Rightarrow> 'k \<Rightarrow> ((bool \<times> bytes) list \<times> 'k) option" where
  "proc_answers os [] k = Some ([], k)"
| "proc_answers os (r # rs) k =
     (case proc_answer os r k of
        None \<Rightarrow> None
      | Some (a, k') \<Rightarrow> (case proc_answers os rs k' of None \<Rightarrow> None | Some (as, k'') \<Rightarrow> Some (a # as, k'')))"

lemma serve_requests:
  "\<forall>r\<in>set rs. proc_ok (px_alloc os) r \<Longrightarrow>
     serve os (concat (map proc_enc rs)) k = map_option (\<lambda>(as, k'). (concat (map proc_reply as), k')) (proc_answers os rs k)"
proof (induction rs arbitrary: k)
  case Nil
  show ?case by (simp add: serve.simps[of os "[]" k] proc_read_def read_full_def)
next
  case (Cons r rs)
  have "proc_read (px_alloc os) (proc_enc r @ concat (map proc_enc rs)) = Inr (r, concat (map proc_enc rs))"
    using Cons.prems by (intro proc_frames.dec_enc) simp
  then show ?case
    using Cons.IH Cons.prems by (simp add: serve.simps[of os "proc_enc r @ concat (map proc_enc rs)" k] split: option.splits)
qed

text \<open>A reply as the wineserver reads it: a status, a length and that many bytes.\<close>

definition reply_read :: "(unit, bool \<times> bytes) reader" where
  "reply_read bs =
     or_exit () (read_u32 bs) (\<lambda>(st, b1).
     or_exit () (read_u32 b1) (\<lambda>(len, b2).
     or_exit () (read_full (unat len) b2) (\<lambda>(bytes, rest). Inr ((st \<noteq> 0, bytes), rest))))"

definition reply_ok :: "bool \<times> bytes \<Rightarrow> bool" where
  "reply_ok a \<longleftrightarrow> length (snd a) < 2 ^ 32"

interpretation reply_frames: framed proc_reply reply_ok reply_read
proof unfold_locales
  show "reply_read (proc_reply r @ rest) = Inr (r, rest)" if "reply_ok r" for r rest
  proof -
    have "unat (word_of_nat (length (snd r)) :: u32) = length (snd r)" using that by (simp add: reply_ok_def unat_of_nat take_bit_eq_mod)
    then show ?thesis by (cases r) (simp add: reply_read_def proc_reply_def read_u32_le32 read_full_append)
  qed
  show "length rest < length bs" if "reply_read bs = Inr (r, rest)" for bs r rest
    using that by (auto simp: reply_read_def or_exit_Inr read_full_Some dest!: read_u32_shrinks)
qed

lemma proc_answer_ok: "proc_answer os r k = Some (a, k') \<Longrightarrow> reply_ok a"
proof -
  assume h: "proc_answer os r k = Some (a, k')"
  have mem: "length bs = unat len" if "do_mem os pid addr (Inl len) k = Some (Some bs, k1)" for pid addr len bs k1
    using that by (auto simp: do_mem_def Let_def split: option.splits prod.splits bool.splits if_splits)
  have "snd a = [] \<or> length (snd a) = unat (pr_len (fst r))"
    using h by (auto simp: proc_answer_def Let_def split: if_splits option.splits prod.splits dest!: mem)
  moreover have "unat (pr_len (fst r)) < 2 ^ 32" by simp
  ultimately show ?thesis unfolding reply_ok_def by (metis list.size(3) zero_less_numeral zero_less_power)
qed

lemma proc_answers_ok: "proc_answers os rs k = Some (as, k') \<Longrightarrow> length as = length rs \<and> (\<forall>a\<in>set as. reply_ok a)"
proof (induction rs arbitrary: k as)
  case (Cons r rs)
  then show ?case by (auto split: option.splits prod.splits dest: proc_answer_ok)
qed simp

text \<open>
  The wineserver and the agent never lose step: for any requests the wineserver may send
  (reads, writes with their bytes, signals, affinities, and operations the agent does not
  know), the bytes the agent sends back are read as exactly one reply per request, in
  order, each the answer of the kernel as the requests before it left it.
\<close>

theorem procagent_in_step:
  assumes "\<forall>r\<in>set rs. proc_ok (px_alloc os) r"
  shows "(serve os (concat (map proc_enc rs)) k = None \<longleftrightarrow> proc_answers os rs k = None) \<and>
    (\<forall>out k'. serve os (concat (map proc_enc rs)) k = Some (out, k') \<longrightarrow>
       (\<exists>as. proc_answers os rs k = Some (as, k') \<and> length as = length rs \<and> read_n reply_read (length rs) out = Inr (as, [])))"
proof (intro conjI allI impI)
  note serve = serve_requests[OF assms, of k]
  show "serve os (concat (map proc_enc rs)) k = None \<longleftrightarrow> proc_answers os rs k = None" unfolding serve by simp
  fix out k' assume "serve os (concat (map proc_enc rs)) k = Some (out, k')"
  then obtain as where as: "proc_answers os rs k = Some (as, k')" "out = concat (map proc_reply as)" unfolding serve by auto
  note ok = proc_answers_ok[OF as(1)]
  then have "read_n reply_read (length as) (concat (map proc_reply as) @ []) = Inr (as, [])" by (intro reply_frames.read_written) simp
  then show "\<exists>as. proc_answers os rs k = Some (as, k') \<and> length as = length rs \<and> read_n reply_read (length rs) out = Inr (as, [])"
    using as ok by simp
qed

section \<open>No signal is lost\<close>

text \<open>
  What the agent relies on of the kernel: \<open>pending\<close> are the signals a thread has still to be
  stopped by, in order, \<open>delivered\<close> those it was given.  Attaching puts a SIGSTOP among the
  pending ones, a wait reports the first of them and takes it away, continuing with a
  signal delivers it, and the other calls leave both alone.
\<close>

definition ptrace_law :: "'k proc_os \<Rightarrow> ('k \<Rightarrow> u32 \<Rightarrow> u32 list) \<Rightarrow> ('k \<Rightarrow> u32 \<Rightarrow> u32 list) \<Rightarrow> bool" where
  "ptrace_law os pending delivered \<longleftrightarrow>
     (\<forall>pid k k1. px_attach os pid k = (False, k1) \<longrightarrow> pending k1 pid = pending k pid \<and> delivered k1 pid = delivered k pid) \<and>
     (\<forall>pid k k1. px_attach os pid k = (True, k1) \<longrightarrow>
        (\<exists>a b. pending k pid = a @ b \<and> pending k1 pid = a @ SIGSTOP # b) \<and> delivered k1 pid = delivered k pid) \<and>
     (\<forall>pid k s rest. pending k pid = s # rest \<longrightarrow>
        (\<exists>k1. px_wait os pid k = (Stopped s, k1) \<and> pending k1 pid = rest \<and> delivered k1 pid = delivered k pid)) \<and>
     (\<forall>pid s k. pending (px_cont os pid s k) pid = pending k pid \<and> delivered (px_cont os pid s k) pid = delivered k pid @ [s]) \<and>
     (\<forall>pid k. pending (px_detach os pid k) pid = pending k pid \<and> delivered (px_detach os pid k) pid = delivered k pid) \<and>
     (\<forall>pid addr bs k. pending (snd (px_pwrite os pid addr bs k)) pid = pending k pid \<and>
        delivered (snd (px_pwrite os pid addr bs k)) pid = delivered k pid)"

lemma ptrace_lawD:
  assumes "ptrace_law os pending delivered"
  shows "px_attach os pid k = (False, k1) \<Longrightarrow> pending k1 pid = pending k pid \<and> delivered k1 pid = delivered k pid"
    "px_attach os pid k = (True, k1) \<Longrightarrow>
       (\<exists>a b. pending k pid = a @ b \<and> pending k1 pid = a @ SIGSTOP # b) \<and> delivered k1 pid = delivered k pid"
    "pending k pid = s # rest \<Longrightarrow>
       \<exists>k1. px_wait os pid k = (Stopped s, k1) \<and> pending k1 pid = rest \<and> delivered k1 pid = delivered k pid"
    "pending (px_cont os pid s k) pid = pending k pid" "delivered (px_cont os pid s k) pid = delivered k pid @ [s]"
    "pending (px_detach os pid k) pid = pending k pid" "delivered (px_detach os pid k) pid = delivered k pid"
    "pending (snd (px_pwrite os pid addr bs k)) pid = pending k pid" "delivered (snd (px_pwrite os pid addr bs k)) pid = delivered k pid"
  using assms unfolding ptrace_law_def by blast+

lemma attach_wait_stops:
  assumes "ptrace_law os pending delivered" and "SIGSTOP \<notin> set a"
  shows "pending k pid = a @ SIGSTOP # b \<Longrightarrow>
    \<exists>k1. attach_wait os pid k = Some (True, k1) \<and> pending k1 pid = b \<and> delivered k1 pid = delivered k pid @ a"
  using assms(2)
proof (induction a arbitrary: k)
  case Nil
  then obtain k1 where "px_wait os pid k = (Stopped SIGSTOP, k1)" "pending k1 pid = b" "delivered k1 pid = delivered k pid"
    using ptrace_lawD(3)[OF assms(1), of k pid SIGSTOP b] by auto
  then show ?case by (simp add: attach_wait.simps[of os pid k])
next
  case (Cons s a)
  then obtain k1 where k1: "px_wait os pid k = (Stopped s, k1)" "pending k1 pid = a @ SIGSTOP # b" "delivered k1 pid = delivered k pid"
    using ptrace_lawD(3)[OF assms(1), of k pid s "a @ SIGSTOP # b"] by auto
  have cont: "pending (px_cont os pid s k1) pid = a @ SIGSTOP # b" "delivered (px_cont os pid s k1) pid = delivered k pid @ [s]"
    using k1 by (simp_all add: ptrace_lawD[OF assms(1)])
  have "s \<noteq> SIGSTOP" "SIGSTOP \<notin> set a" using Cons.prems by auto
  then show ?case using Cons.IH[OF cont(1)] cont(2) k1(1) by (simp add: attach_wait.simps[of os pid k])
qed


text \<open>A kernel with one thread: its pending and its delivered signals.\<close>

definition ex_proc_os :: "(u32 list \<times> u32 list) proc_os" where
  "ex_proc_os = \<lparr>px_alloc = (\<lambda>_. True), px_attach = (\<lambda>_ (p, d). (True, p @ [SIGSTOP], d)),
     px_wait = (\<lambda>_ (p, d). case p of [] \<Rightarrow> (Ended, p, d) | s # p' \<Rightarrow> (Stopped s, p', d)), px_cont = (\<lambda>_ s (p, d). (p, d @ [s])),
     px_detach = (\<lambda>_ k. k), px_open = (\<lambda>_ _ _. True), px_pread = (\<lambda>_ _ len _. replicate (unat len) CHR ''x''),
     px_pwrite = (\<lambda>_ _ bs k. (length bs, k)), px_tgkill = (\<lambda>_ _ _ k. (False, k)), px_kill = (\<lambda>_ s (p, d). (True, p @ [s], d)),
     px_setaffinity = (\<lambda>_ _ k. (True, k))\<rparr>"


theorem procagent_in_step_witness:
  "\<exists>as. proc_answers ex_proc_os [(\<lparr>pr_op = PROC_SIGNAL, pr_sig = 10, pr_pid = 7, pr_tid = 0, pr_addr = 0, pr_len = 0\<rparr>, [])] ([], []) = Some (as, [10], []) \<and>
     read_n reply_read 1 (le32 1 @ le32 0) = Inr (as, [])"
proof -
  let ?r = "(\<lparr>pr_op = PROC_SIGNAL, pr_sig = 10, pr_pid = 7, pr_tid = 0, pr_addr = 0, pr_len = 0\<rparr>, []) :: proc_req \<times> bytes"
  have ok: "\<forall>r\<in>set [?r]. proc_ok (px_alloc ex_proc_os) r" by (simp add: proc_ok_def proc_ops)
  have a: "proc_answers ex_proc_os [?r] ([], []) = Some ([(True, [])], [10], [])"
    by (simp add: proc_answer_def proc_ops do_signal_def ex_proc_os_def)
  moreover have "serve ex_proc_os (concat (map proc_enc [?r])) ([], []) = Some (le32 1 @ le32 0, [10], [])"
    using serve_requests[OF ok, of "([], [])"] unfolding a by (simp add: proc_reply_def)
  ultimately show ?thesis using procagent_in_step[OF ok, of "([], [])"] by simp
qed

end
