(* ===== verification/Sg_Setup_Bridge.thy ===== *)
theory Sg_Setup_Bridge
  imports Sg_Prelude
begin

text \<open>
  The bridge between the setup wizard (or the first-run setup) and its root service
  (\<open>src/setup/sg-setup-bridge.c\<close>): bytes come from both in pieces, are put together to
  lines, and only the requests the service knows are passed on.  What the bridge does is a
  list of \<open>bridge_out\<close>; \<open>oobe\<close> is the first-run setup.
\<close>

section \<open>The bridge\<close>

definition LINE_MAX_LEN :: nat where "LINE_MAX_LEN = 2048"

datatype bridge_out = ToService bytes | ToWizard bytes | ReadyFile | ResultTry

record bridge_os =
  bo_ready :: bool
  bo_result :: bool
  bo_write :: "bytes \<Rightarrow> bool"

definition installd_requests :: "string list" where
  "installd_requests = [''LIST'', ''LAYOUT'', ''DRIVERS'', ''NEW '', ''DELETE '', ''FORMAT '', ''INSTALL '', ''PASSWORD '', ''REBOOT'', ''POWEROFF'']"

definition oobed_requests :: "string list" where
  "oobed_requests = [''STATE'', ''NETWORKS'', ''CONNECT '', ''KEY'', ''KEY '', ''ACCOUNT '', ''PASSWORD '', ''FINISH '']"

definition request_matches :: "string \<Rightarrow> string \<Rightarrow> bool" where
  "request_matches line req \<longleftrightarrow> (if last req = CHR '' '' then starts req line else line = req)"

definition allowed :: "bool \<Rightarrow> string \<Rightarrow> bool" where
  "allowed oobe line \<longleftrightarrow> list_ex (request_matches line) (if oobe then oobed_requests else installd_requests)"

text \<open>A line as the handler gets it: a C string without the CR before the LF.\<close>

definition line_text :: "bytes \<Rightarrow> string" where
  "line_text l = cstr (if l \<noteq> [] \<and> last l = CR then butlast l else l)"

function pump_lines :: "bytes \<Rightarrow> string list \<times> bytes" where
  "pump_lines d =
     (if LF \<in> set d
      then let l = takeWhile (\<lambda>c. c \<noteq> LF) d; (ls, rest) = pump_lines (drop (length l + 1) d) in (line_text l # ls, rest)
      else ([], d))"
  by pat_completeness auto
termination
proof (relation "measure length")
  fix d :: bytes and l assume h: "LF \<in> set d" "l = takeWhile (\<lambda>c. c \<noteq> LF) d"
  then have "d \<noteq> []" by auto
  then show "(drop (length l + 1) d, d) \<in> measure length" by simp
qed simp

declare pump_lines.simps [simp del]

text \<open>What was read is put after what is there; a full buffer without a line is emptied.\<close>

definition pump :: "bytes \<Rightarrow> bytes \<Rightarrow> string list \<times> bytes" where
  "pump chunk b =
     (let (ls, rest) = pump_lines (b @ chunk) in (ls, if length rest = LINE_MAX_LEN then [] else rest))"

definition to_wizard :: "string \<Rightarrow> bridge_out" where
  "to_wizard s = ToWizard (take (LINE_MAX_LEN - 2) s @ [LF])"

definition from_wizard :: "bool \<Rightarrow> bridge_os \<Rightarrow> bool \<Rightarrow> string \<Rightarrow> bridge_out list" where
  "from_wizard oobe os service line =
     (if line = ''HELLO'' then (if oobe \<and> bo_ready os then [ReadyFile] else [])
      else if \<not> oobe \<and> line = ''TRY'' then (if bo_result os then [ResultTry] else [])
      else if \<not> allowed oobe line then []
      else if \<not> service
      then [to_wizard (if oobe then ''FAILED The setup service is not available.'' else ''FAILED The installer service is not available.'')]
      else ToService (line @ [LF]) #
             (if bo_write os (line @ [LF]) then [] else [to_wizard ''FAILED The installer service stopped.'']))"

record setup_bridge =
  br_ui :: bytes
  br_svc :: bytes
  br_service :: bool

text \<open>What \<open>poll\<close> may bring: bytes or the end from the wizard, bytes or the end from the service.\<close>

datatype bridge_event = Wizard bytes | Service bytes | Service_end

definition bridge_step :: "bool \<Rightarrow> bridge_os \<Rightarrow> bridge_event \<Rightarrow> setup_bridge \<Rightarrow> setup_bridge \<times> bridge_out list" where
  "bridge_step oobe os e s =
     (case e of
        Wizard chunk \<Rightarrow>
          (case pump chunk (br_ui s) of (ls, rest) \<Rightarrow> (s\<lparr>br_ui := rest\<rparr>, concat (map (from_wizard oobe os (br_service s)) ls)))
      | Service chunk \<Rightarrow>
          if \<not> br_service s then (s, [])
          else (case pump chunk (br_svc s) of (ls, rest) \<Rightarrow> (s\<lparr>br_svc := rest\<rparr>, map to_wizard ls))
      | Service_end \<Rightarrow>
          if \<not> br_service s then (s, []) else (s\<lparr>br_service := False\<rparr>, [to_wizard ''FAILED The installer service stopped.'']))"

fun bridge_run :: "bool \<Rightarrow> bridge_os \<Rightarrow> bridge_event list \<Rightarrow> setup_bridge \<Rightarrow> setup_bridge \<times> bridge_out list" where
  "bridge_run oobe os [] s = (s, [])"
| "bridge_run oobe os (e # es) s =
     (let (s1, out1) = bridge_step oobe os e s; (s2, out2) = bridge_run oobe os es s1 in (s2, out1 @ out2))"

definition bridge_start :: "bool \<Rightarrow> setup_bridge" where
  "bridge_start connected = \<lparr>br_ui = [], br_svc = [], br_service = connected\<rparr>"

section \<open>Lines from pieces\<close>

lemma pump_lines_line:
  assumes "LF \<notin> set l"
  shows "pump_lines (l @ LF # d) = (line_text l # fst (pump_lines d), snd (pump_lines d))"
proof -
  have "takeWhile (\<lambda>c. c \<noteq> LF) (l @ LF # d) = l" using assms by (subst takeWhile_append2) auto
  then show ?thesis by (simp add: pump_lines.simps[of "l @ LF # d"] Let_def split: prod.split)
qed

lemma pump_lines_none: "LF \<notin> set d \<Longrightarrow> pump_lines d = ([], d)"
  by (simp add: pump_lines.simps)

text \<open>Lines ended, and the start of the next one.\<close>

definition joined :: "bytes list \<Rightarrow> bytes" where
  "joined ls = concat (map (\<lambda>l. l @ [LF]) ls)"

lemma pump_lines_joined:
  assumes "\<forall>l\<in>set ls. LF \<notin> set l" and "LF \<notin> set d"
  shows "pump_lines (joined ls @ d) = (map line_text ls, d)"
  using assms(1)
proof (induction ls)
  case (Cons l ls)
  then show ?case using pump_lines_line[of l "joined ls @ d"] by (simp add: joined_def)
qed (simp add: joined_def pump_lines_none assms(2))

lemma split_lines: "\<exists>ls d. bs = joined ls @ d \<and> (\<forall>l\<in>set ls. LF \<notin> set l) \<and> LF \<notin> set d"
proof (induction bs)
  case Nil
  show ?case by (intro exI[of _ "[]"]) (simp add: joined_def)
next
  case (Cons c bs)
  then obtain ls d where h: "bs = joined ls @ d" "\<forall>l\<in>set ls. LF \<notin> set l" "LF \<notin> set d" by blast
  consider "c = LF" | "c \<noteq> LF" "ls = []" | l ls' where "c \<noteq> LF" "ls = l # ls'" by (cases ls) auto
  then show ?case
  proof cases
    case 1
    then show ?thesis using h by (intro exI[of _ "[] # ls"] exI[of _ d]) (simp add: joined_def)
  next
    case 2
    then show ?thesis using h by (intro exI[of _ "[]"] exI[of _ "c # d"]) (simp add: joined_def)
  next
    case 3
    then show ?thesis using h by (intro exI[of _ "(c # l) # ls'"] exI[of _ d]) (simp add: joined_def)
  qed
qed

lemma pump_lines_append:
  "pump_lines (a @ b) = (fst (pump_lines a) @ fst (pump_lines (snd (pump_lines a) @ b)), snd (pump_lines (snd (pump_lines a) @ b)))"
proof -
  obtain ls d where a: "a = joined ls @ d" "\<forall>l\<in>set ls. LF \<notin> set l" "LF \<notin> set d" using split_lines by blast
  have pa: "pump_lines a = (map line_text ls, d)" unfolding a(1) by (rule pump_lines_joined[OF a(2,3)])
  obtain ms e where b: "d @ b = joined ms @ e" "\<forall>l\<in>set ms. LF \<notin> set l" "LF \<notin> set e" using split_lines by blast
  have "a @ b = joined (ls @ ms) @ e" using a(1) b(1) by (simp add: joined_def)
  then have "pump_lines (a @ b) = (map line_text (ls @ ms), e)"
    using pump_lines_joined[of "ls @ ms" e] a(2) b(2,3) by (simp add: ball_Un)
  moreover have "pump_lines (d @ b) = (map line_text ms, e)" unfolding b(1) by (rule pump_lines_joined[OF b(2,3)])
  ultimately show ?thesis by (simp add: pa)
qed

lemma pump_lines_rest: "LF \<notin> set (snd (pump_lines d))"
proof -
  obtain ls e where "d = joined ls @ e" "\<forall>l\<in>set ls. LF \<notin> set l" "LF \<notin> set e" using split_lines by blast
  then show ?thesis using pump_lines_joined[of ls e] by simp
qed


lemma joined_cut:
  assumes "joined ms @ e @ b = joined ls" and "\<forall>l\<in>set ms. LF \<notin> set l" and "\<forall>l\<in>set ls. LF \<notin> set l" and "LF \<notin> set e"
  shows "e = [] \<or> (\<exists>l\<in>set ls. length e \<le> length l)"
  using assms(1-3)
proof (induction ms arbitrary: ls)
  case Nil
  show ?case
  proof (cases ls)
    case Nil
    then show ?thesis using Nil.prems by (simp add: joined_def)
  next
    case (Cons l ls')
    have "e @ b = l @ LF # joined ls'" using Nil.prems Cons by (simp add: joined_def)
    then have "length e \<le> length l"
    proof (rule_tac ccontr)
      assume h: "e @ b = l @ LF # joined ls'" "\<not> length e \<le> length l"
      then have "(e @ b) ! length l = LF" by simp
      then have "e ! length l = LF" using h(2) by (simp add: nth_append)
      then show False using assms(4) h(2) by (metis not_le nth_mem)
    qed
    then show ?thesis using Cons by simp
  qed
next
  case (Cons m ms)
  then obtain l ls' where ls: "ls = l # ls'" by (cases ls) (simp_all add: joined_def)
  have eq: "m @ LF # joined ms @ e @ b = l @ LF # joined ls'" using Cons.prems(1) by (simp add: ls joined_def)
  have "LF \<notin> set m" "LF \<notin> set l" using Cons.prems(2,3) by (simp_all add: ls)
  then have "takeWhile (\<lambda>c. c \<noteq> LF) (m @ LF # r) = m" "takeWhile (\<lambda>c. c \<noteq> LF) (l @ LF # r) = l" for r
    by (subst takeWhile_append2; force)+
  then have "m = l" using arg_cong[OF eq, of "takeWhile (\<lambda>c. c \<noteq> LF)"] by simp
  then have "joined ms @ e @ b = joined ls'" using eq by simp
  then show ?case using Cons.IH[of ls'] Cons.prems by (auto simp: ls)
qed

text \<open>The bytes read so far of short lines never fill the buffer.\<close>

lemma rest_fits:
  assumes "a @ b = joined ls" and "\<forall>l\<in>set ls. LF \<notin> set l \<and> length l < LINE_MAX_LEN"
  shows "length (snd (pump_lines a)) < LINE_MAX_LEN"
proof -
  obtain ms e where a: "a = joined ms @ e" "\<forall>l\<in>set ms. LF \<notin> set l" "LF \<notin> set e" using split_lines by blast
  have "e = [] \<or> (\<exists>l\<in>set ls. length e \<le> length l)" using joined_cut[of ms e b ls] assms a by simp
  then have "length e < LINE_MAX_LEN" using assms(2) by (auto simp: LINE_MAX_LEN_def)
  then show ?thesis using pump_lines_joined[OF a(2,3)] by (simp add: a(1))
qed

section \<open>Only whole requests pass\<close>

definition to_service :: "bridge_out list \<Rightarrow> bytes list" where
  "to_service out = concat (map (\<lambda>e. case e of ToService b \<Rightarrow> [b] | _ \<Rightarrow> []) out)"

lemma to_service_append [simp]: "to_service (a @ b) = to_service a @ to_service b" "to_service [] = []"
  by (simp_all add: to_service_def)

lemma to_service_wizard [simp]: "to_service (map to_wizard ls) = []"
  by (induction ls) (simp_all add: to_service_def to_wizard_def)

lemma not_requests: "\<not> allowed oobe ''HELLO''" "\<not> allowed oobe ''TRY''"
  by (simp_all add: allowed_def installd_requests_def oobed_requests_def request_matches_def starts_def)

lemma to_service_line:
  "to_service (from_wizard oobe os service line) = (if service \<and> allowed oobe line then [line @ [LF]] else [])"
  using not_requests[of oobe] by (auto simp: from_wizard_def to_service_def to_wizard_def)

lemma to_service_lines:
  "to_service (concat (map (from_wizard oobe os service) ls)) = (if service then map (\<lambda>t. t @ [LF]) (filter (allowed oobe) ls) else [])"
  by (induction ls) (simp_all add: to_service_line)

lemma line_text_clean: "LF \<notin> set l \<Longrightarrow> LF \<notin> set (line_text l) \<and> nul_free (line_text l)"
proof -
  assume h: "LF \<notin> set l"
  have "LF \<notin> set (if l \<noteq> [] \<and> last l = CR then butlast l else l)" using h by (auto dest: in_set_butlastD)
  then show ?thesis unfolding line_text_def cstr_def nul_free_def by (auto dest: set_takeWhileD)
qed

lemma pump_lines_clean: "t \<in> set (fst (pump_lines d)) \<Longrightarrow> LF \<notin> set t \<and> nul_free t"
proof -
  assume t: "t \<in> set (fst (pump_lines d))"
  obtain ls e where d: "d = joined ls @ e" "\<forall>l\<in>set ls. LF \<notin> set l" "LF \<notin> set e" using split_lines by blast
  then have "fst (pump_lines d) = map line_text ls" using pump_lines_joined[OF d(2,3)] by simp
  then show ?thesis using t d(2) line_text_clean by auto
qed

lemma bridge_step_requests:
  assumes "bridge_step oobe os e s = (s', out)"
  shows "\<forall>b\<in>set (to_service out). \<exists>t. b = t @ [LF] \<and> allowed oobe t \<and> LF \<notin> set t \<and> nul_free t"
proof (cases e)
  case (Wizard chunk)
  have "to_service out = (if br_service s then map (\<lambda>t. t @ [LF]) (filter (allowed oobe) (fst (pump_lines (br_ui s @ chunk)))) else [])"
    using assms by (auto simp: bridge_step_def Wizard pump_def to_service_lines Let_def split: prod.splits)
  then show ?thesis using pump_lines_clean by (auto split: if_splits)
next
  case (Service chunk)
  then have "to_service out = []" using assms by (auto simp: bridge_step_def split: prod.splits if_splits)
  then show ?thesis by simp
next
  case Service_end
  then have "to_service out = []" using assms by (auto simp: bridge_step_def to_service_def to_wizard_def split: if_splits)
  then show ?thesis by simp
qed

lemma bridge_run_requests:
  "\<forall>b\<in>set (to_service (snd (bridge_run oobe os es s))). \<exists>t. b = t @ [LF] \<and> allowed oobe t \<and> LF \<notin> set t \<and> nul_free t"
proof (induction es arbitrary: s)
  case (Cons e es)
  obtain s1 out1 where e: "bridge_step oobe os e s = (s1, out1)" by fastforce
  show ?case using bridge_step_requests[OF e] Cons.IH[of s1] by (auto simp: e Let_def split: prod.split)
qed simp

text \<open>The wizard's bytes of a run of events.\<close>

definition wizard_bytes :: "bridge_event list \<Rightarrow> bytes" where
  "wizard_bytes es = concat (map (\<lambda>e. case e of Wizard c \<Rightarrow> c | _ \<Rightarrow> []) es)"

lemma bridge_run_lines:
  assumes "a @ wizard_bytes es = joined ls" and "\<forall>l\<in>set ls. LF \<notin> set l \<and> length l < LINE_MAX_LEN" and "Service_end \<notin> set es"
    and "br_ui s = snd (pump_lines a)" and "br_service s"
  shows "to_service (snd (bridge_run oobe os es s)) =
    map (\<lambda>t. t @ [LF]) (filter (allowed oobe) (fst (pump_lines (br_ui s @ wizard_bytes es))))"
  using assms(1,3-5)
proof (induction es arbitrary: a s)
  case Nil
  then show ?case using pump_lines_none[OF pump_lines_rest[of a]] by (simp add: wizard_bytes_def)
next
  case (Cons e es)
  consider c where "e = Wizard c" | c where "e = Service c" using Cons.prems(2) by (cases e) auto
  then show ?case
  proof cases
    case 1
    let ?r = "snd (pump_lines (br_ui s @ c))"
    have bytes: "wizard_bytes (e # es) = c @ wizard_bytes es" by (simp add: wizard_bytes_def 1)
    have r: "?r = snd (pump_lines (a @ c))" using pump_lines_append[of a c] Cons.prems(3) by simp
    have "length ?r < LINE_MAX_LEN" unfolding r using rest_fits[of "a @ c" "wizard_bytes es" ls] Cons.prems(1) assms(2) bytes by simp
    then have step: "bridge_step oobe os e s = (s\<lparr>br_ui := ?r\<rparr>, concat (map (from_wizard oobe os True) (fst (pump_lines (br_ui s @ c)))))"
      using Cons.prems(4) by (auto simp: bridge_step_def 1 pump_def Let_def split: prod.split)
    have IH: "to_service (snd (bridge_run oobe os es (s\<lparr>br_ui := ?r\<rparr>))) =
        map (\<lambda>t. t @ [LF]) (filter (allowed oobe) (fst (pump_lines (?r @ wizard_bytes es))))"
      using Cons.IH[of "a @ c" "s\<lparr>br_ui := ?r\<rparr>"] Cons.prems bytes r by simp
    show ?thesis
      using pump_lines_append[of "br_ui s @ c" "wizard_bytes es"] IH
      by (simp add: step bytes to_service_lines Let_def case_prod_beta)
  next
    case 2
    have bytes: "wizard_bytes (e # es) = wizard_bytes es" by (simp add: wizard_bytes_def 2)
    define s1 where "s1 = s\<lparr>br_svc := snd (pump c (br_svc s))\<rparr>"
    have step: "bridge_step oobe os e s = (s1, map to_wizard (fst (pump c (br_svc s))))" "br_ui s1 = br_ui s" "br_service s1"
      using Cons.prems(4) by (simp_all add: bridge_step_def 2 case_prod_beta s1_def)
    show ?thesis using Cons.IH[of a s1] Cons.prems bytes step by (simp add: Let_def case_prod_beta)
  qed
qed


text \<open>
  C32.  An overlong line is not dropped whole: the buffer is emptied when it is full, and what
  comes after that of the same line is taken for a line of its own and, if it reads like a
  request, passed on.
\<close>

theorem overlong_line_tail_passed:
  assumes "length junk = LINE_MAX_LEN" and "LF \<notin> set junk" and "LF \<notin> set t" and "nul_free t" and "allowed oobe t" and "last t \<noteq> CR"
  shows "to_service (snd (bridge_run oobe os [Wizard junk, Wizard (t @ [LF])] (bridge_start True))) = [t @ [LF]]"
proof -
  have whole: "line_text t = t" using assms(4,6) by (simp add: line_text_def cstr_whole)
  have "pump_lines (t @ [LF]) = ([t], [])" using pump_lines_line[OF assms(3), of "[]"] by (simp add: pump_lines_none whole)
  then show ?thesis
    using assms(1,2,5) by (simp add: bridge_start_def bridge_step_def pump_def pump_lines_none to_service_line LINE_MAX_LEN_def Let_def)
qed

definition ex_bridge_os :: bridge_os where
  "ex_bridge_os = \<lparr>bo_ready = False, bo_result = False, bo_write = (\<lambda>_. True)\<rparr>"

theorem overlong_line_tail_passed_witness:
  "to_service (snd (bridge_run False ex_bridge_os [Wizard (replicate 2048 CHR ''x''), Wizard (''REBOOT'' @ [LF])] (bridge_start True))) = [''REBOOT'' @ [LF]]"
proof -
  have "allowed False ''REBOOT''" by (simp add: allowed_def installd_requests_def request_matches_def starts_def)
  from overlong_line_tail_passed[OF _ _ _ _ this, of "replicate 2048 CHR ''x''" ex_bridge_os]
  show ?thesis by (simp add: LINE_MAX_LEN_def nul_free_def)
qed


end
