(* ===== verification/Sg_Polimport.thy ===== *)
theory Sg_Polimport
  imports Sg_Elevate
begin

text \<open>
  Group Policy files to registry files (\<open>src/greeter/sg-polimport.c\<close>): the parser of
  registry.pol and what it prints.  The file is the list of its bytes, the position in it
  the bytes that are left.
\<close>

section \<open>The program\<close>

text \<open>\<open>%lx\<close> and \<open>%02x\<close>\<close>

function show_hex :: "nat \<Rightarrow> string" where
  "show_hex n = (if n < 16 then [hex_digit n] else show_hex (n div 16) @ [hex_digit (n mod 16)])"
  by pat_completeness auto
termination by (relation "measure id") auto

declare show_hex.simps [simp del]

fun u16 :: "bytes \<Rightarrow> (nat \<times> bytes) option" where
  "u16 (a # b # rest) = Some (code a + 256 * code b, rest)"
| "u16 _ = None"

text \<open>A unit of UTF-16 as the bytes written for it.\<close>

definition utf8_unit :: "nat \<Rightarrow> bytes" where
  "utf8_unit c =
     (if c < 0x80 then [char_of c]
      else if c < 0x800 then [char_of (0xC0 + c div 64), char_of (0x80 + c mod 64)]
      else [char_of (0xE0 + c div 4096), char_of (0x80 + c div 64 mod 64), char_of (0x80 + c mod 64)])"

function wstr :: "nat \<Rightarrow> bytes \<Rightarrow> bytes \<Rightarrow> (bytes \<times> bytes) option" where
  "wstr sz out bs =
     (case u16 bs of
        None \<Rightarrow> None
      | Some (c, rest) \<Rightarrow>
          if c = 0 then Some (out, rest)
          else if length out + length (utf8_unit c) \<ge> sz then None
          else wstr sz (out @ utf8_unit c) rest)"
  by pat_completeness auto
termination
proof (relation "measure (\<lambda>(sz, out, bs). length bs)")
  fix sz out bs x c rest assume "u16 bs = Some x" "(c, rest) = x"
  then show "((sz, out @ utf8_unit c, rest), sz, out, bs) \<in> measure (\<lambda>(sz, out, bs). length bs)"
    by (cases bs rule: u16.cases) auto
qed simp

declare wstr.simps [simp del]

definition expect :: "char \<Rightarrow> bytes \<Rightarrow> bytes option" where
  "expect want bs = (case u16 bs of None \<Rightarrow> None | Some (c, rest) \<Rightarrow> if c = code want then Some rest else None)"

fun hex_bytes :: "bytes \<Rightarrow> string" where
  "hex_bytes [] = []"
| "hex_bytes [c] = hex_n 2 (code c)"
| "hex_bytes (c # cs) = hex_n 2 (code c) @ '','' @ hex_bytes cs"

definition reg_entry :: "bytes \<Rightarrow> bytes \<Rightarrow> u32 \<Rightarrow> bytes \<Rightarrow> string" where
  "reg_entry key val type data =
     ''[HKEY_LOCAL_MACHINE'' @ [CHR 0x5C] @ key @ '']'' @ [LF] @ [CHR 0x22] @ val @ [CHR 0x22] @ ''=hex('' @ show_hex (unat type) @ ''):''
       @ hex_bytes data @ [LF, LF]"

definition KEY_SIZE :: nat where "KEY_SIZE = 8192"
definition VAL_SIZE :: nat where "VAL_SIZE = 2048"

text \<open>One entry, up to its data: what is printed, and what is left.\<close>

definition pol_entry :: "bytes \<Rightarrow> (string \<times> bytes) option" where
  "pol_entry bs =
     Option.bind (expect CHR ''['' bs) (\<lambda>b1.
     Option.bind (wstr KEY_SIZE [] b1) (\<lambda>(key, b2).
     Option.bind (expect CHR '';'' b2) (\<lambda>b3.
     Option.bind (wstr VAL_SIZE [] b3) (\<lambda>(val, b4).
     Option.bind (expect CHR '';'' b4) (\<lambda>b5.
     Option.bind (read_u32 b5) (\<lambda>(type, b6).
     Option.bind (expect CHR '';'' b6) (\<lambda>b7.
     Option.bind (read_u32 b7) (\<lambda>(dsize, b8).
     Option.bind (expect CHR '';'' b8) (\<lambda>b9.
       if unat dsize > length b9 then None
       else Some (reg_entry key val type (take (unat dsize) b9), drop (unat dsize) b9))))))))))"

lemma u16_shrinks: "u16 bs = Some (c, rest) \<Longrightarrow> length rest < length bs"
  by (cases bs rule: u16.cases) auto

lemma expect_shrinks: "expect c bs = Some rest \<Longrightarrow> length rest < length bs"
  by (auto simp: expect_def split: option.splits if_splits dest: u16_shrinks)

lemma wstr_shrinks: "wstr sz out bs = Some (s, rest) \<Longrightarrow> length rest < length bs"
proof (induction sz out bs rule: wstr.induct)
  case (1 sz out bs)
  show ?case
  proof (cases "u16 bs")
    case None
    then show ?thesis using "1.prems" by (simp add: wstr.simps[of sz out bs])
  next
    case (Some x)
    obtain c r where x: "x = (c, r)" by (cases x)
    then have "length r < length bs" using Some u16_shrinks by simp
    then show ?thesis
      using "1.prems" "1.IH"[OF Some x[symmetric]] by (auto simp: wstr.simps[of sz out bs] Some x split: if_splits)
  qed
qed

lemma pol_entry_shrinks: "pol_entry bs = Some (t, rest) \<Longrightarrow> length rest < length bs"
  by (fastforce simp: pol_entry_def bind_eq_Some_conv split: if_splits dest: expect_shrinks wstr_shrinks read_u32_shrinks)

function pol_loop :: "bytes \<Rightarrow> string" where
  "pol_loop bs =
     (if bs = [] then []
      else case pol_entry bs of
        None \<Rightarrow> []
      | Some (t, rest) \<Rightarrow> t @ (case expect CHR '']'' rest of None \<Rightarrow> [] | Some rest' \<Rightarrow> pol_loop rest'))"
  by pat_completeness auto
termination
  by (relation "measure length") (auto dest!: pol_entry_shrinks expect_shrinks)

declare pol_loop.simps [simp del]

definition reg_header :: string where
  "reg_header = ''Windows Registry Editor Version 5.00'' @ [LF, LF]"

text \<open>The exit status and what is printed; \<open>None\<close> is a file that cannot be opened or read.\<close>

definition polimport :: "bytes option \<Rightarrow> nat \<times> string" where
  "polimport file =
     (case file of
        None \<Rightarrow> (1, [])
      | Some bs \<Rightarrow>
          if length bs < 8 then (1, [])
          else if take 4 bs \<noteq> ''PReg'' then (1, [])
          else (0, reg_header @ pol_loop (drop 8 bs)))"


section \<open>A policy file\<close>

text \<open>An entry as Windows writes it: the units of its names, its type and its bytes.\<close>

record policy =
  po_key :: "nat list"
  po_val :: "nat list"
  po_type :: u32
  po_data :: bytes

definition w16 :: "nat \<Rightarrow> bytes" where
  "w16 n = [char_of (n mod 256), char_of (n div 256)]"

definition policy_bytes :: "policy \<Rightarrow> bytes" where
  "policy_bytes p =
     w16 (code CHR ''['') @ concat (map w16 (po_key p)) @ w16 0 @ w16 (code CHR '';'') @ concat (map w16 (po_val p)) @ w16 0
       @ w16 (code CHR '';'') @ le32 (po_type p) @ w16 (code CHR '';'') @ le32 (word_of_nat (length (po_data p))) @ w16 (code CHR '';'')
       @ po_data p @ w16 (code CHR '']'')"

definition utf8_name :: "nat list \<Rightarrow> bytes" where
  "utf8_name us = concat (map utf8_unit us)"

definition policy_ok :: "policy \<Rightarrow> bool" where
  "policy_ok p \<longleftrightarrow>
     (\<forall>c\<in>set (po_key p) \<union> set (po_val p). 0 < c \<and> c < 65536) \<and>
     length (utf8_name (po_key p)) < KEY_SIZE \<and> length (utf8_name (po_val p)) < VAL_SIZE \<and> length (po_data p) < 2 ^ 32"

lemma u16_w16: "n < 65536 \<Longrightarrow> u16 (w16 n @ rest) = Some (n, rest)"
  by (simp add: w16_def)

lemma expect_w16: "expect c (w16 (code c) @ rest) = Some rest"
proof -
  have "code c < 65536" by (rule less_trans[OF of_char_less_256]) simp
  then have "u16 (w16 (code c) @ rest) = Some (code c, rest)" by (rule u16_w16)
  then show ?thesis by (simp add: expect_def)
qed

lemma wstr_name:
  assumes "\<forall>c\<in>set us. 0 < c \<and> c < 65536"
  shows "length out + length (utf8_name us) < sz \<or> us = [] \<Longrightarrow> wstr sz out (concat (map w16 us) @ w16 0 @ rest) = Some (out @ utf8_name us, rest)"
  using assms
proof (induction us arbitrary: out)
  case Nil
  then show ?case by (simp add: wstr.simps[of sz out] u16_w16 utf8_name_def)
next
  case (Cons c us)
  have "u16 (concat (map w16 (c # us)) @ w16 0 @ rest) = Some (c, concat (map w16 us) @ w16 0 @ rest)"
    using Cons.prems u16_w16[of c] by simp
  moreover have "utf8_name (c # us) = utf8_unit c @ utf8_name us" by (simp add: utf8_name_def)
  ultimately show ?case
    using Cons.IH[of "out @ utf8_unit c"] Cons.prems by (simp add: wstr.simps[of sz out "w16 c @ concat (map w16 us) @ w16 0 @ rest"])
qed

definition policy_text :: "policy \<Rightarrow> string" where
  "policy_text p = reg_entry (utf8_name (po_key p)) (utf8_name (po_val p)) (po_type p) (po_data p)"

lemma pol_entry_bytes:
  assumes "policy_ok p"
  shows "pol_entry (policy_bytes p @ rest) = Some (policy_text p, w16 (code CHR '']'') @ rest)"
proof -
  have k: "wstr KEY_SIZE [] (concat (map w16 (po_key p)) @ w16 0 @ r) = Some (utf8_name (po_key p), r)" for r
    using wstr_name[of "po_key p" "[]" KEY_SIZE r] assms by (auto simp: policy_ok_def)
  have v: "wstr VAL_SIZE [] (concat (map w16 (po_val p)) @ w16 0 @ r) = Some (utf8_name (po_val p), r)" for r
    using wstr_name[of "po_val p" "[]" VAL_SIZE r] assms by (auto simp: policy_ok_def)
  have d: "unat (word_of_nat (length (po_data p)) :: u32) = length (po_data p)"
    using assms by (simp add: policy_ok_def unat_of_nat take_bit_eq_mod)
  show ?thesis
    unfolding pol_entry_def policy_bytes_def append_assoc expect_w16 k v read_u32_le32 bind.bind_lunit prod.case d
    by (simp add: policy_text_def)
qed

lemma pol_loop_bytes: "\<forall>p\<in>set ps. policy_ok p \<Longrightarrow> pol_loop (concat (map policy_bytes ps)) = concat (map policy_text ps)"
proof (induction ps)
  case Nil
  show ?case by (simp add: pol_loop.simps)
next
  case (Cons p ps)
  have "policy_bytes p \<noteq> []" by (simp add: policy_bytes_def w16_def)
  moreover have "expect CHR '']'' (w16 (code CHR '']'') @ r) = Some r" for r by (rule expect_w16)
  ultimately show ?case
    using Cons pol_entry_bytes[of p "concat (map policy_bytes ps)"] by (simp add: pol_loop.simps[of "policy_bytes p @ concat (map policy_bytes ps)"])
qed

section \<open>What the text says\<close>

lemma hex_digit_inj: "a < 16 \<Longrightarrow> b < 16 \<Longrightarrow> hex_digit a = hex_digit b \<Longrightarrow> a = b"
proof -
  assume h: "a < 16" "b < 16" "hex_digit a = hex_digit b"
  have c: "code (hex_digit n) = (if n < 10 then 48 + n else 87 + n)" if "n < 16" for n using that by (simp add: hex_digit_def)
  have "code (hex_digit a) = code (hex_digit b)" using h(3) by simp
  then show ?thesis using c h(1,2) by (auto split: if_splits)
qed

lemma hex_2: "hex_n 2 n = [hex_digit (n div 16 mod 16), hex_digit (n mod 16)]"
  by (simp add: numeral_2_eq_2)

lemma hex_2_inj: "hex_n 2 (code a) = hex_n 2 (code b) \<Longrightarrow> a = b"
proof -
  assume "hex_n 2 (code a) = hex_n 2 (code b)"
  then have "code a div 16 mod 16 = code b div 16 mod 16" "code a mod 16 = code b mod 16"
    using hex_digit_inj by (simp_all add: hex_2)
  moreover have "code x div 16 mod 16 = code x div 16" for x
  proof (rule mod_less)
    have "code x < 256" by (rule of_char_less_256)
    then have "code x < 16 * 16" by linarith
    then show "code x div 16 < 16" by (rule less_mult_imp_div_less)
  qed
  ultimately have "code a = code b" by (metis div_mult_mod_eq)
  then show ?thesis by simp
qed

lemma hex_bytes_inj: "hex_bytes d = hex_bytes d' \<Longrightarrow> d = d'"
proof (induction d arbitrary: d' rule: hex_bytes.induct)
  case 1
  then show ?case by (cases d' rule: hex_bytes.cases) (simp_all add: hex_2)
next
  case (2 c)
  then obtain c' where d': "d' = [c']" by (cases d' rule: hex_bytes.cases) (auto simp: hex_2)
  then show ?case using 2 hex_2_inj[of c c'] by simp
next
  case (3 c e cs)
  obtain c' e' cs' where d': "d' = c' # e' # cs'"
    using "3.prems" by (cases d' rule: hex_bytes.cases) (auto simp: hex_2)
  have "hex_n 2 (code c) = hex_n 2 (code c')" "hex_bytes (e # cs) = hex_bytes (e' # cs')"
    using "3.prems" by (simp_all add: d' hex_2)
  then show ?case using hex_2_inj "3.IH" by (simp add: d')
qed


lemma hex_digit_plain: "n < 16 \<Longrightarrow> hex_digit n \<noteq> CHR '')''"
proof
  assume h: "n < 16" "hex_digit n = CHR '')''"
  have "code (hex_digit n) = (if n < 10 then 48 + n else 87 + n)" using h(1) by (simp add: hex_digit_def)
  then show False unfolding h(2) by (simp split: if_splits)
qed

lemma show_hex_plain: "CHR '')'' \<notin> set (show_hex n)"
proof (induction n rule: show_hex.induct)
  case (1 n)
  show ?case
  proof (cases "n < 16")
    case True
    then show ?thesis using hex_digit_plain[of n] by (simp add: show_hex.simps[of n])
  next
    case False
    then show ?thesis using 1 hex_digit_plain[of "n mod 16"] by (simp add: show_hex.simps[of n])
  qed
qed

lemma show_hex_not_Nil: "show_hex n \<noteq> []"
  by (simp add: show_hex.simps[of n])

lemma show_hex_inj: "show_hex m = show_hex n \<Longrightarrow> m = n"
proof (induction m arbitrary: n rule: show_hex.induct)
  case (1 m)
  have split: "show_hex k = (if k < 16 then [] else show_hex (k div 16)) @ [hex_digit (k mod 16)]" for k by (simp add: show_hex.simps[of k])
  have eq: "(if m < 16 then [] else show_hex (m div 16)) = (if n < 16 then [] else show_hex (n div 16))"
    "hex_digit (m mod 16) = hex_digit (n mod 16)"
    using "1.prems" unfolding split[of m] split[of n] by simp_all
  then have low: "m mod 16 = n mod 16" using hex_digit_inj by simp
  show ?case
  proof (cases "m < 16")
    case True
    then have "n < 16" using eq(1) show_hex_not_Nil[of "n div 16"] by (auto split: if_splits)
    then show ?thesis using True low by simp
  next
    case False
    then have "\<not> n < 16" "show_hex (m div 16) = show_hex (n div 16)" using eq(1) show_hex_not_Nil[of "m div 16"] by (auto split: if_splits)
    then have "m div 16 = n div 16" using "1.IH"[OF False] by simp
    then show ?thesis using low by (metis div_mult_mod_eq)
  qed
qed

lemma split_at_first: "x \<notin> set a \<Longrightarrow> x \<notin> set b \<Longrightarrow> a @ x # s = b @ x # t \<Longrightarrow> a = b \<and> s = t"
proof (induction a arbitrary: b)
  case Nil
  then show ?case by (cases b) auto
next
  case (Cons y a)
  then show ?case by (cases b) auto
qed

lemma reg_entry_lossless: "reg_entry key val t d = reg_entry key val t' d' \<Longrightarrow> t = t' \<and> d = d'"
proof -
  assume "reg_entry key val t d = reg_entry key val t' d'"
  then have "show_hex (unat t) @ CHR '')'' # CHR '':'' # hex_bytes d @ [LF, LF] = show_hex (unat t') @ CHR '')'' # CHR '':'' # hex_bytes d' @ [LF, LF]"
    by (simp add: reg_entry_def)
  then have "show_hex (unat t) = show_hex (unat t') \<and> CHR '':'' # hex_bytes d @ [LF, LF] = CHR '':'' # hex_bytes d' @ [LF, LF]"
    by (rule split_at_first[OF show_hex_plain show_hex_plain])
  then show ?thesis using show_hex_inj hex_bytes_inj by (metis append_same_eq list.inject word_unat_eq_iff)
qed

text \<open>
  C33.  Policy arrives as it was written: the import of a policy file prints one registry entry
  for each entry of the file, in order, under the machine's branch, and the type and the
  bytes of a value can be read back from its entry, whatever they are.
\<close>

theorem policy_import_exact:
  assumes "\<forall>p\<in>set ps. policy_ok p" and "length version = 4"
  shows "polimport (Some (''PReg'' @ version @ concat (map policy_bytes ps))) = (0, reg_header @ concat (map policy_text ps)) \<and>
    (\<forall>p q. po_key p = po_key q \<longrightarrow> po_val p = po_val q \<longrightarrow> policy_text p = policy_text q \<longrightarrow> po_type p = po_type q \<and> po_data p = po_data q)"
proof (intro conjI allI impI)
  show "polimport (Some (''PReg'' @ version @ concat (map policy_bytes ps))) = (0, reg_header @ concat (map policy_text ps))"
    using pol_loop_bytes[OF assms(1)] assms(2) by (simp add: polimport_def)
next
  fix p q :: policy assume h: "po_key p = po_key q" "po_val p = po_val q" "policy_text p = policy_text q"
  then have "po_type p = po_type q \<and> po_data p = po_data q" using reg_entry_lossless by (metis policy_text_def)
  then show "po_type p = po_type q" "po_data p = po_data q" by simp_all
qed

theorem policy_import_exact_witness:
  "polimport (Some (''PReg'' @ ''abcd'' @ policy_bytes \<lparr>po_key = [83], po_val = [86], po_type = 4, po_data = [CHR 0x01, NUL, NUL, NUL]\<rparr>)) =
     (0, reg_header @ reg_entry ''S'' ''V'' 4 [CHR 0x01, NUL, NUL, NUL])"
proof -
  have names: "utf8_name [83] = ''S''" "utf8_name [86] = ''V''" by code_simp+
  show ?thesis
    using policy_import_exact[of "[\<lparr>po_key = [83], po_val = [86], po_type = 4, po_data = [CHR 0x01, NUL, NUL, NUL]\<rparr>]" "''abcd''"]
    by (simp add: policy_ok_def KEY_SIZE_def VAL_SIZE_def policy_text_def names)
qed

text \<open>Names are printed as they are: one value with a quote and line ends in its name reads as two entries.\<close>

lemma policy_name_injects:
  "reg_entry key (v @ [CHR 0x22] @ ''=hex(0):'' @ [LF, LF] @ ''[HKEY_LOCAL_MACHINE'' @ [CHR 0x5C] @ key2 @ '']'' @ [LF, CHR 0x22] @ w) t d =
     reg_entry key v 0 [] @ reg_entry key2 w t d"
proof -
  have "show_hex 0 = ''0''" by code_simp
  then show ?thesis by (simp add: reg_entry_def)
qed

end
