(* ===== verification/Sg_Password.thy ===== *)
theory Sg_Password
  imports Sg_Pamcheck
begin

text \<open>
  A person changes their own password (\<open>src/greeter/sg-password-change.c\<close>): the request,
  the identity taken, the private runtime directory and keyring daemon of a person who is
  signed out, PAM's conversation and the reply.  PAM and the system are the record
  \<open>chpw_os\<close>; what the program does is a list of \<open>chpw_effect\<close>s, in order.
\<close>

section \<open>PAM's conversation\<close>

text \<open>The hidden prompts answered so far, and the last message of PAM's.\<close>

record chpw_state =
  cs_prompts :: nat
  cs_msg :: string

type_synonym chpw_conversation = "(msg_style \<times> string option) list \<Rightarrow> chpw_state \<Rightarrow> string option list option \<times> chpw_state"

definition one_line :: "string \<Rightarrow> string" where
  "one_line s = map (\<lambda>c. if c = CR \<or> c = LF then CHR '' '' else c) (snprintf_s 256 s)"

fun chpw_messages :: "string \<Rightarrow> string \<Rightarrow> chpw_conversation" where
  "chpw_messages current new [] st = (Some [], st)"
| "chpw_messages current new ((style, m) # msgs) st =
     (case style of
        PROMPT_ECHO_OFF \<Rightarrow>
          (case chpw_messages current new msgs (st\<lparr>cs_prompts := cs_prompts st + 1\<rparr>) of
             (r, st') \<Rightarrow> (map_option ((#) (Some (if cs_prompts st \<noteq> 0 then new else current))) r, st'))
      | PROMPT_ECHO_ON \<Rightarrow> (None, st)
      | _ \<Rightarrow>
          (case chpw_messages current new msgs (case m of Some t \<Rightarrow> if t \<noteq> [] then st\<lparr>cs_msg := one_line t\<rparr> else st | None \<Rightarrow> st) of
             (r, st') \<Rightarrow> (map_option ((#) None) r, st')))"

definition chpw_conv :: "string \<Rightarrow> string \<Rightarrow> chpw_conversation" where
  "chpw_conv current new msgs st =
     (if msgs = [] \<or> length msgs > PAM_MAX_NUM_MSG then (None, st) else chpw_messages current new msgs st)"

section \<open>The system\<close>

datatype daemon_tick = Ready | Ended | Waiting

record chpw_os =
  ch_accounts :: accounts
  ch_root :: bool
  ch_setresuid :: bool
  ch_pam_start :: "string \<Rightarrow> string option \<Rightarrow> nat"
  ch_putenv :: "string \<Rightarrow> nat"
  ch_chauthtok :: "string \<Rightarrow> chpw_conversation \<Rightarrow> chpw_state \<Rightarrow> nat \<times> chpw_state"
  ch_strerror :: "nat \<Rightarrow> string"
  ch_socket :: "string \<Rightarrow> uid_t option"
  ch_mkdtemp :: "string option"
  ch_chown :: bool
  ch_fork :: bool
  ch_daemon :: "nat \<Rightarrow> daemon_tick"

text \<open>
  The daemon's start and its end (killed, or waited for when it ended by itself), the
  directory made and removed, and PAM asked to change the password under a real uid
  (\<open>None\<close>: the program's own).
\<close>

datatype chpw_effect = Made_dir string | Removed_dir string "uid_t option" | Daemon_on string | Daemon_off string | Chauthtok string "uid_t option"

text \<open>\<open>start_daemon\<close>: whether it listens in the end, after at most 100 looks.\<close>

fun daemon_wait :: "(nat \<Rightarrow> daemon_tick) \<Rightarrow> nat \<Rightarrow> nat \<Rightarrow> bool" where
  "daemon_wait ticks i 0 = False"
| "daemon_wait ticks i (Suc n) =
     (case ticks i of Ready \<Rightarrow> True | Ended \<Rightarrow> False | Waiting \<Rightarrow> daemon_wait ticks (i + 1) n)"

definition start_daemon :: "chpw_os \<Rightarrow> string \<Rightarrow> bool \<times> chpw_effect list" where
  "start_daemon os runtime =
     (if \<not> ch_fork os then (False, [])
      else if daemon_wait (ch_daemon os) 0 100 then (True, [Daemon_on runtime])
      else (False, [Daemon_on runtime, Daemon_off runtime]))"

definition chpw_runtime :: "chpw_os \<Rightarrow> string \<Rightarrow> passwd \<Rightarrow> string \<times> string option \<times> bool \<times> chpw_effect list" where
  "chpw_runtime os runroot pw =
     (let runtime = snprintf_s 400 (runroot @ ''/'' @ show_u32 (pw_uid pw)); line = snprintf_s 440 (runtime @ ''/keyring/control'')
      in if ch_socket os line = Some (pw_uid pw) then (runtime, None, False, [])
         else case ch_mkdtemp os of
           None \<Rightarrow> (runtime, None, False, [])
         | Some tmpl \<Rightarrow>
             if \<not> ch_root os \<or> ch_chown os then
               (case start_daemon os tmpl of (on, fx) \<Rightarrow> (tmpl, Some tmpl, on, Made_dir tmpl # fx))
             else (runtime, None, False, [Made_dir tmpl, Removed_dir tmpl None]))"

definition PAM_AUTH_ERRS :: "nat set" where
  "PAM_AUTH_ERRS = {7, 20, 21, 6}"

definition chpw_reply :: "chpw_os \<Rightarrow> nat \<Rightarrow> chpw_state \<Rightarrow> string" where
  "chpw_reply os rc st =
     (if rc = 0 then ''OK''
      else if cs_prompts st \<le> 1 \<and> rc \<in> PAM_AUTH_ERRS then ''FAIL current''
      else snprintf_s 400 (''FAIL '' @ (if cs_msg st \<noteq> [] then cs_msg st else ch_strerror os rc))) @ [LF]"

text \<open>The part of \<open>main\<close> after the account is known to be a person's.\<close>

definition chpw_change :: "chpw_os \<Rightarrow> env \<Rightarrow> passwd \<Rightarrow> string \<Rightarrow> string \<Rightarrow> string \<Rightarrow> nat \<times> string \<times> chpw_effect list" where
  "chpw_change os e pw user current new =
     (let confdir = (case e ''SG_PAM_CONFDIR'' of Some d \<Rightarrow> if d = [] then None else Some d | None \<Rightarrow> None);
          runroot = (case e ''SG_RUNTIME_ROOT'' of Some r \<Rightarrow> if r = [] then ''/run/user'' else r | None \<Rightarrow> ''/run/user'');
          rc0 = ch_pam_start os user confdir;
          (runtime, made, on, fx) = chpw_runtime os runroot pw;
          rc1 = (if rc0 = 0 then ch_putenv os (snprintf_s 440 (''XDG_RUNTIME_DIR='' @ runtime)) else rc0);
          st0 = \<lparr>cs_prompts = 0, cs_msg = []\<rparr>;
          (rc, st) = (if rc1 = 0 then ch_chauthtok os user (chpw_conv current new) st0 else (rc1, st0))
      in (if rc = 0 then 0 else 1, chpw_reply os rc st,
          fx @ (if rc1 = 0 then [Chauthtok user (if ch_root os then Some (pw_uid pw) else None)] else [])
            @ (if on then [Daemon_off runtime] else [])
            @ (case made of Some d \<Rightarrow> [Removed_dir d (Some (pw_uid pw))] | None \<Rightarrow> [])))"

definition fails :: "string \<Rightarrow> nat \<times> string \<times> chpw_effect list" where
  "fails why = (1, ''FAIL '' @ why @ [LF], [])"

definition chpw_read :: "bytes \<Rightarrow> (string \<times> string \<times> string) option" where
  "chpw_read input =
     Option.bind (read_field PAM_MAXFIELD input) (\<lambda>(user, b1).
     Option.bind (read_field PAM_MAXFIELD b1) (\<lambda>(current, b2).
     Option.bind (read_field PAM_MAXFIELD b2) (\<lambda>(new, _). Some (user, current, new))))"

text \<open>The account, or why there is no change.\<close>

definition chpw_account :: "chpw_os \<Rightarrow> string \<Rightarrow> string \<Rightarrow> string + passwd" where
  "chpw_account os user new =
     (if user = [] \<or> new = [] then Inl ''empty user or password''
      else case getpwnam (ch_accounts os) user of
        None \<Rightarrow> Inl ''no such account''
      | Some pw \<Rightarrow>
          if pw_uid pw = 0 then Inl ''not for the root account''
          else if ch_root os \<and> \<not> ch_setresuid os then Inl (''cannot take the account'' @ [CHR 0x27] @ ''s identity'')
          else Inr pw)"

definition password_change :: "chpw_os \<Rightarrow> env \<Rightarrow> bytes \<Rightarrow> nat \<times> string \<times> chpw_effect list" where
  "password_change os e input =
     (case chpw_read input of
        None \<Rightarrow> fails ''malformed request''
      | Some (user, current, new) \<Rightarrow>
          (case chpw_account os user new of
             Inl why \<Rightarrow> fails why
           | Inr pw \<Rightarrow> chpw_change os e pw user current new))"

section \<open>What the person's answers are\<close>

text \<open>The first hidden prompt gets the current password, every later one the new one.\<close>

definition hidden :: "(msg_style \<times> string option) list \<Rightarrow> nat" where
  "hidden msgs = length (filter (\<lambda>m. fst m = PROMPT_ECHO_OFF) msgs)"

definition said :: "string option list \<Rightarrow> string list" where
  "said as = map the (filter (\<lambda>a. a \<noteq> None) as)"

lemma chpw_later_answers:
  "chpw_messages current new msgs st = (Some as, st') \<Longrightarrow> cs_prompts st \<noteq> 0 \<Longrightarrow> said as = replicate (hidden msgs) new"
proof (induction msgs arbitrary: as st)
  case (Cons m msgs)
  obtain style tx where m: "m = (style, tx)" by (cases m)
  let ?st = "if style = PROMPT_ECHO_OFF then st\<lparr>cs_prompts := cs_prompts st + 1\<rparr>
    else (case tx of Some t \<Rightarrow> if t \<noteq> [] then st\<lparr>cs_msg := one_line t\<rparr> else st | None \<Rightarrow> st)"
  have "cs_prompts ?st \<noteq> 0" using Cons.prems(2) by (simp split: option.split)
  moreover obtain as' where "chpw_messages current new msgs ?st = (Some as', st')" "style \<noteq> PROMPT_ECHO_ON"
    "as = (if style = PROMPT_ECHO_OFF then Some new else None) # as'"
    using Cons.prems by (cases style) (auto simp: m split: prod.splits)
  ultimately show ?case using Cons.IH[of ?st as'] by (simp add: m said_def hidden_def)
qed (simp add: said_def hidden_def)

lemma chpw_first_answers:
  "chpw_messages current new msgs st = (Some as, st') \<Longrightarrow> cs_prompts st = 0 \<Longrightarrow>
     said as = (if hidden msgs = 0 then [] else current # replicate (hidden msgs - 1) new)"
proof (induction msgs arbitrary: as st)
  case (Cons m msgs)
  obtain style tx where m: "m = (style, tx)" by (cases m)
  show ?case
  proof (cases "style = PROMPT_ECHO_OFF")
    case True
    then obtain as' where "chpw_messages current new msgs (st\<lparr>cs_prompts := cs_prompts st + 1\<rparr>) = (Some as', st')" "as = Some current # as'"
      using Cons.prems by (auto simp: m split: prod.splits)
    then show ?thesis using chpw_later_answers[of current new msgs "st\<lparr>cs_prompts := cs_prompts st + 1\<rparr>" as' st'] True
      by (simp add: m said_def hidden_def)
  next
    case False
    let ?st = "case tx of Some t \<Rightarrow> if t \<noteq> [] then st\<lparr>cs_msg := one_line t\<rparr> else st | None \<Rightarrow> st"
    have "cs_prompts ?st = 0" using Cons.prems(2) by (simp split: option.split)
    moreover obtain as' where "chpw_messages current new msgs ?st = (Some as', st')" "as = None # as'"
      using Cons.prems False by (cases style) (auto simp: m split: prod.splits)
    ultimately show ?thesis using Cons.IH[of ?st as'] False by (simp add: m said_def hidden_def)
  qed
qed (simp add: said_def hidden_def)

section \<open>Nothing is left behind\<close>

text \<open>The directories and the daemons there are after some effects.\<close>

fun there :: "chpw_effect \<Rightarrow> string set \<times> string set \<Rightarrow> string set \<times> string set" where
  "there (Made_dir d) (ds, ps) = (insert d ds, ps)"
| "there (Removed_dir d u) (ds, ps) = (ds - {d}, ps)"
| "there (Daemon_on d) (ds, ps) = (ds, insert d ps)"
| "there (Daemon_off d) (ds, ps) = (ds, ps - {d})"
| "there (Chauthtok user u) x = x"

definition left_over :: "chpw_effect list \<Rightarrow> string set \<times> string set" where
  "left_over fx = fold there fx ({}, {})"

lemma chpw_runtime_left:
  assumes "chpw_runtime os runroot pw = (runtime, made, on, fx)"
  shows "left_over fx = ((case made of Some d \<Rightarrow> {d} | None \<Rightarrow> {}), if on then {runtime} else {})" "on \<Longrightarrow> made = Some runtime"
    "\<forall>user u. Chauthtok user u \<notin> set fx"
  using assms by (auto simp: chpw_runtime_def start_daemon_def left_over_def Let_def split: if_splits option.splits)

lemma chpw_change_sound:
  assumes "chpw_change os e pw user current new = (status, reply, fx)"
  shows "left_over fx = ({}, {})"
    "Chauthtok u r \<in> set fx \<Longrightarrow> u = user \<and> (ch_root os \<longrightarrow> r = Some (pw_uid pw))"
    "status = 0 \<longleftrightarrow> reply = ''OK'' @ [LF]"
    "status = 0 \<longleftrightarrow> (\<exists>r. Chauthtok user r \<in> set fx) \<and> fst (ch_chauthtok os user (chpw_conv current new) \<lparr>cs_prompts = 0, cs_msg = []\<rparr>) = 0"
proof -
  define confdir where "confdir = (case e ''SG_PAM_CONFDIR'' of Some d \<Rightarrow> if d = [] then None else Some d | None \<Rightarrow> None)"
  define runroot where "runroot = (case e ''SG_RUNTIME_ROOT'' of Some r \<Rightarrow> if r = [] then ''/run/user'' else r | None \<Rightarrow> ''/run/user'')"
  define st0 where "st0 = \<lparr>cs_prompts = 0, cs_msg = []\<rparr>"
  obtain runtime made on fx0 where rt: "chpw_runtime os runroot pw = (runtime, made, on, fx0)" by (rule prod_cases4)
  define rc1 where "rc1 = (if ch_pam_start os user confdir = 0 then ch_putenv os (snprintf_s 440 (''XDG_RUNTIME_DIR='' @ runtime)) else ch_pam_start os user confdir)"
  obtain rc st where rc: "(if rc1 = 0 then ch_chauthtok os user (chpw_conv current new) st0 else (rc1, st0)) = (rc, st)" by fastforce
  have all: "status = (if rc = 0 then 0 else 1)" "reply = chpw_reply os rc st"
    "fx = fx0 @ (if rc1 = 0 then [Chauthtok user (if ch_root os then Some (pw_uid pw) else None)] else [])
            @ (if on then [Daemon_off runtime] else []) @ (case made of Some d \<Rightarrow> [Removed_dir d (Some (pw_uid pw))] | None \<Rightarrow> [])"
    using assms unfolding chpw_change_def Let_def confdir_def[symmetric] runroot_def[symmetric] st0_def[symmetric] rt prod.case rc1_def[symmetric] rc
    by simp_all
  note r = chpw_runtime_left[OF rt]
  have "fold there fx0 ({}, {}) = ((case made of Some d \<Rightarrow> {d} | None \<Rightarrow> {}), if on then {runtime} else {})" using r(1) by (simp add: left_over_def)
  then show "left_over fx = ({}, {})" by (simp add: all(3) left_over_def split: option.split)
  show "Chauthtok u r \<in> set fx \<Longrightarrow> u = user \<and> (ch_root os \<longrightarrow> r = Some (pw_uid pw))"
    using r(3) by (auto simp: all(3) split: if_splits option.splits)
  have "chpw_reply os rc st = ''OK'' @ [LF] \<longleftrightarrow> rc = 0" by (simp add: chpw_reply_def snprintf_s_def)
  then show "status = 0 \<longleftrightarrow> reply = ''OK'' @ [LF]" by (simp add: all)
  have "(\<exists>r. Chauthtok user r \<in> set fx) \<longleftrightarrow> rc1 = 0" using r(3) by (auto simp: all(3) split: option.splits)
  then show "status = 0 \<longleftrightarrow> (\<exists>r. Chauthtok user r \<in> set fx) \<and> fst (ch_chauthtok os user (chpw_conv current new) \<lparr>cs_prompts = 0, cs_msg = []\<rparr>) = 0"
    using rc by (auto simp: all(1) st0_def[symmetric] split: if_splits)
qed



definition ex_chpw_os :: chpw_os where
  "ex_chpw_os = \<lparr>ch_accounts = ex_accounts, ch_root = True, ch_setresuid = True, ch_pam_start = (\<lambda>_ _. 0), ch_putenv = (\<lambda>_. 0),
     ch_chauthtok = (\<lambda>user conv st.
       case conv [(PROMPT_ECHO_OFF, None), (PROMPT_ECHO_OFF, None)] st of
         (Some [Some a, Some b], st') \<Rightarrow> (if a = ''pw'' \<and> b = ''pw2'' then 0 else 7, st') | (_, st') \<Rightarrow> (7, st')),
     ch_strerror = (\<lambda>_. []), ch_socket = (\<lambda>_. None), ch_mkdtemp = Some ''/tmp/sg-keyring-1'', ch_chown = True, ch_fork = True,
     ch_daemon = (\<lambda>n. if n < 3 then Waiting else Ready)\<rparr>"


end
