(* ===== verification/Sg_Keyring.thy ===== *)
theory Sg_Keyring
  imports Sg_Password
begin

text \<open>
  A person's keyring: recovering or resetting it from the session
  (\<open>src/greeter/sg-keyring.c\<close>) and making it at the first sign-in
  (\<open>src/greeter/sg-keyring-first.c\<close>).  The keyring service's answer to a call is a
  parameter that may depend on everything done before; what the programs do is a list of
  \<open>keyring_effect\<close>s, in order.  A reply is the line printed, without its newline.
\<close>

section \<open>The keyring from the session\<close>

datatype keyring_effect =
    Get_locked
  | Open_session
  | Change string string
  | Unlock string
  | Create string
  | Set_label string
  | Set_alias string
  | Renamed string string

datatype keyring_answer = No_answer bool string | Answer_bool bool | Answer_path string | Answer

text \<open>
  \<open>No_answer unknown why\<close> is an error, \<open>unknown\<close> that there is no such service.  The system:
  the account of the process, PAM, the session bus, the files and the time.
\<close>

record keyring_os =
  ky_account :: "passwd option"
  ky_start :: "string \<Rightarrow> string \<Rightarrow> string option \<Rightarrow> nat"
  ky_authenticate :: "string \<Rightarrow> string \<Rightarrow> conversation \<Rightarrow> nat"
  ky_bus :: bool
  ky_call :: "keyring_effect list \<Rightarrow> keyring_effect \<Rightarrow> keyring_answer"
  ky_exists :: "string \<Rightarrow> bool"
  ky_rename :: bool
  ky_stamp :: string

definition keyring_service :: "env \<Rightarrow> string" where
  "keyring_service e =
     (case e ''SG_KEYRING_PAM_SERVICE'' of Some s \<Rightarrow> if s = [] then ''stained-glass-keyring'' else s | None \<Rightarrow> ''stained-glass-keyring'')"

definition password_is_current :: "keyring_os \<Rightarrow> env \<Rightarrow> string \<Rightarrow> bool" where
  "password_is_current os e pw =
     (case ky_account os of
        None \<Rightarrow> False
      | Some p \<Rightarrow>
          if pw = [] then False
          else let rc = ky_start os (keyring_service e) (pw_name p) (pam_confdir e)
               in (if rc = 0 then ky_authenticate os (keyring_service e) (pw_name p) (pam_conv (snprintf_s PAM_MAXFIELD pw)) else rc) = 0)"

datatype login_state = Locked | Open_keyring | No_keyring | No_service

definition login_locked :: "keyring_answer \<Rightarrow> login_state" where
  "login_locked a =
     (case a of No_answer unknown _ \<Rightarrow> if unknown then No_service else No_keyring | Answer_bool b \<Rightarrow> if b then Locked else Open_keyring | _ \<Rightarrow> No_keyring)"

definition absolute :: "string option \<Rightarrow> string option" where
  "absolute v = (case v of Some d \<Rightarrow> if take 1 d = ''/'' then Some d else None | None \<Rightarrow> None)"

definition keyring_file :: "keyring_os \<Rightarrow> env \<Rightarrow> string" where
  "keyring_file os e =
     (case absolute (e ''XDG_DATA_HOME'') of
        Some d \<Rightarrow> d @ ''/keyrings/login.keyring''
      | None \<Rightarrow>
          (case absolute (e ''HOME'') of
             Some h \<Rightarrow> h
           | None \<Rightarrow> (case ky_account os of Some p \<Rightarrow> pw_dir p | None \<Rightarrow> ''/'')) @ ''/.local/share/keyrings/login.keyring'')"

definition answered :: "keyring_answer \<Rightarrow> bool" where
  "answered a \<longleftrightarrow> (case a of No_answer _ _ \<Rightarrow> False | _ \<Rightarrow> True)"

definition do_recover :: "keyring_os \<Rightarrow> env \<Rightarrow> bytes \<Rightarrow> nat \<times> string \<times> keyring_effect list" where
  "do_recover os e input =
     (case Option.bind (read_field PAM_MAXFIELD input) (\<lambda>(old, rest). map_option (\<lambda>(cur, _). (old, cur)) (read_field PAM_MAXFIELD rest)) of
        None \<Rightarrow> (1, ''FAIL malformed request'', [])
      | Some (old, cur) \<Rightarrow>
          if \<not> password_is_current os e cur then (1, ''FAIL current'', [])
          else if \<not> answered (ky_call os [] Open_session) then (1, ''FAIL the keyring service did not answer'', [Open_session])
          else if \<not> answered (ky_call os [Open_session] (Change old cur)) then (1, ''FAIL old'', [Open_session, Change old cur])
          else if \<not> answered (ky_call os [Open_session, Change old cur] (Unlock cur))
          then (1, ''FAIL old'', [Open_session, Change old cur, Unlock cur])
          else (0, ''OK'', [Open_session, Change old cur, Unlock cur]))"

text \<open>Waiting for the old keyring to go: at most \<open>n\<close> looks.\<close>

fun wait_gone :: "keyring_os \<Rightarrow> nat \<Rightarrow> keyring_effect list \<Rightarrow> keyring_effect list" where
  "wait_gone os 0 h = h"
| "wait_gone os (Suc n) h =
     (if login_locked (ky_call os h Get_locked) \<in> {Locked, Open_keyring} then wait_gone os n (h @ [Get_locked]) else h @ [Get_locked])"

text \<open>The new keyring, after the old one is out of the way; \<open>h\<close> is what was done.\<close>

definition make_keyring :: "keyring_os \<Rightarrow> string \<Rightarrow> keyring_effect list \<Rightarrow> nat \<times> string \<times> keyring_effect list" where
  "make_keyring os cur h =
     (let silent = ''the keyring service did not answer''
      in if \<not> answered (ky_call os h Open_session) then (1, ''FAIL '' @ silent, h @ [Open_session])
         else let h1 = h @ [Open_session]; h2 = h1 @ [Create cur]
              in case ky_call os h1 (Create cur) of
                   No_answer _ why \<Rightarrow> (1, ''FAIL '' @ why, h2)
                 | Answer_path path \<Rightarrow>
                     let h3 = h2 @ [Set_label path]; h4 = h3 @ [Set_alias path]
                     in (case ky_call os h3 (Set_alias path) of
                           No_answer _ why \<Rightarrow> (1, ''FAIL '' @ why, h4)
                         | _ \<Rightarrow> (0, ''OK'', h4))
                 | _ \<Rightarrow> (1, ''FAIL '' @ silent, h2))"

definition do_reset :: "keyring_os \<Rightarrow> env \<Rightarrow> bytes \<Rightarrow> nat \<times> string \<times> keyring_effect list" where
  "do_reset os e input =
     (case read_field PAM_MAXFIELD input of
        None \<Rightarrow> (1, ''FAIL malformed request'', [])
      | Some (cur, _) \<Rightarrow>
          if \<not> password_is_current os e cur then (1, ''FAIL current'', [])
          else let file = keyring_file os e; kept = file @ ''.before-reset-'' @ ky_stamp os
               in if ky_exists os file \<and> \<not> ky_rename os then (1, ''FAIL the old keyring could not be moved aside'', [])
                  else make_keyring os cur (wait_gone os 50 (if ky_exists os file then [Renamed file kept] else [])))"

definition keyring_status :: "keyring_os \<Rightarrow> string" where
  "keyring_status os =
     (case login_locked (ky_call os [] Get_locked) of
        Locked \<Rightarrow> ''locked'' | Open_keyring \<Rightarrow> ''open'' | No_keyring \<Rightarrow> ''none'' | No_service \<Rightarrow> ''unavailable'')"

definition keyring_main :: "keyring_os \<Rightarrow> env \<Rightarrow> string \<Rightarrow> bytes \<Rightarrow> nat \<times> string \<times> keyring_effect list" where
  "keyring_main os e cmd input =
     (if cmd \<noteq> ''status'' \<and> cmd \<noteq> ''recover'' \<and> cmd \<noteq> ''reset'' then (2, [], [])
      else if \<not> ky_bus os then (1, if cmd = ''status'' then ''unavailable'' else ''FAIL no session bus'', [])
      else if cmd = ''status'' then (0, keyring_status os, [Get_locked])
      else if cmd = ''recover'' then do_recover os e input else do_reset os e input)"

section \<open>Nothing changes without the password\<close>

text \<open>The effects that change a keyring, and the password they leave it with.\<close>

fun changes :: "keyring_effect \<Rightarrow> bool" where
  "changes Get_locked = False"
| "changes Open_session = False"
| "changes _ = True"

fun new_password :: "keyring_effect \<Rightarrow> string option" where
  "new_password (Change old cur) = Some cur"
| "new_password (Unlock cur) = Some cur"
| "new_password (Create cur) = Some cur"
| "new_password _ = None"

lemma wait_gone_looks: "\<exists>n. wait_gone os m h = h @ replicate n Get_locked"
proof (induction m arbitrary: h)
  case (Suc m)
  obtain n where "wait_gone os m (h @ [Get_locked]) = (h @ [Get_locked]) @ replicate n Get_locked" using Suc by blast
  then have "wait_gone os m (h @ [Get_locked]) = h @ replicate (Suc n) Get_locked" by simp
  moreover have "h @ [Get_locked] = h @ replicate 1 Get_locked" by simp
  ultimately show ?case unfolding wait_gone.simps by metis
qed (simp add: exI[of _ 0])

lemma make_keyring_effects:
  assumes "make_keyring os cur h = (status, reply, fx)"
  shows "\<exists>rest. fx = h @ rest \<and> (\<forall>f\<in>set rest. \<forall>p. new_password f = Some p \<longrightarrow> p = cur) \<and> (\<forall>a b. Renamed a b \<notin> set rest)"
    "status = 0 \<longleftrightarrow> reply = ''OK''" "status = 0 \<Longrightarrow> Create cur \<in> set fx"
proof -
  have "(\<exists>rest. fx = h @ rest \<and> (\<forall>f\<in>set rest. \<forall>p. new_password f = Some p \<longrightarrow> p = cur) \<and> (\<forall>a b. Renamed a b \<notin> set rest)) \<and>
    (status = 0 \<longleftrightarrow> reply = ''OK'') \<and> (status = 0 \<longrightarrow> Create cur \<in> set fx)"
    using assms by (auto simp: make_keyring_def Let_def split: if_splits keyring_answer.splits)
  then show "\<exists>rest. fx = h @ rest \<and> (\<forall>f\<in>set rest. \<forall>p. new_password f = Some p \<longrightarrow> p = cur) \<and> (\<forall>a b. Renamed a b \<notin> set rest)"
    "status = 0 \<longleftrightarrow> reply = ''OK''" "status = 0 \<Longrightarrow> Create cur \<in> set fx" by blast+
qed


lemma do_recover_effects:
  assumes "do_recover os e input = (status, reply, fx)"
  shows "fx = [] \<or> (\<exists>cur. password_is_current os e cur \<and> (\<forall>f\<in>set fx. \<forall>p. new_password f = Some p \<longrightarrow> p = cur))"
    "status = 0 \<longleftrightarrow> reply = ''OK''" "Create c \<notin> set fx"
  using assms by (auto simp: do_recover_def split: option.splits if_splits) (blast+)

lemma do_reset_effects:
  assumes "do_reset os e input = (status, reply, fx)"
  shows "fx = [] \<or> (\<exists>cur. password_is_current os e cur \<and> (\<forall>f\<in>set fx. \<forall>p. new_password f = Some p \<longrightarrow> p = cur))"
    "status = 0 \<longleftrightarrow> reply = ''OK''"
    "fx \<noteq> [] \<Longrightarrow> ky_exists os (keyring_file os e) \<Longrightarrow>
       \<exists>rest. fx = Renamed (keyring_file os e) (keyring_file os e @ ''.before-reset-'' @ ky_stamp os) # rest"
proof -
  define kf where "kf = keyring_file os e"
  define kept where "kept = kf @ ''.before-reset-'' @ ky_stamp os"
  define h where "h = (if ky_exists os kf then [Renamed kf kept] else [])"
  consider "fx = []" "status = 1" "reply \<noteq> ''OK''"
    | cur where "password_is_current os e cur" "make_keyring os cur (wait_gone os 50 h) = (status, reply, fx)"
    using assms unfolding do_reset_def Let_def kf_def[symmetric] kept_def[symmetric] h_def[symmetric]
    by (auto split: option.splits if_splits)
  then have "(fx = [] \<or> (\<exists>cur. password_is_current os e cur \<and> (\<forall>f\<in>set fx. \<forall>p. new_password f = Some p \<longrightarrow> p = cur))) \<and>
    (status = 0 \<longleftrightarrow> reply = ''OK'') \<and> (fx \<noteq> [] \<longrightarrow> ky_exists os kf \<longrightarrow> (\<exists>rest. fx = Renamed kf kept # rest))"
  proof cases
    case 2
    obtain n where n: "wait_gone os 50 h = h @ replicate n Get_locked" using wait_gone_looks by blast
    note m = make_keyring_effects[OF 2(2)]
    obtain rest where rest: "fx = h @ replicate n Get_locked @ rest" "\<forall>f\<in>set rest. \<forall>p. new_password f = Some p \<longrightarrow> p = cur"
      using m(1) n by auto
    have "\<forall>f\<in>set fx. \<forall>p. new_password f = Some p \<longrightarrow> p = cur" using rest by (auto simp: h_def split: if_splits)
    moreover have "ky_exists os kf \<longrightarrow> (\<exists>rest. fx = Renamed kf kept # rest)" using rest(1) by (simp add: h_def)
    ultimately show ?thesis using 2(1) m(2) by blast
  qed simp
  then show "fx = [] \<or> (\<exists>cur. password_is_current os e cur \<and> (\<forall>f\<in>set fx. \<forall>p. new_password f = Some p \<longrightarrow> p = cur))"
    "status = 0 \<longleftrightarrow> reply = ''OK''"
    "fx \<noteq> [] \<Longrightarrow> ky_exists os (keyring_file os e) \<Longrightarrow>
       \<exists>rest. fx = Renamed (keyring_file os e) (keyring_file os e @ ''.before-reset-'' @ ky_stamp os) # rest"
    unfolding kf_def kept_def by blast+
qed

text \<open>
  C35.  A keyring changes only for the person's own sign-in password: whatever is asked, an effect
  on a keyring comes only after PAM accepted the password given as the current one, and that
  is the password the keyring is left with; a new keyring is made only after the old file
  was moved aside, and OK with exit status 0 is said only when all of it was done.
\<close>

theorem keyring_needs_password:
  assumes "keyring_main os e cmd input = (status, reply, fx)"
  shows "((\<exists>f\<in>set fx. changes f) \<longrightarrow>
      (\<exists>cur. password_is_current os e cur \<and> (\<forall>f\<in>set fx. \<forall>p. new_password f = Some p \<longrightarrow> p = cur))) \<and>
    (\<forall>c. Create c \<in> set fx \<longrightarrow> ky_exists os (keyring_file os e) \<longrightarrow>
      (\<exists>rest. fx = Renamed (keyring_file os e) (keyring_file os e @ ''.before-reset-'' @ ky_stamp os) # rest)) \<and>
    (cmd \<noteq> ''status'' \<longrightarrow> (status = 0 \<longleftrightarrow> reply = ''OK''))"
proof -
  consider "fx = [] \<or> fx = [Get_locked]" "cmd \<noteq> ''status'' \<longrightarrow> status \<noteq> 0 \<and> reply \<noteq> ''OK''"
    | "do_recover os e input = (status, reply, fx)" | "do_reset os e input = (status, reply, fx)"
    using assms by (auto simp: keyring_main_def split: if_splits)
  then show ?thesis
  proof cases
    case 1
    then show ?thesis by auto
  next
    case 2
    note r = do_recover_effects[OF 2]
    have "(\<exists>f\<in>set fx. changes f) \<Longrightarrow> fx \<noteq> []" by auto
    then show ?thesis using r by blast
  next
    case 3
    note r = do_reset_effects[OF 3]
    have ne: "f \<in> set fx \<Longrightarrow> fx \<noteq> []" for f by auto
    show ?thesis using r ne by blast
  qed
qed

definition ex_keyring_os :: keyring_os where
  "ex_keyring_os = \<lparr>ky_account = Some (ex_account ''alice'' 1001), ky_start = (\<lambda>_ _ _. 0),
     ky_authenticate = (\<lambda>_ _ conv. if conv [PROMPT_ECHO_OFF] = Some [Some ''pw''] then 0 else 7), ky_bus = True,
     ky_call = (\<lambda>_ c. case c of Create _ \<Rightarrow> Answer_path ''/login'' | Get_locked \<Rightarrow> No_answer False [] | _ \<Rightarrow> Answer),
     ky_exists = (\<lambda>_. True), ky_rename = True, ky_stamp = ''now''\<rparr>"

theorem keyring_needs_password_witness:
  "case keyring_main ex_keyring_os Map.empty ''reset'' (cput ''pw'') of
     (status, reply, fx) \<Rightarrow> status = 0 \<and> Create ''pw'' \<in> set fx \<and> (\<exists>cur. password_is_current ex_keyring_os Map.empty cur) \<and> (\<exists>a b rest. fx = Renamed a b # rest)"
proof -
  let ?r = "keyring_main ex_keyring_os Map.empty ''reset'' (cput ''pw'')"
  have f: "read_field PAM_MAXFIELD (cput ''pw'') = Some (''pw'', [])" using read_field_cput[of "''pw''" "[]"] by (simp add: nul_free_def PAM_MAXFIELD_def)
  have cur: "password_is_current ex_keyring_os Map.empty ''pw''"
    by (simp add: password_is_current_def ex_keyring_os_def pam_conv_def PAM_MAX_NUM_MSG_def PAM_MAXFIELD_def Let_def)
  have calls: "ky_call ex_keyring_os h Get_locked = No_answer False []" "ky_call ex_keyring_os h Open_session = Answer"
    "ky_call ex_keyring_os h (Create c) = Answer_path ''/login''" "ky_call ex_keyring_os h (Set_alias c) = Answer" for h c
    by (simp_all add: ex_keyring_os_def)
  have "(50 :: nat) = Suc 49" by simp
  then have wait: "wait_gone ex_keyring_os 50 h = h @ [Get_locked]" for h by (simp only: wait_gone.simps calls) (simp add: login_locked_def)
  have there: "ky_exists ex_keyring_os f" "ky_rename ex_keyring_os" "ky_bus ex_keyring_os" for f by (simp_all add: ex_keyring_os_def)
  have "make_keyring ex_keyring_os ''pw'' h = (0, ''OK'', h @ [Open_session, Create ''pw'', Set_label ''/login'', Set_alias ''/login''])" for h
    by (simp add: make_keyring_def calls answered_def Let_def)
  then have "fst ?r = 0 \<and> Create ''pw'' \<in> set (snd (snd ?r))"
    by (simp add: keyring_main_def do_reset_def f cur wait there Let_def)
  then show ?thesis
    using keyring_needs_password[of ex_keyring_os Map.empty "''reset''" "cput ''pw''" "fst ?r" "fst (snd ?r)" "snd (snd ?r)"] cur there(1)
    unfolding case_prod_beta prod.collapse by blast
qed


section \<open>The first sign-in\<close>

record first_os =
  fo_accounts :: accounts
  fo_root :: bool
  fo_uid :: uid_t
  fo_exists :: "string \<Rightarrow> bool"
  fo_mkdtemp :: "string option"
  fo_chown :: bool
  fo_pipe :: bool
  fo_fork :: bool
  fo_remove :: bool

text \<open>\<open>strtok\<close> at spaces.\<close>

definition space_words :: "string \<Rightarrow> string list" where
  "space_words s = filter (\<lambda>w. w \<noteq> []) (split_on CHR '' '' s)"

definition wanted_service :: "env \<Rightarrow> string option \<Rightarrow> bool" where
  "wanted_service e service =
     (case service of
        None \<Rightarrow> False
      | Some s \<Rightarrow>
          let listed = (case e ''SG_KEYRING_FIRST_SERVICES'' of
                          Some l \<Rightarrow> if l = [] then ''greetd stained-glass-remote'' else l
                        | None \<Rightarrow> ''greetd stained-glass-remote'')
          in s \<in> set (space_words (snprintf_s 256 listed)))"

text \<open>The account and its home: unprivileged, only a home given for it.\<close>

definition first_home :: "first_os \<Rightarrow> env \<Rightarrow> passwd \<Rightarrow> string option" where
  "first_home os e pw =
     (if fo_root os then Some (pw_dir pw)
      else case absolute (e ''SG_KEYRING_FIRST_HOME'') of
        None \<Rightarrow> None
      | Some h \<Rightarrow> if fo_uid os = pw_uid pw then Some h else None)"

definition first_account :: "first_os \<Rightarrow> env \<Rightarrow> (passwd \<times> string) option" where
  "first_account os e =
     (case e ''PAM_USER'' of
        None \<Rightarrow> None
      | Some user \<Rightarrow>
          if e ''PAM_TYPE'' \<noteq> Some ''auth'' \<or> \<not> wanted_service e (e ''PAM_SERVICE'') then None
          else case getpwnam (fo_accounts os) user of
            None \<Rightarrow> None
          | Some pw \<Rightarrow>
              if pw_uid pw = 0 \<or> take 1 (pw_dir pw) \<noteq> ''/'' then None
              else map_option (Pair pw) (first_home os e pw))"

text \<open>The password up to its NUL or the end; \<open>None\<close> when it is too long.\<close>

fun first_password :: "string \<Rightarrow> bytes \<Rightarrow> string option" where
  "first_password acc [] = Some acc"
| "first_password acc (c # input) =
     (if c = NUL then Some acc else if length acc + 1 \<ge> PAM_MAXFIELD then None else first_password (acc @ [c]) input)"

text \<open>What the daemon gets on its standard input, and what is done.\<close>

definition keyring_first :: "first_os \<Rightarrow> env \<Rightarrow> bytes \<Rightarrow> string option \<times> chpw_effect list" where
  "keyring_first os e input =
     (case first_account os e of
        None \<Rightarrow> (None, [])
      | Some (pw, home) \<Rightarrow>
          if fo_exists os (snprintf_s 1024 (home @ ''/.local/share/keyrings/login.keyring'')) then (None, [])
          else case first_password [] input of
            None \<Rightarrow> (None, [])
          | Some p \<Rightarrow>
              if p = [] then (None, [])
              else case fo_mkdtemp os of
                None \<Rightarrow> (None, [])
              | Some rt \<Rightarrow>
                  if fo_root os \<and> \<not> fo_chown os \<or> \<not> fo_pipe os then (None, [Made_dir rt, Removed_dir rt None])
                  else (if fo_fork os then Some p else None,
                        Made_dir rt # (if fo_fork os then [Daemon_on rt, Daemon_off rt] else [])
                          @ (if fo_remove os then [Removed_dir rt (Some (pw_uid pw))] else [])))"

lemma first_password_typed:
  "first_password acc input = Some p \<Longrightarrow> p = acc @ cstr input \<and> (length acc < PAM_MAXFIELD \<longrightarrow> length p < PAM_MAXFIELD)"
proof (induction input arbitrary: acc)
  case (Cons c input)
  show ?case
  proof (cases "c = NUL")
    case True
    then show ?thesis using Cons.prems by (simp add: cstr_def)
  next
    case False
    have fits: "length acc + 1 < PAM_MAXFIELD" using Cons.prems False by (simp split: if_splits)
    then have "first_password (acc @ [c]) input = Some p" using Cons.prems False by simp
    from Cons.IH[OF this] have "p = acc @ c # cstr input" "length p < PAM_MAXFIELD" using fits by auto
    then show ?thesis using False by (simp add: cstr_def)
  qed
qed (simp add: cstr_def)

lemma first_account_Some:
  assumes "first_account os e = Some (pw, home)"
  shows "\<exists>user service. e ''PAM_USER'' = Some user \<and> e ''PAM_SERVICE'' = Some service \<and> wanted_service e (Some service) \<and>
    getpwnam (fo_accounts os) user = Some pw \<and> pw_uid pw \<noteq> 0 \<and> (fo_root os \<longrightarrow> home = pw_dir pw) \<and> e ''PAM_TYPE'' = Some ''auth''"
proof -
  obtain user where u: "e ''PAM_USER'' = Some user" using assms by (cases "e ''PAM_USER''") (simp_all add: first_account_def)
  have guard: "e ''PAM_TYPE'' = Some ''auth''" "wanted_service e (e ''PAM_SERVICE'')"
    using assms by (simp_all add: first_account_def u split: if_splits)
  then obtain service where s: "e ''PAM_SERVICE'' = Some service" by (cases "e ''PAM_SERVICE''") (simp_all add: wanted_service_def)
  obtain pw' where pw': "getpwnam (fo_accounts os) user = Some pw'"
    using assms by (cases "getpwnam (fo_accounts os) user") (simp_all add: first_account_def u split: if_splits)
  have "pw' = pw \<and> pw_uid pw \<noteq> 0 \<and> first_home os e pw = Some home"
    using assms by (auto simp: first_account_def u guard pw' split: if_splits)
  moreover from this have "fo_root os \<longrightarrow> home = pw_dir pw" by (auto simp: first_home_def)
  ultimately show ?thesis using u guard s pw' by simp
qed

text \<open>
  At a sign-in the keyring is made only when it should be: a daemon gets the password only
  for a wanted service's authentication of an account that is not root's and has no login
  keyring, the password is the one typed, whole, and neither a daemon nor (when it can be
  removed) a directory is left.
\<close>

theorem keyring_first_sound:
  assumes "keyring_first os e input = (given, fx)"
  shows "snd (left_over fx) = {} \<and> (fo_remove os \<longrightarrow> left_over fx = ({}, {})) \<and>
    (\<forall>p. given = Some p \<longrightarrow> p = cstr input \<and> p \<noteq> [] \<and> length p < PAM_MAXFIELD \<and> e ''PAM_TYPE'' = Some ''auth'' \<and>
       (\<exists>user service pw home. e ''PAM_USER'' = Some user \<and> e ''PAM_SERVICE'' = Some service \<and> wanted_service e (Some service) \<and>
          getpwnam (fo_accounts os) user = Some pw \<and> pw_uid pw \<noteq> 0 \<and> (fo_root os \<longrightarrow> home = pw_dir pw) \<and>
          \<not> fo_exists os (snprintf_s 1024 (home @ ''/.local/share/keyrings/login.keyring''))))"
proof (cases "fx = []")
  case True
  then have "given = None" using assms by (auto simp: keyring_first_def split: option.splits prod.splits if_splits)
  then show ?thesis using True by (simp add: left_over_def)
next
  case False
  then obtain pw home p rt where h: "first_account os e = Some (pw, home)"
    "\<not> fo_exists os (snprintf_s 1024 (home @ ''/.local/share/keyrings/login.keyring''))" "first_password [] input = Some p" "p \<noteq> []"
    "given = None \<or> given = Some p"
    "fx = [Made_dir rt, Removed_dir rt None] \<or>
     fx = Made_dir rt # (if fo_fork os then [Daemon_on rt, Daemon_off rt] else []) @ (if fo_remove os then [Removed_dir rt (Some (pw_uid pw))] else [])"
    using assms unfolding keyring_first_def by (auto split: option.splits if_splits)
  have p: "p = cstr input \<and> length p < PAM_MAXFIELD" using first_password_typed[OF h(3)] by (auto simp: PAM_MAXFIELD_def)
  obtain user service where a: "e ''PAM_USER'' = Some user" "e ''PAM_SERVICE'' = Some service" "wanted_service e (Some service)"
    "getpwnam (fo_accounts os) user = Some pw" "pw_uid pw \<noteq> 0" "fo_root os \<longrightarrow> home = pw_dir pw" "e ''PAM_TYPE'' = Some ''auth''"
    using first_account_Some[OF h(1)] by blast
  have "snd (left_over fx) = {} \<and> (fo_remove os \<longrightarrow> left_over fx = ({}, {}))" using h(6) by (cases "fo_fork os"; cases "fo_remove os") (auto simp: left_over_def)
  then show ?thesis using h(2,4,5) p a by blast
qed


definition ex_first_os :: first_os where
  "ex_first_os = \<lparr>fo_accounts = ex_accounts, fo_root = True, fo_uid = 0, fo_exists = (\<lambda>_. False), fo_mkdtemp = Some ''/tmp/k'',
     fo_chown = True, fo_pipe = True, fo_fork = True, fo_remove = True\<rparr>"

definition ex_first_env :: env where
  "ex_first_env = [''PAM_USER'' \<mapsto> ''alice'', ''PAM_TYPE'' \<mapsto> ''auth'', ''PAM_SERVICE'' \<mapsto> ''greetd'']"

theorem keyring_first_sound_witness:
  "case keyring_first ex_first_os ex_first_env (''pw'' @ [NUL]) of
     (given, fx) \<Rightarrow> given = Some ''pw'' \<and> fx \<noteq> [] \<and> left_over fx = ({}, {})"
proof -
  let ?r = "keyring_first ex_first_os ex_first_env (''pw'' @ [NUL])"
  define pw where "pw = ex_account ''alice'' 1001"
  have env: "ex_first_env ''PAM_USER'' = Some ''alice''" "ex_first_env ''PAM_TYPE'' = Some ''auth''" "ex_first_env ''PAM_SERVICE'' = Some ''greetd''"
    "ex_first_env ''SG_KEYRING_FIRST_SERVICES'' = None"
    by (simp_all add: ex_first_env_def)
  have os: "getpwnam (fo_accounts ex_first_os) ''alice'' = Some pw" "fo_root ex_first_os" "pw_uid pw \<noteq> 0" "take (Suc 0) (pw_dir pw) = ''/''"
    by (simp_all add: ex_first_os_def ex_accounts_def ex_users_def ex_account_def pw_def)
  have "wanted_service ex_first_env (Some ''greetd'')" by (simp add: wanted_service_def env space_words_def snprintf_s_def)
  then have acc: "first_account ex_first_os ex_first_env = Some (pw, pw_dir pw)"
    by (simp add: first_account_def env os first_home_def)
  have "first_password [] (''pw'' @ [NUL]) = Some ''pw''" by (simp add: PAM_MAXFIELD_def)
  then have "fst ?r = Some ''pw'' \<and> snd ?r \<noteq> []"
    unfolding keyring_first_def acc option.case prod.case by (simp add: ex_first_os_def)
  moreover have "fo_remove ex_first_os" by (simp add: ex_first_os_def)
  ultimately show ?thesis using keyring_first_sound[of ex_first_os ex_first_env "''pw'' @ [NUL]" "fst ?r" "snd ?r"]
    unfolding case_prod_beta prod.collapse by blast
qed

end
