(* ===== verification/Sg_Prompt.thy ===== *)
theory Sg_Prompt
  imports Sg_Consent
begin

text \<open>
  The consent prompt, \<open>greeter/sg-consent.c\<close>: the request on its command line, what it says
  of the program and its publisher, and the window, a state machine over Windows' messages
  that writes lines to the broker.  Windows is a parameter: its files and signatures are the
  record \<open>file_os\<close>, the tab order is an argument.  The last sections put the prompt and
  the broker's side of the conversation (\<open>Sg_Consent\<close>) together.
\<close>

section \<open>The request\<close>

abbreviation SPC :: char where "SPC \<equiv> CHR '' ''"

record prompt_ask =
  pa_cred :: bool
  pa_shadow :: bool
  pa_requester :: string
  pa_program :: string

text \<open>An argument with spaces in it comes in quotes.\<close>

definition unquote :: "string \<Rightarrow> string" where
  "unquote s = (if length s \<ge> 2 \<and> hd s = DQ \<and> last s = DQ then butlast (tl s) else s)"

definition ask_mode :: "string \<Rightarrow> (bool \<times> bool \<times> string) option" where
  "ask_mode p =
     (if starts ''admin '' p then Some (False, False, drop 6 p)
      else if starts ''cred '' p then Some (True, False, drop 5 p)
      else if starts ''shadow '' p then Some (False, True, drop 7 p)
      else None)"

definition parse_cmdline :: "string \<Rightarrow> prompt_ask option" where
  "parse_cmdline cmd =
     (if \<not> starts ''/consent '' cmd then None
      else case ask_mode (drop 9 cmd) of
        None \<Rightarrow> None
      | Some (cred, shadow, p) \<Rightarrow>
          let requester = before p {SPC}; rest = dropWhile (\<lambda>c. c = SPC) (drop (length requester) p)
          in if requester = [] \<or> length requester \<ge> 128 then None
             else Some \<lparr>pa_cred = cred, pa_shadow = shadow, pa_requester = requester,
                        pa_program = unquote (snprintf_s 1024 (if rest \<noteq> [] then rest else ''(unknown program)''))\<rparr>)"

section \<open>What the prompt says of the program\<close>

definition base_name :: "string \<Rightarrow> string" where
  "base_name s = rev (takeWhile (\<lambda>c. c \<noteq> BSL \<and> c \<noteq> CHR ''/'') (rev s))"

definition program_name :: "nat \<Rightarrow> string \<Rightarrow> string" where
  "program_name sz prog =
     (let word = (if take 1 prog = [DQ] then before (tl prog) {DQ} else before prog {SPC}); base = base_name word
      in if base = [] then snprintf_s sz prog else take (sz - 1) base)"

text \<open>
  Windows' files: the wide characters of a text (\<open>None\<close>: it cannot be converted), which
  names are files, the search path, the full path of a name, the three system folders, the
  signer of a file whose signature is valid, the description in a file and a path's last
  component.
\<close>

record file_os =
  fs_wide :: "string \<Rightarrow> string option"
  fs_is_file :: "string \<Rightarrow> bool"
  fs_search :: "string \<Rightarrow> string option"
  fs_full :: "string \<Rightarrow> string option"
  fs_system :: "string list"
  fs_publisher :: "string \<Rightarrow> string option"
  fs_description :: "string \<Rightarrow> string option"
  fs_file_name :: "string \<Rightarrow> string"

definition MAX_PATH :: nat where "MAX_PATH = 260"

definition same_text :: "string \<Rightarrow> string \<Rightarrow> bool" where
  "same_text s t \<longleftrightarrow> map tolower s = map tolower t"

text \<open>The ends of words: what is before one, and the rest from its space on.\<close>

fun word_ends :: "string \<Rightarrow> string \<Rightarrow> (string \<times> string) list" where
  "word_ends acc [] = [(acc, [])]"
| "word_ends acc (c # s) = (if c = SPC then [(acc, c # s)] else []) @ word_ends (acc @ [c]) s"

definition after_space :: "string \<Rightarrow> string" where
  "after_space s = (if take 1 s = [SPC] then tl s else s)"

definition first_file :: "file_os \<Rightarrow> string \<Rightarrow> (string \<times> string) option" where
  "first_file os cmd =
     (if take 1 cmd = [DQ]
      then (case strchr (tl cmd) DQ of
              None \<Rightarrow> None
            | Some rest \<Rightarrow> Some (take (MAX_PATH - 1) (before (tl cmd) {DQ}), tl rest))
      else (case find (\<lambda>(w, _). fs_is_file os w) (word_ends [] cmd) of
              Some (w, rest) \<Rightarrow> Some (take (MAX_PATH - 1) w, after_space rest)
            | None \<Rightarrow>
                map_option (\<lambda>f. (f, after_space (case strchr cmd SPC of Some rest \<Rightarrow> tl rest | None \<Rightarrow> [])))
                  (fs_search os (before cmd {SPC}))))"

text \<open>The package \<open>msiexec\<close> installs: after \<open>/i\<close> or \<open>/package\<close> at the start of a word.\<close>

definition msi_word :: "string \<Rightarrow> string" where
  "msi_word t = (if take 1 t = [DQ] then before (tl t) {DQ} else before t {SPC})"

fun msi_package :: "bool \<Rightarrow> string \<Rightarrow> string option" where
  "msi_package at [] = None"
| "msi_package at (c # s) =
     (if (c = CHR ''/'' \<or> c = CHR ''-'') \<and> at \<and> same_text (take 8 s) ''package ''
      then Some (msi_word (dropWhile (\<lambda>c. c = SPC) (drop 8 s)))
      else if (c = CHR ''/'' \<or> c = CHR ''-'') \<and> at \<and> same_text (take 2 s) ''i ''
      then Some (msi_word (dropWhile (\<lambda>c. c = SPC) (drop 2 s)))
      else msi_package (c = SPC) s)"

definition program_file :: "file_os \<Rightarrow> string \<Rightarrow> string option" where
  "program_file os prog =
     (case Option.bind (fs_wide os prog) (first_file os) of
        None \<Rightarrow> None
      | Some (out, rest) \<Rightarrow>
          let msi = same_text (base_name out) ''msiexec.exe'' \<or> same_text (base_name out) ''msiexec'';
              f = (case (if msi then msi_package True rest else None) of Some m \<Rightarrow> take (MAX_PATH - 1) m | None \<Rightarrow> out)
          in if fs_is_file os f then Some f else None)"

definition is_system_file :: "file_os \<Rightarrow> string \<Rightarrow> bool" where
  "is_system_file os path =
     (case fs_full os path of
        None \<Rightarrow> False
      | Some full \<Rightarrow>
          (case strrchr_prefix full BSL of
             None \<Rightarrow> False
           | Some dir \<Rightarrow> last full \<noteq> BSL \<and> list_ex (same_text dir) (fs_system os)))"

record description =
  ds_name :: string
  ds_publisher :: string

definition SYSTEM_PUBLISHER :: string where
  "SYSTEM_PUBLISHER = ''Publisher: Stained Glass (part of the system)''"

definition UNKNOWN_PUBLISHER :: string where
  "UNKNOWN_PUBLISHER = ''Publisher: Unknown''"

definition verified :: "string \<Rightarrow> string" where
  "verified who = snprintf_s 300 (''Verified publisher: '' @ who)"

definition describe_thread :: "file_os \<Rightarrow> string \<Rightarrow> description \<Rightarrow> description" where
  "describe_thread os prog d =
     (case program_file os prog of
        None \<Rightarrow> d
      | Some path \<Rightarrow>
          let named = d\<lparr>ds_name := fs_file_name os path\<rparr>
          in if is_system_file os path then named\<lparr>ds_publisher := SYSTEM_PUBLISHER\<rparr>
             else case fs_publisher os path of
               Some who \<Rightarrow>
                 \<lparr>ds_name = (case fs_description os path of Some t \<Rightarrow> t | None \<Rightarrow> fs_file_name os path), ds_publisher = verified who\<rparr>
             | None \<Rightarrow> named\<lparr>ds_publisher := UNKNOWN_PUBLISHER\<rparr>)"

text \<open>The check runs in a thread of its own, waited for half a minute at most.\<close>

datatype describing = No_thread | In_time | Too_slow

definition prompt_describes :: "file_os \<Rightarrow> describing \<Rightarrow> string \<Rightarrow> description" where
  "prompt_describes os how prog =
     (let d = \<lparr>ds_name = program_name 260 prog, ds_publisher = []\<rparr>
      in if take 1 prog = ''/'' then d
         else case how of
           No_thread \<Rightarrow> d
         | In_time \<Rightarrow> describe_thread os prog d
         | Too_slow \<Rightarrow> d\<lparr>ds_publisher := UNKNOWN_PUBLISHER\<rparr>)"

section \<open>The window\<close>

datatype prompt_ctl = User_box | Pass_box | Yes_button | No_button | Other_ctl

record consent_prompt =
  cp_cred :: bool
  cp_done :: bool
  cp_waiting :: bool
  cp_armed :: nat
  cp_shown :: u32
  cp_focus :: prompt_ctl
  cp_user :: string
  cp_pass :: string
  cp_readonly :: bool
  cp_status :: string
  cp_gone :: bool

datatype prompt_out = Wrote bytes | Posted_close

text \<open>
  The messages of the window's thread.  A key going down has whether Alt is held
  (\<open>WM_SYSKEYDOWN\<close>), its virtual key, whether it repeats, whether Shift is held and the
  tick count; \<open>Typed\<close> is a text box taking a new text from what Windows dispatched to it.
\<close>

datatype prompt_msg =
    Key_down bool nat bool bool u32
  | Key_up nat
  | Command nat
  | Broker_line string
  | Broker_eof
  | Close
  | Typed prompt_ctl string

definition VK_TAB :: nat where "VK_TAB = 9"
definition VK_RETURN :: nat where "VK_RETURN = 13"
definition VK_ESCAPE :: nat where "VK_ESCAPE = 27"
definition VK_LEFT :: nat where "VK_LEFT = 37"
definition VK_RIGHT :: nat where "VK_RIGHT = 39"
definition VK_N :: nat where "VK_N = 78"
definition VK_Y :: nat where "VK_Y = 89"
definition ID_YES :: nat where "ID_YES = 201"
definition ID_NO :: nat where "ID_NO = 202"

lemmas key_defs = VK_TAB_def VK_RETURN_def VK_ESCAPE_def VK_LEFT_def VK_RIGHT_def VK_N_def VK_Y_def ID_YES_def ID_NO_def

definition prompt_line :: "string \<Rightarrow> prompt_out" where
  "prompt_line s = Wrote (take 1022 s @ [LF])"

definition finish_why :: "string option \<Rightarrow> consent_prompt \<Rightarrow> consent_prompt \<times> prompt_out list" where
  "finish_why verdict p =
     (if cp_done p then (p, [])
      else (p\<lparr>cp_done := True\<rparr>, (case verdict of Some v \<Rightarrow> [prompt_line v] | None \<Rightarrow> []) @ [Posted_close]))"

definition NAME_WANTED :: string where
  "NAME_WANTED = ''Enter an administrator'' @ [CHR 0x27] @ ''s user name.''"

definition NOT_USABLE :: string where
  "NOT_USABLE = ''That password cannot be used here.''"

definition submit_yes :: "consent_prompt \<Rightarrow> consent_prompt \<times> prompt_out list" where
  "submit_yes p =
     (let user = take 255 (cp_user p); pass = take 255 (cp_pass p)
      in if cp_done p \<or> cp_waiting p then (p, [])
         else if \<not> cp_cred p then finish_why (Some ''ALLOW'') p
         else if user = [] then (p\<lparr>cp_status := NAME_WANTED, cp_focus := User_box\<rparr>, [])
         else if TAB \<in> set user \<or> TAB \<in> set pass \<or> LF \<in> set pass
         then (p\<lparr>cp_status := NOT_USABLE\<rparr>, [])
         else (p\<lparr>cp_waiting := True, cp_readonly := True, cp_status := ''Checking...'', cp_pass := []\<rparr>,
               [prompt_line (''CRED '' @ user @ [TAB] @ pass)]))"

definition handle_broker_line :: "string \<Rightarrow> consent_prompt \<Rightarrow> consent_prompt \<times> prompt_out list" where
  "handle_broker_line line p =
     (if starts ''FAILURE '' line
      then (p\<lparr>cp_waiting := False, cp_readonly := False, cp_status := drop 8 line, cp_focus := Pass_box\<rparr>, [])
      else if starts ''DONE'' line then finish_why None p
      else (p, []))"

text \<open>\<open>wndproc\<close>, of the messages that reach it.\<close>

definition prompt_wndproc :: "prompt_msg \<Rightarrow> consent_prompt \<Rightarrow> consent_prompt \<times> prompt_out list" where
  "prompt_wndproc m p =
     (case m of
        Command i \<Rightarrow> if i = ID_YES then submit_yes p else if i = ID_NO then finish_why (Some ''DENY'') p else (p, [])
      | Broker_line line \<Rightarrow> handle_broker_line line p
      | Broker_eof \<Rightarrow> (p\<lparr>cp_done := True\<rparr>, [Posted_close])
      | Close \<Rightarrow> if \<not> cp_done p then finish_why (Some ''DENY'') p else (p\<lparr>cp_gone := True\<rparr>, [])
      | Typed c t \<Rightarrow>
          (if cp_readonly p then p
           else if c = User_box then p\<lparr>cp_user := t\<rparr>
           else if c = Pass_box then p\<lparr>cp_pass := t\<rparr>
           else p, [])
      | _ \<Rightarrow> (p, []))"

text \<open>The keys, before Windows has them.  \<open>next_tab\<close> is \<open>GetNextDlgTabItem\<close>.\<close>

definition answer_key :: "bool \<Rightarrow> nat \<Rightarrow> bool" where
  "answer_key sys k \<longleftrightarrow> k = VK_ESCAPE \<or> k = VK_RETURN \<or> (k = VK_Y \<or> k = VK_N) \<and> sys"

definition moves_focus :: "nat \<Rightarrow> consent_prompt \<Rightarrow> bool" where
  "moves_focus k p \<longleftrightarrow>
     k = VK_TAB \<or> (k = VK_LEFT \<or> k = VK_RIGHT) \<and> (cp_focus p = Yes_button \<or> cp_focus p = No_button)"

definition key_released :: "nat \<Rightarrow> consent_prompt \<Rightarrow> consent_prompt \<times> prompt_out list" where
  "key_released k p =
     (if k = VK_ESCAPE \<or> k = VK_N then finish_why (Some ''DENY'') p
      else if k = VK_Y then submit_yes p
      else if k = VK_RETURN then
        (if cp_focus p = No_button then finish_why (Some ''DENY'') p
         else if cp_focus p = Yes_button \<or> cp_cred p then submit_yes p
         else (p, []))
      else (p, []))"

definition prompt_step :: "(consent_prompt \<Rightarrow> bool \<Rightarrow> prompt_ctl option) \<Rightarrow> prompt_msg \<Rightarrow> consent_prompt
    \<Rightarrow> consent_prompt \<times> prompt_out list" where
  "prompt_step next_tab m p =
     (if cp_gone p then (p, [])
      else case m of
        Key_down sys k repeats shift tick \<Rightarrow>
          if \<not> cp_done p \<and> answer_key sys k
          then (if \<not> repeats \<and> tick - cp_shown p > 250 then p\<lparr>cp_armed := k\<rparr> else p, [])
          else if \<not> cp_done p \<and> moves_focus k p
          then (case next_tab p (k = VK_LEFT \<or> k = VK_TAB \<and> shift) of Some c \<Rightarrow> p\<lparr>cp_focus := c\<rparr> | None \<Rightarrow> p, [])
          else (p, [])
      | Key_up k \<Rightarrow> if \<not> cp_done p \<and> k = cp_armed p then key_released k (p\<lparr>cp_armed := 0\<rparr>) else (p, [])
      | _ \<Rightarrow> prompt_wndproc m p)"

fun prompt_run :: "(consent_prompt \<Rightarrow> bool \<Rightarrow> prompt_ctl option) \<Rightarrow> prompt_msg list \<Rightarrow> consent_prompt
    \<Rightarrow> consent_prompt \<times> prompt_out list" where
  "prompt_run next_tab [] p = (p, [])"
| "prompt_run next_tab (m # ms) p =
     (let (p1, out1) = prompt_step next_tab m p; (p2, out2) = prompt_run next_tab ms p1 in (p2, out1 @ out2))"

definition prompt_start :: "bool \<Rightarrow> u32 \<Rightarrow> consent_prompt" where
  "prompt_start cred shown =
     \<lparr>cp_cred = cred, cp_done = False, cp_waiting = False, cp_armed = 0, cp_shown = shown,
      cp_focus = (if cred then User_box else No_button), cp_user = [], cp_pass = [], cp_readonly = False, cp_status = [], cp_gone = False\<rparr>"


text \<open>The start of \<open>WinMain\<close>: lines written before it ends at once, or a prompt to show.\<close>

definition prompt_main :: "file_os \<Rightarrow> describing \<Rightarrow> string \<Rightarrow> prompt_out list + prompt_ask" where
  "prompt_main os how cmd =
     (if starts ''/describe '' cmd
      then (let d = prompt_describes os how (unquote (snprintf_s 1024 (drop 10 cmd)))
            in Inl [prompt_line (''name '' @ ds_name d), prompt_line (''publisher '' @ ds_publisher d)])
      else case parse_cmdline cmd of None \<Rightarrow> Inl [prompt_line ''DENY''] | Some a \<Rightarrow> Inr a)"

text \<open>The lines of the broker's: \<open>read_line\<close> and the thread that reads them.\<close>

fun ui_chars :: "nat \<Rightarrow> bytes \<Rightarrow> string \<Rightarrow> (string \<times> bytes) option" where
  "ui_chars sz inp buf =
     (if length buf + 1 < sz then
        (case inp of
           [] \<Rightarrow> None
         | c # rest \<Rightarrow> if c = LF then Some (buf, rest) else ui_chars sz rest (if c \<noteq> CR then buf @ [c] else buf))
      else Some (buf, inp))"

declare ui_chars.simps [simp del]

definition ui_read_line :: "bytes \<Rightarrow> (string \<times> bytes) option" where
  "ui_read_line inp = map_option (\<lambda>(buf, rest). (cstr buf, rest)) (ui_chars 1024 inp [])"

lemma ui_chars_shrinks: "ui_chars sz inp buf = Some (l, rest) \<Longrightarrow> length rest \<le> length inp \<and> (length buf + 1 < sz \<longrightarrow> length rest < length inp)"
proof (induction inp arbitrary: buf)
  case Nil
  then show ?case by (subst (asm) ui_chars.simps) (simp split: if_splits)
next
  case (Cons c inp)
  from Cons.prems show ?case using Cons.IH[of buf] Cons.IH[of "buf @ [c]"]
    by (subst (asm) ui_chars.simps) (auto split: if_splits)
qed

function ui_lines :: "bytes \<Rightarrow> string list" where
  "ui_lines inp = (case ui_read_line inp of None \<Rightarrow> [] | Some (l, rest) \<Rightarrow> l # ui_lines rest)"
  by pat_completeness auto
termination
  by (relation "measure length") (auto simp: ui_read_line_def dest!: ui_chars_shrinks)

declare ui_lines.simps [simp del]

section \<open>Yes is meant\<close>

text \<open>The lines written, without their newlines.\<close>

definition wrote :: "prompt_out list \<Rightarrow> bytes list" where
  "wrote out = concat (map (\<lambda>e. case e of Wrote b \<Rightarrow> [butlast b] | Posted_close \<Rightarrow> []) out)"

lemma wrote_simps [simp]:
  "wrote [] = []" "wrote (a @ b) = wrote a @ wrote b" "wrote (Posted_close # a) = wrote a"
  "wrote (prompt_line s # a) = take 1022 s # wrote a"
  by (simp_all add: wrote_def prompt_line_def)

definition answers_yes :: "bytes \<Rightarrow> bool" where
  "answers_yes l \<longleftrightarrow> l = ''ALLOW'' \<or> starts ''CRED '' l"

text \<open>
  A key is pressed for the prompt: it goes down, not repeating, more than a quarter of a
  second after the prompt was shown, and has not gone up since.
\<close>

definition pressed :: "u32 \<Rightarrow> prompt_msg list \<Rightarrow> nat \<Rightarrow> bool" where
  "pressed shown pre k \<longleftrightarrow>
     (\<exists>pre1 sys shift tick pre2. pre = pre1 @ Key_down sys k False shift tick # pre2 \<and>
        answer_key sys k \<and> tick - shown > 250 \<and> Key_up k \<notin> set pre2)"

definition deliberate :: "u32 \<Rightarrow> prompt_msg list \<Rightarrow> prompt_msg \<Rightarrow> bool" where
  "deliberate shown pre m \<longleftrightarrow>
     m = Command ID_YES \<or> (\<exists>k. m = Key_up k \<and> (k = VK_RETURN \<or> k = VK_Y) \<and> pressed shown pre k)"

lemma pressed_snoc: "pressed shown pre k \<Longrightarrow> m \<noteq> Key_up k \<Longrightarrow> pressed shown (pre @ [m]) k"
proof -
  assume "pressed shown pre k" and m: "m \<noteq> Key_up k"
  then obtain pre1 sys shift tick pre2 where h: "pre = pre1 @ Key_down sys k False shift tick # pre2" "answer_key sys k" "tick - shown > 250"
    "Key_up k \<notin> set pre2" unfolding pressed_def by blast
  then have "pre @ [m] = pre1 @ Key_down sys k False shift tick # (pre2 @ [m])" "Key_up k \<notin> set (pre2 @ [m])" using m by auto
  then show "pressed shown (pre @ [m]) k" unfolding pressed_def using h(2,3) by blast
qed

lemma pressed_now: "answer_key sys k \<Longrightarrow> tick - shown > 250 \<Longrightarrow> pressed shown (pre @ [Key_down sys k False shift tick]) k"
  unfolding pressed_def by (intro exI[of _ pre] exI[of _ sys] exI[of _ shift] exI[of _ tick] exI[of _ "[]"]) simp

text \<open>What a step writes: nothing, a refusal, a yes, or a name and a password.\<close>

definition trigger :: "prompt_msg \<Rightarrow> consent_prompt \<Rightarrow> bool" where
  "trigger m p \<longleftrightarrow> m = Command ID_YES \<or> (\<exists>k. m = Key_up k \<and> k = cp_armed p \<and> (k = VK_RETURN \<or> k = VK_Y))"

definition typed_cred :: "consent_prompt \<Rightarrow> bytes \<Rightarrow> bool" where
  "typed_cred p l \<longleftrightarrow> l = ''CRED '' @ take 255 (cp_user p) @ TAB # take 255 (cp_pass p) \<and>
     take 255 (cp_user p) \<noteq> [] \<and> TAB \<notin> set (take 255 (cp_user p))"

definition says :: "consent_prompt \<Rightarrow> consent_prompt \<Rightarrow> bytes list \<Rightarrow> bool \<Rightarrow> bool" where
  "says p p' ls t \<longleftrightarrow>
     ls = [] \<or>
     ls = [''DENY''] \<and> \<not> cp_done p \<and> cp_done p' \<or>
     ls = [''ALLOW''] \<and> \<not> cp_done p \<and> cp_done p' \<and> \<not> cp_cred p \<and> t \<or>
     (\<exists>l. ls = [l] \<and> typed_cred p l) \<and> \<not> cp_done p \<and> cp_cred p \<and> \<not> cp_waiting p \<and> cp_waiting p' \<and> t"

lemma finish_why_says:
  "finish_why v p = (p', out) \<Longrightarrow> v = None \<or> v = Some ''DENY'' \<Longrightarrow> says p p' (wrote out) t"
  by (auto simp: finish_why_def says_def split: if_splits)

lemma submit_yes_says:
  assumes "submit_yes p = (p', out)"
  shows "says p p' (wrote out) True"
proof -
  consider "cp_done p \<or> cp_waiting p" | "\<not> cp_done p" "\<not> cp_waiting p" "\<not> cp_cred p" | "\<not> cp_done p" "\<not> cp_waiting p" "cp_cred p" by blast
  then show ?thesis
  proof cases
    case 1
    then show ?thesis using assms by (auto simp: submit_yes_def says_def)
  next
    case 2
    then show ?thesis using assms by (auto simp: submit_yes_def finish_why_def says_def)
  next
    case 3
    let ?u = "take 255 (cp_user p)" and ?w = "take 255 (cp_pass p)"
    show ?thesis
    proof (cases "?u = [] \<or> TAB \<in> set ?u \<or> TAB \<in> set ?w \<or> LF \<in> set ?w")
      case True
      then have "out = [] \<and> cp_waiting p' = cp_waiting p" using assms 3 by (auto simp: submit_yes_def Let_def split: if_splits)
      then show ?thesis by (simp add: says_def)
    next
      case False
      then have out: "out = [prompt_line (''CRED '' @ ?u @ [TAB] @ ?w)]" and w: "cp_waiting p'" using assms 3 by (auto simp add: submit_yes_def Let_def split: if_splits)
      have "take 1022 (''CRED '' @ ?u @ [TAB] @ ?w) = ''CRED '' @ ?u @ TAB # ?w" by simp
      then show ?thesis unfolding says_def out wrote_simps typed_cred_def using 3 False w by blast
    qed
  qed
qed

lemma says_armed: "says (p\<lparr>cp_armed := k\<rparr>) p' ls t = says p p' ls t"
  by (simp add: says_def typed_cred_def)

lemma says_weaken: "says p p' ls t \<Longrightarrow> (t \<Longrightarrow> t') \<Longrightarrow> says p p' ls t'"
  by (auto simp: says_def)


lemma key_released_says:
  assumes "key_released k (p\<lparr>cp_armed := 0\<rparr>) = (p', out)"
  shows "says p p' (wrote out) (k = VK_RETURN \<or> k = VK_Y)"
proof -
  let ?p = "p\<lparr>cp_armed := 0\<rparr>"
  have quiet: "says p ?p (wrote []) t" for t by (simp add: says_def)
  consider "finish_why (Some ''DENY'') ?p = (p', out)" | "k = VK_RETURN \<or> k = VK_Y" "submit_yes ?p = (p', out)" | "(?p, []) = (p', out)"
    using assms unfolding key_released_def by (simp split: if_splits)
  then show ?thesis
  proof cases
    case 1
    show ?thesis using finish_why_says[OF 1] unfolding says_armed by simp
  next
    case 2
    show ?thesis using submit_yes_says[OF 2(2)] unfolding says_armed by (rule says_weaken) (rule 2(1))
  next
    case 3
    then show ?thesis using quiet by auto
  qed
qed

lemma wndproc_says:
  assumes "prompt_wndproc m p = (p', out)"
  shows "says p p' (wrote out) (trigger m p)"
proof (cases m)
  case (Command i)
  then consider "i = ID_YES" "submit_yes p = (p', out)" | "finish_why (Some ''DENY'') p = (p', out)" | "(p, []) = (p', out)"
    using assms unfolding prompt_wndproc_def by (simp split: if_splits)
  then show ?thesis
  proof cases
    case 1
    show ?thesis using submit_yes_says[OF 1(2)] by (rule says_weaken) (simp add: trigger_def Command 1(1))
  next
    case 2
    show ?thesis by (rule finish_why_says[OF 2]) simp
  next
    case 3
    then show ?thesis by (auto simp: says_def)
  qed
next
  case (Broker_line line)
  then consider "finish_why None p = (p', out)" | "out = []" "cp_waiting p' \<longrightarrow> cp_waiting p"
    using assms unfolding prompt_wndproc_def handle_broker_line_def by (auto split: if_splits)
  then show ?thesis
  proof cases
    case 1
    show ?thesis by (rule finish_why_says[OF 1]) simp
  next
    case 2
    then show ?thesis by (simp add: says_def)
  qed
next
  case Close
  then consider "finish_why (Some ''DENY'') p = (p', out)" | "out = []" "cp_waiting p' = cp_waiting p"
    using assms unfolding prompt_wndproc_def by (auto split: if_splits)
  then show ?thesis
  proof cases
    case 1
    show ?thesis by (rule finish_why_says[OF 1]) simp
  next
    case 2
    then show ?thesis by (simp add: says_def)
  qed
qed (use assms in \<open>auto simp: prompt_wndproc_def says_def split: if_splits\<close>)

lemma prompt_step_says:
  assumes "prompt_step next_tab m p = (p', out)"
  shows "says p p' (wrote out) (trigger m p)"
proof (cases "cp_gone p")
  case True
  then show ?thesis using assms by (auto simp: prompt_step_def says_def)
next
  case False
  show ?thesis
  proof (cases m)
    case (Key_down sys k rep shift tick)
    then show ?thesis using assms False by (auto simp: prompt_step_def says_def split: if_splits option.splits)
  next
    case (Key_up k)
    then consider "k = cp_armed p" "key_released k (p\<lparr>cp_armed := 0\<rparr>) = (p', out)" | "(p, []) = (p', out)"
      using assms False unfolding prompt_step_def by (simp split: if_splits)
    then show ?thesis
    proof cases
      case 1
      show ?thesis using key_released_says[OF 1(2)] by (rule says_weaken) (simp add: trigger_def Key_up 1(1))
    next
      case 2
      then show ?thesis by (auto simp: says_def)
    qed
  qed (use assms False wndproc_says in \<open>simp_all add: prompt_step_def\<close>)
qed


definition refusal :: "prompt_msg \<Rightarrow> bool" where
  "refusal m \<longleftrightarrow> (\<exists>l. m = Broker_line l \<and> starts ''FAILURE '' l)"

definition keeps :: "prompt_msg \<Rightarrow> consent_prompt \<Rightarrow> consent_prompt \<Rightarrow> bool" where
  "keeps m p p' \<longleftrightarrow> cp_cred p' = cp_cred p \<and> cp_shown p' = cp_shown p \<and> (cp_done p \<longrightarrow> cp_done p') \<and>
     (cp_gone p' \<longrightarrow> cp_gone p \<or> cp_done p') \<and> (cp_waiting p \<longrightarrow> \<not> cp_waiting p' \<longrightarrow> refusal m)"

lemma finish_why_keeps: "finish_why v p = (p', out) \<Longrightarrow> keeps m p p' \<and> cp_done p' \<and> cp_armed p' = cp_armed p"
  by (auto simp: finish_why_def keeps_def split: if_splits)

lemma submit_yes_keeps: "submit_yes p = (p', out) \<Longrightarrow> keeps m p p' \<and> cp_armed p' = cp_armed p"
  by (auto simp: submit_yes_def finish_why_def keeps_def Let_def split: if_splits)

lemma key_released_keeps: "key_released k p = (p', out) \<Longrightarrow> keeps m p p' \<and> cp_armed p' = cp_armed p"
  using finish_why_keeps submit_yes_keeps by (auto simp: key_released_def keeps_def split: if_splits)

lemma wndproc_keeps:
  assumes "prompt_wndproc m p = (p', out)"
  shows "keeps m p p' \<and> cp_armed p' = cp_armed p"
proof (cases m)
  case (Command i)
  then consider "submit_yes p = (p', out)" | "finish_why (Some ''DENY'') p = (p', out)" | "p' = p"
    using assms unfolding prompt_wndproc_def by (auto split: if_splits)
  then show ?thesis by cases (use submit_yes_keeps finish_why_keeps in \<open>auto simp: keeps_def\<close>)
next
  case (Broker_line line)
  then consider "finish_why None p = (p', out)" | "starts ''FAILURE '' line" "cp_waiting p' = False" "cp_cred p' = cp_cred p" "cp_shown p' = cp_shown p"
      "cp_done p' = cp_done p" "cp_gone p' = cp_gone p" "cp_armed p' = cp_armed p" | "p' = p"
    using assms unfolding prompt_wndproc_def handle_broker_line_def by (auto split: if_splits)
  then show ?thesis
  proof cases
    case 1
    show ?thesis using finish_why_keeps[OF 1, of m] by simp
  qed (use Broker_line in \<open>auto simp: keeps_def refusal_def\<close>)
next
  case Close
  then consider "finish_why (Some ''DENY'') p = (p', out)" | "cp_done p" "p' = p\<lparr>cp_gone := True\<rparr>"
    using assms unfolding prompt_wndproc_def by (auto split: if_splits)
  then show ?thesis by cases (use finish_why_keeps in \<open>auto simp: keeps_def\<close>)
qed (use assms in \<open>auto simp: prompt_wndproc_def keeps_def split: if_splits\<close>)

lemma prompt_step_keeps:
  assumes "prompt_step next_tab m p = (p', out)"
  shows "keeps m p p'"
proof (cases m)
  case (Key_down sys k rep shift tick)
  then show ?thesis using assms by (auto simp: prompt_step_def keeps_def split: if_splits option.splits)
next
  case (Key_up k)
  then consider "key_released k (p\<lparr>cp_armed := 0\<rparr>) = (p', out)" | "p' = p"
    using assms unfolding prompt_step_def by (auto split: if_splits)
  then show ?thesis
  proof cases
    case 1
    show ?thesis using key_released_keeps[OF 1, of m] by (simp add: keeps_def)
  qed (simp add: keeps_def)
qed (use assms wndproc_keeps in \<open>auto simp: prompt_step_def keeps_def split: if_splits\<close>)

lemma prompt_step_armed:
  assumes step: "prompt_step next_tab m p = (p', out)" and "\<not> cp_gone p" and "\<not> cp_done p'"
  shows "cp_armed p' = 0 \<or> cp_armed p' = cp_armed p \<and> m \<noteq> Key_up (cp_armed p) \<or>
    (\<exists>sys shift tick. m = Key_down sys (cp_armed p') False shift tick \<and> answer_key sys (cp_armed p') \<and> tick - cp_shown p > 250)"
proof -
  have live: "\<not> cp_done p" using prompt_step_keeps[OF step] assms(3) by (auto simp: keeps_def)
  show ?thesis
  proof (cases m)
    case (Key_down sys k rep shift tick)
    then show ?thesis using step assms(2) live by (auto simp: prompt_step_def split: if_splits option.splits)
  next
    case (Key_up k)
    then consider "key_released k (p\<lparr>cp_armed := 0\<rparr>) = (p', out)" | "k \<noteq> cp_armed p" "p' = p"
      using step assms(2) live unfolding prompt_step_def by (auto split: if_splits)
    then show ?thesis
    proof cases
      case 1
      then show ?thesis using key_released_keeps by fastforce
    next
      case 2
      then show ?thesis using Key_up by simp
    qed
  qed (use step assms(2) wndproc_keeps in \<open>auto simp: prompt_step_def\<close>)
qed


lemma prompt_run_snoc:
  "prompt_run next_tab (ms @ [m]) p =
     (let (p1, out1) = prompt_run next_tab ms p; (p2, out2) = prompt_step next_tab m p1 in (p2, out1 @ out2))"
  by (induction ms arbitrary: p) (simp_all add: case_prod_beta)

lemma prompt_run_inv:
  "prompt_run next_tab ms (prompt_start cred shown) = (p, out) \<Longrightarrow>
     cp_cred p = cred \<and> cp_shown p = shown \<and> (cp_gone p \<longrightarrow> cp_done p) \<and>
     (\<not> cp_done p \<longrightarrow> cp_armed p \<noteq> 0 \<longrightarrow> pressed shown ms (cp_armed p))"
proof (induction ms arbitrary: p out rule: rev_induct)
  case Nil
  then show ?case by (auto simp: prompt_start_def)
next
  case (snoc m ms)
  obtain p1 out1 where run: "prompt_run next_tab ms (prompt_start cred shown) = (p1, out1)" by fastforce
  obtain out2 where step: "prompt_step next_tab m p1 = (p, out2)" using snoc.prems run by (auto simp: prompt_run_snoc split: prod.splits)
  note ih = snoc.IH[OF run] and k = prompt_step_keeps[OF step, unfolded keeps_def]
  have "pressed shown (ms @ [m]) (cp_armed p)" if live: "\<not> cp_done p" "cp_armed p \<noteq> 0"
  proof -
    have p1: "\<not> cp_done p1" "\<not> cp_gone p1" using k live ih by blast+
    from prompt_step_armed[OF step p1(2) live(1)] live(2)
    consider "cp_armed p = cp_armed p1" "m \<noteq> Key_up (cp_armed p1)"
      | sys shift tick where "m = Key_down sys (cp_armed p) False shift tick" "answer_key sys (cp_armed p)" "tick - cp_shown p1 > 250" by blast
    then show ?thesis
    proof cases
      case 1
      then show ?thesis using pressed_snoc ih p1(1) live(2) by simp
    next
      case 2
      then show ?thesis using pressed_now[OF 2(2), of tick shown ms shift] ih by simp
    qed
  qed
  then show ?case using k ih by blast
qed

text \<open>Every yes has its message, and is what the boxes held at that moment.\<close>

lemma prompt_run_yes:
  "prompt_run next_tab ms (prompt_start cred shown) = (p, out) \<Longrightarrow> l \<in> set (wrote out) \<Longrightarrow> l = ''DENY'' \<or>
     (\<exists>pre m post p0 out0. ms = pre @ m # post \<and> prompt_run next_tab pre (prompt_start cred shown) = (p0, out0) \<and>
        deliberate shown pre m \<and> (if cred then typed_cred p0 l else l = ''ALLOW''))"
proof (induction ms arbitrary: p out rule: rev_induct)
  case Nil
  then show ?case by auto
next
  case (snoc m ms)
  obtain p1 out1 where run: "prompt_run next_tab ms (prompt_start cred shown) = (p1, out1)" by fastforce
  obtain out2 where step: "prompt_step next_tab m p1 = (p, out2)" and out: "out = out1 @ out2"
    using snoc.prems(1) run by (auto simp: prompt_run_snoc split: prod.splits)
  note inv = prompt_run_inv[OF run]
  show ?case
  proof (cases "l \<in> set (wrote out1)")
    case True
    from snoc.IH[OF run this] show ?thesis by (metis append_Cons append_assoc)
  next
    case False
    then have l: "l \<in> set (wrote out2)" using snoc.prems(2) out by simp
    have "trigger m p1 \<Longrightarrow> \<not> cp_done p1 \<Longrightarrow> deliberate shown ms m"
      using inv by (auto simp: trigger_def deliberate_def key_defs)
    then have "l = ''DENY'' \<or> deliberate shown ms m \<and> (if cred then typed_cred p1 l else l = ''ALLOW'')"
      using prompt_step_says[OF step] l inv unfolding says_def by auto
    then show ?thesis using run by blast
  qed
qed


text \<open>Credentials first, one for each refusal and one more at most, then one verdict at most.\<close>

definition conversation_ok :: "nat \<Rightarrow> consent_prompt \<Rightarrow> bytes list \<Rightarrow> bool" where
  "conversation_ok refusals p ls \<longleftrightarrow>
     (\<exists>creds verdict. ls = creds @ verdict \<and> list_all (starts ''CRED '') creds \<and>
        length creds \<le> refusals + (if cp_waiting p then 1 else 0) \<and>
        (verdict = [] \<or> cp_done p \<and> (verdict = [''DENY''] \<or> verdict = [''ALLOW''] \<and> \<not> cp_cred p)))"

lemma conversation_ok_step:
  assumes ok: "conversation_ok n p ls" and says: "says p p' ls' t" and keeps: "keeps m p p'"
  shows "conversation_ok (n + (if refusal m then 1 else 0)) p' (ls @ ls')"
proof -
  obtain creds verdict where h: "ls = creds @ verdict" "list_all (starts ''CRED '') creds"
    "length creds \<le> n + (if cp_waiting p then 1 else 0)"
    "verdict = [] \<or> cp_done p \<and> (verdict = [''DENY''] \<or> verdict = [''ALLOW''] \<and> \<not> cp_cred p)"
    using ok unfolding conversation_ok_def by blast
  have k: "cp_cred p' = cp_cred p" "cp_done p \<longrightarrow> cp_done p'" "cp_waiting p \<longrightarrow> \<not> cp_waiting p' \<longrightarrow> refusal m"
    using keeps by (simp_all add: keeps_def)
  have n: "length creds \<le> n + (if refusal m then 1 else 0) + (if cp_waiting p' then 1 else 0)" using h(3) k(3) by (auto split: if_splits)
  consider "ls' = []" | v where "ls' = [v]" "\<not> cp_done p" "cp_done p'" "v = ''DENY'' \<or> v = ''ALLOW'' \<and> \<not> cp_cred p"
    | l where "ls' = [l]" "typed_cred p l" "\<not> cp_done p" "\<not> cp_waiting p" "cp_waiting p'" using says unfolding says_def by blast
  then show ?thesis
  proof cases
    case 1
    then have "ls @ ls' = creds @ verdict" using h(1) by simp
    moreover have "verdict = [] \<or> cp_done p' \<and> (verdict = [''DENY''] \<or> verdict = [''ALLOW''] \<and> \<not> cp_cred p')" using h(4) k by blast
    ultimately show ?thesis unfolding conversation_ok_def using h(2) n by blast
  next
    case 2
    then have "verdict = []" using h(4) by blast
    then have "ls @ ls' = creds @ [v]" using h(1) 2(1) by simp
    moreover have "[v] = [] \<or> cp_done p' \<and> ([v] = [''DENY''] \<or> [v] = [''ALLOW''] \<and> \<not> cp_cred p')" using 2(3,4) k(1) by simp
    ultimately show ?thesis unfolding conversation_ok_def using h(2) n by blast
  next
    case 3
    then have "verdict = []" using h(4) by blast
    then have "ls @ ls' = (creds @ [l]) @ []" using h(1) 3(1) by simp
    moreover have "list_all (starts ''CRED '') (creds @ [l])" using h(2) 3(2) by (simp add: typed_cred_def starts_def)
    moreover have "length (creds @ [l]) \<le> n + (if refusal m then 1 else 0) + (if cp_waiting p' then 1 else 0)" using h(3) 3(4,5) by simp
    ultimately show ?thesis unfolding conversation_ok_def by blast
  qed
qed

lemma prompt_run_conversation:
  "prompt_run next_tab ms (prompt_start cred shown) = (p, out) \<Longrightarrow> conversation_ok (length (filter refusal ms)) p (wrote out)"
proof (induction ms arbitrary: p out rule: rev_induct)
  case Nil
  then show ?case by (auto simp: conversation_ok_def)
next
  case (snoc m ms)
  obtain p1 out1 where run: "prompt_run next_tab ms (prompt_start cred shown) = (p1, out1)" by fastforce
  obtain out2 where step: "prompt_step next_tab m p1 = (p, out2)" and out: "out = out1 @ out2"
    using snoc.prems run by (auto simp: prompt_run_snoc split: prod.splits)
  show ?case using conversation_ok_step[OF snoc.IH[OF run] prompt_step_says[OF step] prompt_step_keeps[OF step]] out
    by (simp split: if_splits)
qed

section \<open>The prompt and the broker\<close>

text \<open>A line of the prompt's as the broker reads it, whatever the times: the line, or none when time is up.\<close>

definition plain_line :: "nat \<Rightarrow> bytes \<Rightarrow> bool" where
  "plain_line sz l \<longleftrightarrow> LF \<notin> set l \<and> CR \<notin> set l \<and> nul_free l \<and> length l < sz - 1"

lemma consent_chars_line:
  "map snd inp = l @ LF # bs \<Longrightarrow> LF \<notin> set l \<Longrightarrow> CR \<notin> set l \<Longrightarrow> length buf + length l < sz - 1 \<Longrightarrow>
     consent_chars sz deadline inp buf = None \<or>
     (\<exists>rest. consent_chars sz deadline inp buf = Some (buf @ l, rest) \<and> map snd rest = bs)"
proof (induction l arbitrary: inp buf)
  case Nil
  then obtain t rest where "inp = (t, LF) # rest" "map snd rest = bs" by (cases inp) auto
  then show ?case using Nil by (simp add: consent_chars_Cons)
next
  case (Cons c l)
  then obtain t rest where inp: "inp = (t, c) # rest" "map snd rest = l @ LF # bs" by (cases inp) auto
  show ?case using Cons.IH[OF inp(2), of "buf @ [c]"] Cons.prems inp by (auto simp: consent_chars_Cons)
qed

lemma consent_read_line_line:
  assumes "map snd inp = l @ LF # bs" and "plain_line sz l"
  shows "consent_read_line sz deadline inp = None \<or>
    (\<exists>rest. consent_read_line sz deadline inp = Some (l, rest) \<and> map snd rest = bs)"
  using consent_chars_line[OF assms(1), of "[]" sz deadline] assms(2) by (auto simp: consent_read_line_def plain_line_def cstr_whole)

text \<open>The other way, a line is read as it was written.\<close>

lemma ui_chars_line:
  "LF \<notin> set l \<Longrightarrow> CR \<notin> set l \<Longrightarrow> length buf + length l + 1 < sz \<Longrightarrow> ui_chars sz (l @ LF # rest) buf = Some (buf @ l, rest)"
proof (induction l arbitrary: buf)
  case Nil
  then show ?case by (subst ui_chars.simps) simp
next
  case (Cons c l)
  then show ?case by (subst ui_chars.simps) auto
qed

text \<open>The broker's conversation, over the prompt's lines.\<close>

definition line_bytes :: "bytes list \<Rightarrow> bytes" where
  "line_bytes ls = concat (map (\<lambda>l. l @ [LF]) ls)"

lemma ui_lines_line_bytes: "list_all (plain_line 1024) ls \<Longrightarrow> ui_lines (line_bytes ls) = ls"
proof (induction ls)
  case Nil
  have "ui_read_line [] = None" by (simp add: ui_read_line_def ui_chars.simps)
  then show ?case by (subst ui_lines.simps) (simp add: line_bytes_def)
next
  case (Cons l ls)
  have plain: "plain_line 1024 l" "list_all (plain_line 1024) ls" using Cons.prems by simp_all
  have "ui_read_line (line_bytes (l # ls)) = Some (l, line_bytes ls)"
    using plain(1) ui_chars_line[of l "[]" 1024 "line_bytes ls"] by (simp add: ui_read_line_def line_bytes_def plain_line_def cstr_whole)
  then show ?case using Cons.IH[OF plain(2)] by (subst ui_lines.simps) simp
qed

text \<open>The broker's refusal comes to the prompt as one line, and the boxes can be typed into again.\<close>

lemma refused_asked_again:
  "ui_lines FAILURE_MSG = [butlast FAILURE_MSG] \<and>
   (case handle_broker_line (butlast FAILURE_MSG) p of
      (p', out) \<Rightarrow> \<not> cp_waiting p' \<and> \<not> cp_readonly p' \<and> cp_status p' = ''The user name or password is incorrect.'' \<and> out = [])"
proof -
  have "plain_line 1024 (butlast FAILURE_MSG)" by (simp add: FAILURE_MSG_def plain_line_def)
  then show ?thesis using ui_lines_line_bytes[of "[butlast FAILURE_MSG]"]
    by (simp add: FAILURE_MSG_def line_bytes_def handle_broker_line_def starts_def)
qed

lemma consent_loop_lines:
  "map snd inp = line_bytes ls \<Longrightarrow> list_all (plain_line 1024) ls \<Longrightarrow>
   consent_loop cfg os admin requester wholen deadline k inp = (who, fx) \<Longrightarrow>
     (who \<noteq> None \<longrightarrow> (if admin then ''ALLOW'' \<in> set ls \<and> who = Some (snprintf_s wholen requester)
        else (\<exists>l\<in>set ls. starts ''CRED '' l \<and> fst (check_cred cfg os wholen (drop 5 l)) = who))) \<and>
     (\<forall>e\<in>set fx. e = TellUi FAILURE_MSG \<or> \<not> admin \<and> (\<exists>l\<in>set ls. starts ''CRED '' l \<and> e \<in> set (snd (check_cred cfg os wholen (drop 5 l)))))"
proof (induction ls arbitrary: inp k who fx)
  case Nil
  then have "inp = []" by (simp add: line_bytes_def)
  then have "consent_read_line 1024 deadline inp = None" by (simp add: consent_read_line_def consent_chars_Nil)
  then have "consent_loop cfg os admin requester wholen deadline k inp = (None, [])" by (subst consent_loop.simps) simp
  then show ?case using Nil.prems(3) by simp
next
  case (Cons l ls)
  have bytes: "map snd inp = l @ LF # line_bytes ls" using Cons.prems(1) by (simp add: line_bytes_def)
  have plain: "plain_line 1024 l" "list_all (plain_line 1024) ls" using Cons.prems(2) by simp_all
  from consent_read_line_line[OF bytes plain(1), of deadline] show ?case
  proof
    assume "consent_read_line 1024 deadline inp = None"
    then have "consent_loop cfg os admin requester wholen deadline k inp = (None, [])" by (subst consent_loop.simps) simp
    then show ?case using Cons.prems(3) by simp
  next
    assume "\<exists>rest. consent_read_line 1024 deadline inp = Some (l, rest) \<and> map snd rest = line_bytes ls"
    then obtain rest where rest: "consent_read_line 1024 deadline inp = Some (l, rest)" "map snd rest = line_bytes ls" by blast
    note loop = Cons.prems(3)[unfolded consent_loop.simps[of cfg os admin requester wholen deadline k inp] rest(1) option.case prod.case]
    obtain w1 fx1 where cred: "check_cred cfg os wholen (drop 5 l) = (w1, fx1)" by fastforce
    obtain w2 fx2 where more: "consent_loop cfg os admin requester wholen deadline (k + 1) rest = (w2, fx2)" by fastforce
    note ih = Cons.IH[OF rest(2) plain(2) more]
    consider "admin" "l = ''ALLOW''" | "\<not> admin" "starts ''CRED '' l" | "\<not> (admin \<and> l = ''ALLOW'')" "\<not> (\<not> admin \<and> starts ''CRED '' l)" by blast
    then show ?case
    proof cases
      case 1
      then show ?thesis using loop by auto
    next
      case 2
      show ?thesis
      proof (cases w1)
        case (Some a)
        then have "who = w1" "fx = fx1" using loop 2 cred by simp_all
        then show ?thesis using 2 cred by auto
      next
        case None
        show ?thesis
        proof (cases "k + 1 \<ge> 3")
          case True
          then have "who = None" "fx = fx1" using loop 2 cred None by simp_all
          then show ?thesis using 2 cred by auto
        next
          case False
          then have "who = w2" "fx = fx1 @ [TellUi FAILURE_MSG] @ fx2" using loop 2 cred None more by simp_all
          then show ?thesis using 2 cred ih by auto
        qed
      qed
    next
      case 3
      then have "who = None" "fx = []" using loop by auto
      then show ?thesis by simp
    qed
  qed
qed


text \<open>What the boxes hold is a single line: Windows' edit controls take no other.\<close>

definition single_line :: "string \<Rightarrow> bool" where
  "single_line s \<longleftrightarrow> LF \<notin> set s \<and> CR \<notin> set s \<and> nul_free s"

definition typed_ok :: "prompt_msg list \<Rightarrow> bool" where
  "typed_ok ms \<longleftrightarrow> (\<forall>c t. Typed c t \<in> set ms \<longrightarrow> single_line t)"

lemma prompt_step_boxes:
  assumes "prompt_step next_tab m p = (p', out)"
  shows "(cp_user p' = cp_user p \<or> (\<exists>c. m = Typed c (cp_user p'))) \<and>
    (cp_pass p' = cp_pass p \<or> cp_pass p' = [] \<or> (\<exists>c. m = Typed c (cp_pass p')))"
proof -
  have fin: "finish_why v q = (q', o') \<Longrightarrow> cp_user q' = cp_user q \<and> cp_pass q' = cp_pass q" for v q q' o'
    by (auto simp: finish_why_def split: if_splits)
  have sub: "submit_yes q = (q', o') \<Longrightarrow> cp_user q' = cp_user q \<and> (cp_pass q' = cp_pass q \<or> cp_pass q' = [])" for q q' o'
    using fin by (auto simp: submit_yes_def Let_def split: if_splits)
  have rel: "key_released k q = (q', o') \<Longrightarrow> cp_user q' = cp_user q \<and> (cp_pass q' = cp_pass q \<or> cp_pass q' = [])" for k q q' o'
    using fin sub by (auto simp: key_released_def split: if_splits)
  show ?thesis
  proof (cases m)
    case (Key_up k)
    then consider "key_released k (p\<lparr>cp_armed := 0\<rparr>) = (p', out)" | "p' = p"
      using assms unfolding prompt_step_def by (auto split: if_splits)
    then show ?thesis by cases (use rel in fastforce)+
  next
    case (Command i)
    then consider "submit_yes p = (p', out)" | "finish_why (Some ''DENY'') p = (p', out)" | "p' = p"
      using assms unfolding prompt_step_def prompt_wndproc_def by (auto split: if_splits)
    then show ?thesis by cases (use sub fin in blast)+
  next
    case (Broker_line l)
    then consider "finish_why None p = (p', out)" | "cp_user p' = cp_user p" "cp_pass p' = cp_pass p"
      using assms unfolding prompt_step_def prompt_wndproc_def handle_broker_line_def by (auto split: if_splits)
    then show ?thesis by cases (use fin in blast)+
  next
    case Close
    then consider "finish_why (Some ''DENY'') p = (p', out)" | "cp_user p' = cp_user p" "cp_pass p' = cp_pass p"
      using assms unfolding prompt_step_def prompt_wndproc_def by (auto split: if_splits)
    then show ?thesis by cases (use fin in blast)+
  qed (use assms in \<open>auto simp: prompt_step_def prompt_wndproc_def split: if_splits option.splits\<close>)
qed

lemma prompt_run_boxes:
  "prompt_run next_tab ms (prompt_start cred shown) = (p, out) \<Longrightarrow> typed_ok ms \<Longrightarrow> single_line (cp_user p) \<and> single_line (cp_pass p)"
proof (induction ms arbitrary: p out rule: rev_induct)
  case Nil
  then show ?case by (auto simp: prompt_start_def single_line_def)
next
  case (snoc m ms)
  obtain p1 out1 where run: "prompt_run next_tab ms (prompt_start cred shown) = (p1, out1)" by fastforce
  obtain out2 where step: "prompt_step next_tab m p1 = (p, out2)" using snoc.prems(1) run by (auto simp: prompt_run_snoc split: prod.splits)
  have "typed_ok ms" "\<And>c t. m = Typed c t \<Longrightarrow> single_line t" using snoc.prems(2) by (auto simp: typed_ok_def)
  then show ?case using snoc.IH[OF run] prompt_step_boxes[OF step] by (metis empty_iff empty_set nul_free_Nil single_line_def)
qed

lemma single_line_take: "single_line s \<Longrightarrow> single_line (take n s)"
  by (auto simp: single_line_def dest: in_set_takeD)

lemma typed_cred_plain:
  assumes "typed_cred p l" and "single_line (cp_user p)" and "single_line (cp_pass p)"
  shows "plain_line 1024 l"
proof -
  note u = single_line_take[OF assms(2), of 255] and w = single_line_take[OF assms(3), of 255]
  have "length l \<le> 5 + (255 + (1 + 255))" using assms(1) by (simp add: typed_cred_def)
  then show ?thesis using assms(1) u w by (simp add: typed_cred_def plain_line_def single_line_def)
qed

lemma typed_cred_checked:
  assumes "typed_cred p l"
  shows "starts ''CRED '' l \<and> set (snd (check_cred cfg os 256 (drop 5 l))) \<subseteq>
      {AskPam (take 255 (cp_user p)) (take 255 (cp_pass p)), bad_password os (take 255 (cp_user p))}"
proof -
  let ?u = "take 255 (cp_user p)" and ?w = "take 255 (cp_pass p)"
  have l: "l = ''CRED '' @ ?u @ TAB # ?w" and tab: "TAB \<notin> set ?u" using assms by (simp_all add: typed_cred_def)
  have arg: "drop 5 l = ?u @ TAB # ?w" by (simp add: l)
  have "before (?u @ TAB # ?w) {TAB} = ?u" using tab by (intro before_split) auto
  moreover have "strchr (?u @ TAB # ?w) TAB = Some (TAB # ?w)" using tab by (rule strchr_split)
  moreover have "length ?u < 256" by simp
  ultimately show ?thesis unfolding arg check_cred_def by (simp add: l starts_def Let_def)
qed


lemma prompt_lines_plain:
  assumes run: "prompt_run next_tab ms (prompt_start cred shown) = (p, out)" and typed: "typed_ok ms"
  shows "list_all (plain_line 1024) (wrote out)"
  unfolding list_all_iff
proof
  fix l assume "l \<in> set (wrote out)"
  from prompt_run_yes[OF run this] show "plain_line 1024 l"
  proof
    assume "l = ''DENY''"
    then show ?thesis by (simp add: plain_line_def)
  next
    assume "\<exists>pre m post p0 out0. ms = pre @ m # post \<and> prompt_run next_tab pre (prompt_start cred shown) = (p0, out0) \<and>
      deliberate shown pre m \<and> (if cred then typed_cred p0 l else l = ''ALLOW'')"
    then obtain pre m post p0 out0 where h: "ms = pre @ m # post" "prompt_run next_tab pre (prompt_start cred shown) = (p0, out0)"
      "if cred then typed_cred p0 l else l = ''ALLOW''" by blast
    have "typed_ok pre" using typed h(1) by (simp add: typed_ok_def)
    note boxes = prompt_run_boxes[OF h(2) this]
    show ?thesis using h(3) boxes typed_cred_plain by (cases cred) (auto simp: plain_line_def)
  qed
qed

text \<open>
  C36.  A consent is someone's deliberate yes, from the key to the broker: whatever messages
  Windows sends the prompt, in whatever order, and whenever its bytes reach the broker, the
  broker's conversation allows only if Yes was chosen -- the button, or Enter or Alt+Y going
  up whose press the prompt saw, not repeating and more than a quarter of a second after it
  appeared; PAM is asked only for the name and the password that were in the two boxes at
  such a moment; and nothing else is done, the password above all never written to the log.
\<close>

theorem consent_end_to_end:
  assumes run: "prompt_run next_tab ms (prompt_start cred shown) = (p, out)" and "typed_ok ms"
    and inp: "map snd inp = line_bytes (wrote out)"
    and loop: "consent_loop cfg os (\<not> cred) requester 256 deadline 0 inp = (who, fx)"
  shows "(who \<noteq> None \<longrightarrow> (\<exists>pre m post. ms = pre @ m # post \<and> deliberate shown pre m)) \<and>
    (\<forall>e\<in>set fx. e = TellUi FAILURE_MSG \<or>
       (\<exists>pre m post p0 out0. ms = pre @ m # post \<and> deliberate shown pre m \<and>
          prompt_run next_tab pre (prompt_start cred shown) = (p0, out0) \<and>
          (e = AskPam (take 255 (cp_user p0)) (take 255 (cp_pass p0)) \<or> e = bad_password os (take 255 (cp_user p0)))))"
proof -
  note lines = consent_loop_lines[OF inp prompt_lines_plain[OF run assms(2)] loop]
  have yes: "\<exists>pre m post p0 out0. ms = pre @ m # post \<and> deliberate shown pre m \<and>
      prompt_run next_tab pre (prompt_start cred shown) = (p0, out0) \<and> (cred \<longrightarrow> typed_cred p0 l)"
    if "l \<in> set (wrote out)" "l \<noteq> ''DENY''" for l
    using prompt_run_yes[OF run that(1)] that(2) by (cases cred) auto
  have deny: "\<not> starts ''CRED '' ''DENY''" by (simp add: starts_def)
  have "\<exists>pre m post. ms = pre @ m # post \<and> deliberate shown pre m" if granted: "who \<noteq> None"
  proof (cases cred)
    case True
    then obtain l where "l \<in> set (wrote out)" "starts ''CRED '' l" using lines granted by auto
    then show ?thesis using yes deny by blast
  next
    case False
    then have "''ALLOW'' \<in> set (wrote out)" using lines granted by auto
    then show ?thesis using yes[of "''ALLOW''"] by auto
  qed
  moreover have "e = TellUi FAILURE_MSG \<or> (\<exists>pre m post p0 out0. ms = pre @ m # post \<and> deliberate shown pre m \<and>
      prompt_run next_tab pre (prompt_start cred shown) = (p0, out0) \<and>
      (e = AskPam (take 255 (cp_user p0)) (take 255 (cp_pass p0)) \<or> e = bad_password os (take 255 (cp_user p0))))"
    if e: "e \<in> set fx" for e
  proof (cases "e = TellUi FAILURE_MSG")
    case False
    then obtain l where l: "cred" "l \<in> set (wrote out)" "starts ''CRED '' l" "e \<in> set (snd (check_cred cfg os 256 (drop 5 l)))"
      using lines e by blast
    then obtain pre m post p0 out0 where h: "ms = pre @ m # post" "deliberate shown pre m"
      "prompt_run next_tab pre (prompt_start cred shown) = (p0, out0)" "typed_cred p0 l" using yes deny by blast
    show ?thesis using typed_cred_checked[OF h(4), of cfg os] l(4) h(1-3) by blast
  qed simp
  ultimately show ?thesis by blast
qed


definition ex_alt_y :: "prompt_msg list" where
  "ex_alt_y = [Key_down True VK_Y False False 300, Key_up VK_Y]"

lemma ex_alt_y_run: "prompt_run (\<lambda>_ _. None) ex_alt_y (prompt_start False 0) =
    ((prompt_start False 0)\<lparr>cp_done := True\<rparr>, [prompt_line ''ALLOW'', Posted_close])"
  by (simp add: ex_alt_y_def prompt_start_def prompt_step_def answer_key_def key_released_def submit_yes_def finish_why_def key_defs)

theorem consent_end_to_end_witness:
  "fst (consent_loop default_cfg ex_seat_os True ''alice'' 256 1000 0 ex_yes) = Some ''alice'' \<and>
   (\<exists>pre m post. ex_alt_y = pre @ m # post \<and> deliberate 0 pre m)"
proof -
  have line: "consent_read_line 1024 1000 ex_yes = Some (''ALLOW'', [])" by (rule ex_yes_line) simp_all
  have loop: "consent_loop default_cfg ex_seat_os True ''alice'' 256 1000 0 ex_yes = (Some ''alice'', [])"
    by (subst consent_loop.simps) (simp add: line)
  have "map snd ex_yes = line_bytes (wrote [prompt_line ''ALLOW'', Posted_close])" by (simp add: ex_yes_def line_bytes_def)
  then show ?thesis
    using consent_end_to_end[OF ex_alt_y_run _ _ loop[folded not_False_eq_True]] loop by (auto simp: typed_ok_def ex_alt_y_def)
qed

section \<open>Whose publisher\<close>

text \<open>Wine quotes the program's text on the command line, and the prompt takes the quotes off.\<close>

lemma parse_cmdline_quoted:
  assumes "requester \<noteq> []" and "length requester < 128" and "SPC \<notin> set requester" and "length prog < 1022"
  shows "parse_cmdline (''/consent admin '' @ requester @ SPC # DQ # prog @ [DQ]) =
    Some \<lparr>pa_cred = False, pa_shadow = False, pa_requester = requester, pa_program = prog\<rparr>"
proof -
  let ?p = "requester @ SPC # DQ # prog @ [DQ]"
  have "before ?p {SPC} = requester" using assms(3) by (intro before_split) auto
  moreover have "ask_mode (drop 9 (''/consent admin '' @ ?p)) = Some (False, False, ?p)" by (simp add: ask_mode_def starts_def)
  moreover have "unquote (snprintf_s 1024 (DQ # prog @ [DQ])) = prog" using assms(4) by (simp add: unquote_def butlast_append)
  ultimately show ?thesis using assms(1,2) by (simp add: parse_cmdline_def starts_def)
qed

lemma describe_one_arg:
  assumes "map shown_char prog = prog" and "length prog \<le> 200"
  shows "describe_program 256 [''wine'', prog] = prog"
  using assms by (simp add: describe_program_def describe_arg_def)

lemma find_word_end:
  "SPC \<notin> set a \<Longrightarrow> P (acc @ a) \<Longrightarrow> find (\<lambda>(w, _). P w) (word_ends acc (a @ SPC # b)) = Some (acc @ a, SPC # b)"
  by (induction a arbitrary: acc) auto

text \<open>
  C37.  The prompt may name the publisher of a program that will not run: a request for one
  program whose name has a space in it reaches the prompt as the same text as a request for
  the program named up to the space, with an argument; if there is a signed program of that
  shorter name, its publisher is the one shown as verified, whoever made the program asked
  for.
\<close>

theorem other_publisher_shown:
  assumes "map shown_char (a @ SPC # b) = a @ SPC # b" and "length (a @ SPC # b) \<le> 200"
    and "SPC \<notin> set a" and "take 1 a \<noteq> []" and "take 1 a \<noteq> ''/''" and "take 1 a \<noteq> [DQ]"
    and "fs_wide os (a @ SPC # b) = Some (a @ SPC # b)" and "fs_is_file os a"
    and "\<not> same_text (base_name a) ''msiexec.exe''" and "\<not> same_text (base_name a) ''msiexec''"
    and "\<not> is_system_file os a" and "fs_publisher os a = Some who"
    and "requester \<noteq> []" and "length requester < 128" and "SPC \<notin> set requester"
  shows "\<exists>ask. parse_cmdline (''/consent admin '' @ requester @ SPC # DQ # describe_program 256 [''wine'', a @ SPC # b] @ [DQ]) = Some ask \<and>
    ds_publisher (prompt_describes os In_time (pa_program ask)) = verified who"
proof -
  let ?t = "a @ SPC # b"
  have desc: "describe_program 256 [''wine'', ?t] = ?t" by (rule describe_one_arg[OF assms(1,2)])
  have short: "take (MAX_PATH - 1) a = a" using assms(2) by (simp add: MAX_PATH_def)
  have "find (\<lambda>(w, _). fs_is_file os w) (word_ends [] ?t) = Some ([] @ a, SPC # b)" by (rule find_word_end) (use assms(3,8) in simp_all)
  then have "first_file os ?t = Some (a, b)" using assms(4,6) short by (cases a) (simp_all add: first_file_def after_space_def)
  then have "program_file os ?t = Some a" using assms(7-10) by (simp add: program_file_def)
  then have "ds_publisher (prompt_describes os In_time ?t) = verified who"
    using assms(4,5,11,12) by (cases a) (simp_all add: prompt_describes_def describe_thread_def Let_def)
  moreover have "parse_cmdline (''/consent admin '' @ requester @ SPC # DQ # ?t @ [DQ]) =
      Some \<lparr>pa_cred = False, pa_shadow = False, pa_requester = requester, pa_program = ?t\<rparr>"
    by (rule parse_cmdline_quoted[OF assms(13-15)]) (use assms(2) in simp)
  ultimately show ?thesis unfolding desc by simp
qed

definition ex_file_os :: file_os where
  "ex_file_os = \<lparr>fs_wide = Some, fs_is_file = (\<lambda>f. f \<in> {''C:/good.exe'', ''C:/good.exe bad.exe''}), fs_search = (\<lambda>_. None), fs_full = (\<lambda>_. None),
     fs_system = [], fs_publisher = (\<lambda>f. if f = ''C:/good.exe'' then Some ''Good'' else None), fs_description = (\<lambda>_. None), fs_file_name = base_name\<rparr>"

theorem other_publisher_shown_witness:
  "fs_publisher ex_file_os ''C:/good.exe bad.exe'' = None \<and>
   (\<exists>ask. parse_cmdline (''/consent admin '' @ ''alice'' @ SPC # DQ # describe_program 256 [''wine'', ''C:/good.exe'' @ SPC # ''bad.exe''] @ [DQ]) = Some ask \<and>
     ds_publisher (prompt_describes ex_file_os In_time (pa_program ask)) = ''Verified publisher: Good'')"
proof -
  have "map shown_char (''C:/good.exe'' @ SPC # ''bad.exe'') = ''C:/good.exe'' @ SPC # ''bad.exe''" by code_simp
  moreover have "\<not> same_text (base_name ''C:/good.exe'') ''msiexec.exe''" "\<not> same_text (base_name ''C:/good.exe'') ''msiexec''" by code_simp+
  ultimately have "\<exists>ask. parse_cmdline (''/consent admin '' @ ''alice'' @ SPC # DQ # describe_program 256 [''wine'', ''C:/good.exe'' @ SPC # ''bad.exe''] @ [DQ]) = Some ask \<and>
     ds_publisher (prompt_describes ex_file_os In_time (pa_program ask)) = verified ''Good''"
    by (intro other_publisher_shown) (simp_all add: ex_file_os_def is_system_file_def)
  moreover have "verified ''Good'' = ''Verified publisher: Good''" by code_simp
  ultimately show ?thesis by (simp add: ex_file_os_def)
qed

end
