(* ===== verification/Sg_Greeter.thy ===== *)
theory Sg_Greeter
  imports Sg_Prompt Sg_Greet Sg_Lock
begin

text \<open>
  The login, lock and security screens, \<open>greeter/sg-greeter.c\<close>: state machines over
  Windows' messages that write lines to the login bridge (\<open>Sg_Greet\<close>) or the lock service
  (\<open>Sg_Lock\<close>).  Pictures, fonts and painting are left out; what Windows puts into a text
  box is a message.  The last sections put the screens and the two services together.
\<close>

section \<open>The login and lock screen\<close>

datatype greeter_ctl = Name_box | Secret_box | Screen_window

record greeter =
  gt_lock :: "string option"
  gt_last :: string
  gt_last_mode :: bool
  gt_awaiting :: bool
  gt_done :: bool
  gt_curtain :: bool
  gt_user :: string
  gt_secret :: string
  gt_secret_shown :: bool
  gt_prompt :: string
  gt_title :: string
  gt_status :: string
  gt_submit_on :: bool
  gt_focus :: greeter_ctl
  gt_want :: greeter_ctl
  gt_held :: "u8 \<Rightarrow> bool"
  gt_pressed :: "u8 \<Rightarrow> bool"

text \<open>
  What leaves the screen: a line for the service, a line that would overrun \<open>send_line\<close>'s
  buffer, a key for Windows, the window closing and the machine shut down or restarted.
\<close>

datatype greeter_out = Sent string | Overrun | Key_on bool nat | Closing | Powering bool

text \<open>
  The messages: a key going down (with Alt, its virtual key, whether it was down before,
  whether Control is held and whether a control has the focus) or up, a button's command
  (with what was chosen in the power menu), a line of the service's or its end, a click or
  the wheel, and a text box taking a new text.
\<close>

datatype greeter_msg =
    Gkey_down bool nat bool bool bool
  | Gkey_up nat
  | Gcommand nat "bool option"
  | Gline string
  | Geof
  | Gclick
  | Gtyped greeter_ctl string

definition GID_SUBMIT :: nat where "GID_SUBMIT = 103"
definition GID_POWER :: nat where "GID_POWER = 106"
definition GID_OTHER :: nat where "GID_OTHER = 107"
definition VK_A :: nat where "VK_A = 65"

text \<open>Space, Shift, Control, Alt and the two Windows keys.\<close>

definition LIFT_ONLY :: "nat set" where
  "LIFT_ONLY = {VK_RETURN, VK_ESCAPE, 32, 16, 17, 18, 91, 92}"

definition WRONG :: string where "WRONG = ''The user name or password is incorrect. Try again.''"
definition WRONG_PASSWORD :: string where "WRONG_PASSWORD = ''The password is incorrect. Try again.''"
definition NO_NAME :: string where "NO_NAME = ''Enter a user name.''"
definition SIGNING_IN :: string where "SIGNING_IN = ''Signing in...''"
definition LIVE_HINT :: string where "LIVE_HINT = ''The live account has no password: select Sign in.''"
definition OS_TITLE :: string where "OS_TITLE = ''Stained Glass OS''"

text \<open>\<open>send_line\<close>: the newline goes where the text would end, whether it was cut or not.\<close>

definition greeter_line :: "string \<Rightarrow> greeter_out" where
  "greeter_line s = (if length s < 1022 then Sent s else Overrun)"

definition want_focus :: "greeter_ctl \<Rightarrow> greeter \<Rightarrow> greeter" where
  "want_focus c g = (if gt_curtain g then g\<lparr>gt_want := c\<rparr> else g\<lparr>gt_want := c, gt_focus := c\<rparr>)"

text \<open>Lifting the curtain shows the password box only when it was asked for.\<close>

definition lift_curtain :: "greeter \<Rightarrow> greeter" where
  "lift_curtain g =
     (if \<not> gt_curtain g then g
      else g\<lparr>gt_curtain := False, gt_secret_shown := gt_awaiting g \<or> gt_secret_shown g, gt_focus := gt_want g\<rparr>)"

definition submit :: "greeter \<Rightarrow> greeter \<times> greeter_out list" where
  "submit g =
     (if gt_done g \<or> \<not> gt_awaiting g \<and> (gt_lock g \<noteq> None \<or> gt_last_mode g) then (g, [])
      else if \<not> gt_awaiting g then
        (let buf = take 511 (gt_user g)
         in if buf = [] then (g\<lparr>gt_status := NO_NAME\<rparr>, [])
            else (g\<lparr>gt_status := SIGNING_IN, gt_submit_on := False\<rparr>, [greeter_line (''USER '' @ buf)]))
      else (g\<lparr>gt_status := SIGNING_IN, gt_submit_on := False, gt_secret := []\<rparr>, [greeter_line (''REPLY '' @ take 511 (gt_secret g))]))"

definition last_user_mode :: "bool \<Rightarrow> greeter \<Rightarrow> greeter \<times> greeter_out list" where
  "last_user_mode on g =
     (let g1 = g\<lparr>gt_last_mode := on, gt_awaiting := False, gt_secret := [], gt_prompt := [], gt_secret_shown := False,
                 gt_user := (if on then gt_last g else []), gt_title := (if on then gt_last g else OS_TITLE),
                 gt_status := [], gt_submit_on := True\<rparr>
      in (if on then g1 else want_focus Name_box g1,
          (if \<not> on \<and> gt_last_mode g then [greeter_line ''CANCEL''] else []) @ (if on then [greeter_line (''USER '' @ gt_last g)] else [])))"

text \<open>The lines of the service's.\<close>

definition prompt_words :: "bool \<Rightarrow> string \<Rightarrow> string" where
  "prompt_words hidden t =
     (let words = rev (dropWhile (\<lambda>c. c = SPC \<or> c = CHR '':'') (rev (take 127 t)))
      in if words \<noteq> [] then words else if hidden then ''Password'' else ''Answer'')"

definition asked :: "bool \<Rightarrow> string \<Rightarrow> greeter \<Rightarrow> greeter" where
  "asked hidden t g =
     want_focus Secret_box
       (g\<lparr>gt_awaiting := True, gt_prompt := prompt_words hidden t, gt_status := (if gt_lock g = Some ''live'' then LIVE_HINT else gt_status g),
          gt_secret_shown := gt_secret_shown g \<or> \<not> gt_curtain g, gt_submit_on := True\<rparr>)"

definition failed :: "string \<Rightarrow> greeter \<Rightarrow> greeter \<times> greeter_out list" where
  "failed why g =
     (let g1 = g\<lparr>gt_awaiting := False, gt_secret := [], gt_submit_on := True\<rparr>
      in if gt_last_mode g
         then (g1\<lparr>gt_status := (if why = WRONG then WRONG_PASSWORD else why)\<rparr>, [greeter_line (''USER '' @ gt_last g)])
         else if gt_lock g = None
         then ((want_focus Name_box (g1\<lparr>gt_prompt := [], gt_secret_shown := False\<rparr>))\<lparr>gt_status := why\<rparr>, [])
         else (g1\<lparr>gt_status := (if why = WRONG then WRONG_PASSWORD else why)\<rparr>, []))"

definition handle_bridge_line :: "string \<Rightarrow> greeter \<Rightarrow> greeter \<times> greeter_out list" where
  "handle_bridge_line line g =
     (if starts ''PROMPT_SECRET '' line then (asked True (drop 14 line) g, [])
      else if starts ''PROMPT_VISIBLE '' line then (asked False (drop 15 line) g, [])
      else if starts ''SUCCESS'' line then (g\<lparr>gt_done := True, gt_status := ''Welcome''\<rparr>, [Closing])
      else if starts ''FAILURE '' line then failed (drop 8 line) g
      else if starts ''ERROR '' line then (g\<lparr>gt_submit_on := True, gt_status := drop 6 line\<rparr>, [])
      else if starts ''LASTUSER '' line \<and> gt_lock g = None \<and> \<not> gt_done g
      then last_user_mode True (g\<lparr>gt_last := take 255 (drop 9 line)\<rparr>)
      else if starts ''INFO '' line then (g\<lparr>gt_status := drop 5 line\<rparr>, [])
      else (g, []))"

text \<open>The power menu: restart, shut down or nothing chosen.\<close>

definition power_menu :: "bool option \<Rightarrow> greeter \<Rightarrow> greeter \<times> greeter_out list" where
  "power_menu chosen g =
     (case chosen of
        None \<Rightarrow> (g, [])
      | Some restart \<Rightarrow> (g\<lparr>gt_status := (if restart then ''Restarting...'' else ''Shutting down...'')\<rparr>, [Powering restart]))"

definition greeter_wndproc :: "greeter_msg \<Rightarrow> greeter \<Rightarrow> greeter \<times> greeter_out list" where
  "greeter_wndproc m g =
     (case m of
        Gcommand i chosen \<Rightarrow>
          if i = GID_SUBMIT then submit g
          else if i = GID_POWER then power_menu chosen g
          else if i = GID_OTHER then last_user_mode False g
          else (g, [])
      | Gline line \<Rightarrow> handle_bridge_line line g
      | Geof \<Rightarrow> (g, [Closing])
      | Gclick \<Rightarrow> (lift_curtain g, [])
      | Gtyped c t \<Rightarrow> (if c = Name_box then g\<lparr>gt_user := t\<rparr> else if c = Secret_box then g\<lparr>gt_secret := t\<rparr> else g, [])
      | _ \<Rightarrow> (g, []))"

text \<open>The keys, before Windows has them: a key held since before the screen came up is not typing.\<close>

definition vk_byte :: "nat \<Rightarrow> u8" where "vk_byte k = word_of_nat k"

definition key_taken :: "bool \<Rightarrow> nat \<Rightarrow> bool \<Rightarrow> bool \<Rightarrow> greeter \<Rightarrow> greeter \<times> greeter_out list" where
  "key_taken sys k ctrl focused g =
     (let g1 = lift_curtain g
      in if gt_curtain g \<and> (k \<in> LIFT_ONLY \<or> \<not> focused) then (g1, [])
         else if \<not> sys \<and> k = VK_RETURN then submit g1
         else if \<not> sys \<and> k = VK_A \<and> ctrl \<and> gt_focus g1 \<noteq> Screen_window then (g1, [])
         else (g1, [Key_on sys k]))"

definition greeter_step :: "greeter_msg \<Rightarrow> greeter \<Rightarrow> greeter \<times> greeter_out list" where
  "greeter_step m g =
     (case m of
        Gkey_down sys k was_down ctrl focused \<Rightarrow>
          if gt_held g (vk_byte k) \<or> was_down \<and> \<not> gt_pressed g (vk_byte k) then (g\<lparr>gt_held := (gt_held g)(vk_byte k := True)\<rparr>, [])
          else key_taken sys k ctrl focused (g\<lparr>gt_pressed := (gt_pressed g)(vk_byte k := True)\<rparr>)
      | Gkey_up k \<Rightarrow> (g\<lparr>gt_pressed := (gt_pressed g)(vk_byte k := False), gt_held := (gt_held g)(vk_byte k := False)\<rparr>, [])
      | _ \<Rightarrow> greeter_wndproc m g)"

fun greeter_run :: "greeter_msg list \<Rightarrow> greeter \<Rightarrow> greeter \<times> greeter_out list" where
  "greeter_run [] g = (g, [])"
| "greeter_run (m # ms) g = (let (g1, out1) = greeter_step m g; (g2, out2) = greeter_run ms g1 in (g2, out1 @ out2))"

text \<open>The screen as it comes up, having said HELLO: the user of \<open>/lock\<close>, the curtain, the keys already down.\<close>

definition lock_arg :: "string \<Rightarrow> string option" where
  "lock_arg cmd = (if starts ''/lock '' cmd \<and> drop 6 cmd \<noteq> [] then Some (drop 6 cmd) else None)"

definition greeter_start :: "string \<Rightarrow> string option \<Rightarrow> (u8 \<Rightarrow> bool) \<Rightarrow> greeter" where
  "greeter_start cmd curtain down =
     \<lparr>gt_lock = lock_arg cmd, gt_last = [], gt_last_mode = False, gt_awaiting = False, gt_done = False,
      gt_curtain = (curtain \<noteq> Some ''0''), gt_user = (case lock_arg cmd of Some u \<Rightarrow> u | None \<Rightarrow> []), gt_secret = [], gt_secret_shown = False,
      gt_prompt = [], gt_title = (if lock_arg cmd \<noteq> None then ''Locked'' else OS_TITLE), gt_status = [], gt_submit_on = True,
      gt_focus = (if curtain \<noteq> Some ''0'' then Screen_window else Name_box), gt_want = Name_box,
      gt_held = (\<lambda>b. b \<noteq> 0 \<and> down b), gt_pressed = (\<lambda>_. False)\<rparr>"

section \<open>The security screen\<close>

text \<open>
  Ctrl+Alt+Del: a key going down (with Alt, and whether a control has the focus) or up, or a
  choice clicked.  Enter has Windows click the choice that has the focus.
\<close>

datatype sas_choice = Sas_lock | Sas_signout | Sas_taskmgr | Sas_cancel

fun choice_word :: "sas_choice \<Rightarrow> string" where
  "choice_word Sas_lock = ''lock''"
| "choice_word Sas_signout = ''signout''"
| "choice_word Sas_taskmgr = ''taskmgr''"
| "choice_word Sas_cancel = ''cancel''"

datatype sas_msg = Sas_down bool nat bool | Sas_up nat | Sas_clicked sas_choice

record sas_screen =
  ss_enabled :: bool
  ss_held :: "u8 \<Rightarrow> bool"

definition sas_choose :: "sas_choice \<Rightarrow> sas_screen \<Rightarrow> sas_screen \<times> greeter_out list" where
  "sas_choose c s = (s\<lparr>ss_enabled := False\<rparr>, [greeter_line (''SAS '' @ choice_word c)])"

definition sas_step :: "sas_msg \<Rightarrow> sas_screen \<Rightarrow> sas_screen \<times> greeter_out list" where
  "sas_step m s =
     (case m of
        Sas_down sys k focused \<Rightarrow>
          if ss_held s (vk_byte k) then (s, [])
          else if vk_byte k = vk_byte VK_ESCAPE then sas_choose Sas_cancel s
          else if vk_byte k = vk_byte VK_RETURN \<and> focused \<or> vk_byte k = 40 \<or> vk_byte k = 38 then (s, [])
          else (s, [Key_on sys k])
      | Sas_up k \<Rightarrow> if ss_held s (vk_byte k) then (s\<lparr>ss_held := (ss_held s)(vk_byte k := False)\<rparr>, []) else (s, [])
      | Sas_clicked c \<Rightarrow> sas_choose c s)"

fun sas_run :: "sas_msg list \<Rightarrow> sas_screen \<Rightarrow> sas_screen \<times> greeter_out list" where
  "sas_run [] s = (s, [])"
| "sas_run (m # ms) s = (let (s1, out1) = sas_step m s; (s2, out2) = sas_run ms s1 in (s2, out1 @ out2))"


section \<open>What the screen says, and when\<close>

text \<open>Signing in is asked for with the button or with Enter.\<close>

definition submits :: "greeter_msg \<Rightarrow> bool" where
  "submits m \<longleftrightarrow> (\<exists>c. m = Gcommand GID_SUBMIT c) \<or> (\<exists>w c f. m = Gkey_down False VK_RETURN w c f)"

definition typed_name :: "greeter \<Rightarrow> greeter_out" where
  "typed_name g = Sent (''USER '' @ take 511 (gt_user g))"

definition typed_secret :: "greeter \<Rightarrow> greeter_out" where
  "typed_secret g = Sent (''REPLY '' @ take 511 (gt_secret g))"

definition last_name :: "greeter \<Rightarrow> greeter_out" where
  "last_name g = Sent (''USER '' @ gt_last g)"

lemmas greeter_out_defs = typed_name_def typed_secret_def last_name_def greeter_line_def

text \<open>What a step may put out, from \<open>g\<close> to \<open>g'\<close>.\<close>

definition may_say :: "greeter_msg \<Rightarrow> greeter \<Rightarrow> greeter \<Rightarrow> greeter_out \<Rightarrow> bool" where
  "may_say m g g' e \<longleftrightarrow>
     e = Closing \<or> (\<exists>r. e = Powering r) \<or> (\<exists>s k. e = Key_on s k) \<or> e = Sent ''CANCEL'' \<or> e = last_name g' \<and> gt_last_mode g' \<or>
     e = typed_name g \<and> submits m \<and> \<not> gt_awaiting g \<and> gt_user g \<noteq> [] \<and> gt_lock g = None \<or>
     e = typed_secret g \<and> submits m \<and> gt_awaiting g"

definition is_prompt :: "string \<Rightarrow> bool" where
  "is_prompt l \<longleftrightarrow> starts ''PROMPT_SECRET '' l \<or> starts ''PROMPT_VISIBLE '' l"

text \<open>What a step does to the account fixed or offered, and to whether a secret was asked for.\<close>

definition step_ok :: "greeter_msg \<Rightarrow> greeter \<Rightarrow> greeter \<Rightarrow> bool" where
  "step_ok m g g' \<longleftrightarrow> gt_lock g' = gt_lock g \<and>
     (gt_last g' = gt_last g \<or> (\<exists>l. m = Gline l \<and> gt_last g' = take 255 (drop 9 l))) \<and>
     (gt_last_mode g' \<longrightarrow> gt_last_mode g \<and> gt_last g' = gt_last g \<or>
        (\<exists>l. m = Gline l \<and> starts ''LASTUSER '' l \<and> gt_last g' = take 255 (drop 9 l) \<and> gt_lock g = None)) \<and>
     (gt_awaiting g' \<longrightarrow> (\<exists>l. m = Gline l \<and> is_prompt l) \<or> gt_awaiting g \<and> (\<forall>l. m = Gline l \<longrightarrow> \<not> starts ''FAILURE '' l)) \<and>
     (gt_user g' = gt_user g \<or> gt_user g' = [] \<or> gt_user g' = gt_last g' \<or> m = Gtyped Name_box (gt_user g')) \<and>
     (gt_secret g' = gt_secret g \<or> gt_secret g' = [] \<or> m = Gtyped Secret_box (gt_secret g'))"

lemma lift_curtain_keeps [simp]:
  "gt_lock (lift_curtain g) = gt_lock g" "gt_last (lift_curtain g) = gt_last g" "gt_awaiting (lift_curtain g) = gt_awaiting g"
  "gt_user (lift_curtain g) = gt_user g" "gt_secret (lift_curtain g) = gt_secret g" "gt_held (lift_curtain g) = gt_held g"
  "gt_pressed (lift_curtain g) = gt_pressed g" "gt_done (lift_curtain g) = gt_done g" "gt_last_mode (lift_curtain g) = gt_last_mode g"
  by (simp_all add: lift_curtain_def)

lemma want_focus_keeps [simp]:
  "gt_lock (want_focus c g) = gt_lock g" "gt_last (want_focus c g) = gt_last g" "gt_awaiting (want_focus c g) = gt_awaiting g"
  "gt_user (want_focus c g) = gt_user g" "gt_secret (want_focus c g) = gt_secret g" "gt_held (want_focus c g) = gt_held g"
  "gt_pressed (want_focus c g) = gt_pressed g" "gt_done (want_focus c g) = gt_done g" "gt_last_mode (want_focus c g) = gt_last_mode g"
  by (simp_all add: want_focus_def)

lemma greeter_line_name: "greeter_line (''USER '' @ take 511 (gt_user g)) = typed_name g"
  by (simp add: greeter_line_def typed_name_def)

lemma greeter_line_secret: "greeter_line (''REPLY '' @ take 511 (gt_secret g)) = typed_secret g"
  by (simp add: greeter_line_def typed_secret_def)

lemma greeter_line_last: "length (gt_last g) \<le> 255 \<Longrightarrow> greeter_line (''USER '' @ gt_last g) = last_name g"
  by (simp add: greeter_line_def last_name_def)

lemma greeter_line_cancel: "greeter_line ''CANCEL'' = Sent ''CANCEL''"
  by (simp add: greeter_line_def)

lemmas greeter_lines = greeter_line_name[simplified] greeter_line_secret[simplified] greeter_line_last[simplified] greeter_line_cancel

lemma may_say_cancel: "may_say m g g' (Sent ''CANCEL'')"
  by (simp add: may_say_def)

lemma may_say_last: "gt_last g' = gt_last h \<Longrightarrow> gt_last_mode g' \<Longrightarrow> may_say m g g' (last_name h)"
  by (simp add: may_say_def last_name_def)

lemma may_say_name: "submits m \<Longrightarrow> \<not> gt_awaiting g \<Longrightarrow> gt_user g \<noteq> [] \<Longrightarrow> gt_lock g = None \<Longrightarrow> may_say m g g' (typed_name g)"
  by (simp add: may_say_def)

lemma may_say_secret: "submits m \<Longrightarrow> gt_awaiting g \<Longrightarrow> may_say m g g' (typed_secret g)"
  by (simp add: may_say_def)

lemma may_say_other: "may_say m g g' Closing" "may_say m g g' (Powering r)" "may_say m g g' (Key_on sys k)"
  by (simp_all add: may_say_def)

lemmas may_says = may_say_cancel may_say_last may_say_name may_say_secret may_say_other

definition ok_step :: "greeter_msg \<Rightarrow> greeter \<Rightarrow> greeter \<times> greeter_out list \<Rightarrow> bool" where
  "ok_step m g r \<longleftrightarrow> (\<forall>e\<in>set (snd r). may_say m g (fst r) e) \<and> step_ok m g (fst r)"

text \<open>A submit is no line of the service's, so what was asked for stays asked for.\<close>

lemma submits_no_line: "submits m \<Longrightarrow> m \<noteq> Gline l"
  by (auto simp: submits_def)

lemma submit_step:
  assumes "submits m"
  shows "ok_step m g (submit g)"
proof -
  note m = assms submits_no_line[OF assms]
  consider "gt_done g \<or> \<not> gt_awaiting g \<and> (gt_lock g \<noteq> None \<or> gt_last_mode g)"
    | "\<not> gt_done g" "\<not> gt_awaiting g" "\<not> (gt_lock g \<noteq> None \<or> gt_last_mode g)" | "\<not> gt_done g" "gt_awaiting g" by blast
  then show ?thesis
  proof cases
    case 1
    then show ?thesis using m by (simp add: submit_def ok_step_def step_ok_def)
  next
    case 2
    then show ?thesis using m
      by (cases "gt_user g = []") (simp_all add: submit_def ok_step_def step_ok_def greeter_lines may_says)
  next
    case 3
    then show ?thesis using m by (simp add: submit_def ok_step_def step_ok_def greeter_lines may_says)
  qed
qed

lemma last_user_mode_step: "ok_step m g (last_user_mode False g)"
  by (simp add: last_user_mode_def ok_step_def step_ok_def greeter_lines may_says)

lemma failed_step:
  assumes "length (gt_last g) \<le> 255"
  shows "ok_step m g (failed why g)"
proof -
  consider "gt_last_mode g" | "\<not> gt_last_mode g" "gt_lock g = None" | "\<not> gt_last_mode g" "gt_lock g \<noteq> None" by blast
  then show ?thesis
    by cases (use assms in \<open>simp_all add: failed_def ok_step_def step_ok_def greeter_lines may_says Let_def\<close>)
qed

lemma starts_head: "starts (c # p) l \<Longrightarrow> starts (d # q) l \<Longrightarrow> c = d"
  by (cases l) (simp_all add: starts_def)

lemma handle_bridge_line_step:
  assumes len: "length (gt_last g) \<le> 255"
  shows "ok_step (Gline l) g (handle_bridge_line l g)"
proof (cases "is_prompt l")
  case True
  then have "\<exists>hidden t. handle_bridge_line l g = (asked hidden t g, [])"
    by (cases "starts ''PROMPT_SECRET '' l") (auto simp: handle_bridge_line_def is_prompt_def)
  then obtain hidden t where "handle_bridge_line l g = (asked hidden t g, [])" by blast
  then show ?thesis using True by (simp add: ok_step_def asked_def step_ok_def)
next
  case no_prompt: False
  show ?thesis
  proof (cases "starts ''SUCCESS'' l")
    case True
    then have "\<not> starts ''FAILURE '' l" using starts_head[of "CHR ''S''" "''UCCESS''" l "CHR ''F''" "''AILURE ''"] by auto
    moreover have "handle_bridge_line l g = (g\<lparr>gt_done := True, gt_status := ''Welcome''\<rparr>, [Closing])"
      using True no_prompt by (simp add: handle_bridge_line_def is_prompt_def)
    ultimately show ?thesis by (simp add: ok_step_def step_ok_def may_says)
  next
    case no_success: False
    show ?thesis
    proof (cases "starts ''FAILURE '' l")
      case True
      then have "handle_bridge_line l g = failed (drop 8 l) g" using no_prompt no_success by (simp add: handle_bridge_line_def is_prompt_def)
      then show ?thesis using failed_step[OF len] by simp
    next
      case no_failure: False
      have rest: "handle_bridge_line l g =
          (if starts ''ERROR '' l then (g\<lparr>gt_submit_on := True, gt_status := drop 6 l\<rparr>, [])
           else if starts ''LASTUSER '' l \<and> gt_lock g = None \<and> \<not> gt_done g then last_user_mode True (g\<lparr>gt_last := take 255 (drop 9 l)\<rparr>)
           else if starts ''INFO '' l then (g\<lparr>gt_status := drop 5 l\<rparr>, []) else (g, []))"
        using no_prompt no_success no_failure by (simp add: handle_bridge_line_def is_prompt_def)
      have offered: "ok_step (Gline l) g (last_user_mode True (g\<lparr>gt_last := take 255 (drop 9 l)\<rparr>))" if "starts ''LASTUSER '' l" "gt_lock g = None"
        using that greeter_line_last[of "g\<lparr>gt_last := take 255 (drop 9 l)\<rparr>", simplified] by (simp add: last_user_mode_def ok_step_def step_ok_def may_says)
      have quiet: "ok_step (Gline l) g (g', [])" if "gt_lock g' = gt_lock g" "gt_last g' = gt_last g" "gt_awaiting g' = gt_awaiting g"
        "gt_user g' = gt_user g" "gt_secret g' = gt_secret g" "gt_last_mode g' = gt_last_mode g" for g'
        using that no_failure by (simp add: ok_step_def step_ok_def)
      show ?thesis unfolding rest using offered quiet by simp
    qed
  qed
qed

lemma greeter_step_step:
  assumes len: "length (gt_last g) \<le> 255"
  shows "ok_step m g (greeter_step m g)"
proof (cases m)
  case (Gkey_down sys k was_down ctrl focused)
  define g1 where "g1 = lift_curtain (g\<lparr>gt_pressed := (gt_pressed g)(vk_byte k := True)\<rparr>)"
  have same: "gt_lock g1 = gt_lock g" "gt_last g1 = gt_last g" "gt_awaiting g1 = gt_awaiting g" "gt_user g1 = gt_user g" "gt_secret g1 = gt_secret g"
    "gt_last_mode g1 = gt_last_mode g"
    by (simp_all add: g1_def)
  have held: "ok_step m g (g\<lparr>gt_held := h\<rparr>, [])" for h using Gkey_down by (simp add: ok_step_def step_ok_def)
  have quiet: "ok_step m g (g1, [])" using Gkey_down same by (simp add: ok_step_def step_ok_def)
  have on: "ok_step m g (g1, [Key_on s k])" for s using Gkey_down same by (simp add: ok_step_def step_ok_def may_says)
  have sub: "ok_step m g (submit g1)" if "\<not> sys" "k = VK_RETURN"
  proof -
    have "submits m" using that Gkey_down by (simp add: submits_def)
    from submit_step[OF this, of g1] show ?thesis using same by (simp add: ok_step_def may_say_def step_ok_def typed_name_def typed_secret_def)
  qed
  have "ok_step m g (key_taken sys k ctrl focused (g\<lparr>gt_pressed := (gt_pressed g)(vk_byte k := True)\<rparr>))"
    unfolding key_taken_def g1_def[symmetric] Let_def using quiet on sub by simp
  then show ?thesis using held unfolding Gkey_down greeter_step_def by simp
next
  case (Gcommand i chosen)
  have power: "ok_step m g (power_menu chosen g)"
    using Gcommand by (cases chosen) (simp_all add: power_menu_def ok_step_def step_ok_def may_says)
  have quiet: "ok_step m g (g, [])" using Gcommand by (simp add: ok_step_def step_ok_def)
  have sub: "i = GID_SUBMIT \<Longrightarrow> ok_step m g (submit g)" using submit_step Gcommand by (simp add: submits_def)
  show ?thesis using last_user_mode_step[of m g] power quiet sub unfolding Gcommand greeter_step_def greeter_wndproc_def by auto
next
  case (Gline l)
  then show ?thesis using handle_bridge_line_step[OF len, of l] by (simp add: greeter_step_def greeter_wndproc_def)
qed (simp_all add: greeter_step_def greeter_wndproc_def ok_step_def step_ok_def may_says)


lemma greeter_run_snoc:
  "greeter_run (ms @ [m]) g = (let (g1, out1) = greeter_run ms g; (g2, out2) = greeter_step m g1 in (g2, out1 @ out2))"
  by (induction ms arbitrary: g) (simp_all add: case_prod_beta)

text \<open>A secret was asked for, and no refusal came since.\<close>

definition prompted :: "greeter_msg list \<Rightarrow> bool" where
  "prompted pre \<longleftrightarrow> (\<exists>pre1 l pre2. pre = pre1 @ Gline l # pre2 \<and> is_prompt l \<and> (\<forall>l'. Gline l' \<in> set pre2 \<longrightarrow> \<not> starts ''FAILURE '' l'))"

lemma prompted_now: "is_prompt l \<Longrightarrow> prompted (pre @ [Gline l])"
  unfolding prompted_def by (intro exI[of _ pre] exI[of _ l] exI[of _ "[]"]) simp

lemma prompted_snoc:
  assumes "prompted pre" and "\<forall>l. m = Gline l \<longrightarrow> \<not> starts ''FAILURE '' l"
  shows "prompted (pre @ [m])"
proof -
  obtain pre1 l pre2 where h: "pre = pre1 @ Gline l # pre2" "is_prompt l" "\<forall>l'. Gline l' \<in> set pre2 \<longrightarrow> \<not> starts ''FAILURE '' l'"
    using assms(1) unfolding prompted_def by blast
  have "pre @ [m] = pre1 @ Gline l # (pre2 @ [m])" "\<forall>l'. Gline l' \<in> set (pre2 @ [m]) \<longrightarrow> \<not> starts ''FAILURE '' l'"
    using h(1,3) assms(2) by auto
  then show ?thesis unfolding prompted_def using h(2) by blast
qed

text \<open>The account offered is one the bridge named.\<close>

definition offered :: "greeter_msg list \<Rightarrow> string \<Rightarrow> bool" where
  "offered ms t \<longleftrightarrow> (\<exists>l. Gline l \<in> set ms \<and> starts ''LASTUSER '' l \<and> t = take 255 (drop 9 l))"

text \<open>Windows' boxes and the lines read from a service are single lines.\<close>

definition msgs_ok :: "greeter_msg list \<Rightarrow> bool" where
  "msgs_ok ms \<longleftrightarrow> (\<forall>c t. Gtyped c t \<in> set ms \<longrightarrow> single_line t) \<and> (\<forall>l. Gline l \<in> set ms \<longrightarrow> single_line l)"

lemma single_line_drop: "single_line s \<Longrightarrow> single_line (drop n s)"
  by (auto simp: single_line_def nul_free_def dest: in_set_dropD)

definition greeter_inv :: "string \<Rightarrow> greeter_msg list \<Rightarrow> greeter \<Rightarrow> bool" where
  "greeter_inv cmd ms g \<longleftrightarrow> gt_lock g = lock_arg cmd \<and> length (gt_last g) \<le> 255 \<and> (gt_awaiting g \<longrightarrow> prompted ms) \<and>
     (gt_last_mode g \<longrightarrow> offered ms (gt_last g) \<and> lock_arg cmd = None) \<and>
     (msgs_ok ms \<longrightarrow> single_line cmd \<longrightarrow> single_line (gt_user g) \<and> single_line (gt_secret g) \<and> single_line (gt_last g))"

lemma greeter_inv_start: "greeter_inv cmd [] (greeter_start cmd curtain down)"
proof -
  have "single_line []" by (simp add: single_line_def)
  moreover have "single_line cmd \<Longrightarrow> single_line (case lock_arg cmd of Some u \<Rightarrow> u | None \<Rightarrow> [])"
    using single_line_drop by (simp add: lock_arg_def single_line_def)
  ultimately show ?thesis by (simp add: greeter_inv_def greeter_start_def)
qed

lemma greeter_inv_step:
  assumes inv: "greeter_inv cmd ms g" and ok: "step_ok m g g'"
  shows "greeter_inv cmd (ms @ [m]) g'"
proof -
  have nil: "single_line []" by (simp add: single_line_def)
  note i = inv[unfolded greeter_inv_def] and s = ok[unfolded step_ok_def]
  have lock: "gt_lock g' = lock_arg cmd" using i s by simp
  moreover have "length (gt_last g') \<le> 255"
  proof (cases "gt_last g' = gt_last g")
    case True
    then show ?thesis using i by simp
  next
    case False
    then obtain l where "gt_last g' = take 255 (drop 9 l)" using s by blast
    then show ?thesis by simp
  qed
  moreover have "gt_awaiting g' \<longrightarrow> prompted (ms @ [m])" using i s prompted_now prompted_snoc by blast
  moreover have "offered (ms @ [m]) (gt_last g') \<and> lock_arg cmd = None" if mode: "gt_last_mode g'"
  proof (cases "gt_last_mode g \<and> gt_last g' = gt_last g")
    case True
    then show ?thesis using i by (auto simp: offered_def)
  next
    case False
    then obtain l where "m = Gline l" "starts ''LASTUSER '' l" "gt_last g' = take 255 (drop 9 l)" "gt_lock g = None" using s mode by blast
    then show ?thesis using i by (auto simp: offered_def)
  qed
  moreover have "single_line (gt_user g') \<and> single_line (gt_secret g') \<and> single_line (gt_last g')" if ms: "msgs_ok (ms @ [m])" and cmd: "single_line cmd"
  proof -
    have old: "single_line (gt_user g)" "single_line (gt_secret g)" "single_line (gt_last g)" using i ms cmd by (auto simp: msgs_ok_def)
    have new: "\<And>c t. m = Gtyped c t \<Longrightarrow> single_line t" "\<And>l. m = Gline l \<Longrightarrow> single_line (take 255 (drop 9 l))"
      using ms by (auto simp: msgs_ok_def intro!: single_line_take single_line_drop)
    have last: "single_line (gt_last g')" using s old(3) new(2) by metis
    have "single_line (gt_user g')" using s old(1) nil last new(1) by metis
    moreover have "single_line (gt_secret g')" using s old(2) nil new(1) by metis
    ultimately show ?thesis using last by blast
  qed
  ultimately show ?thesis unfolding greeter_inv_def by blast
qed

lemma greeter_run_inv:
  "greeter_run ms (greeter_start cmd curtain down) = (g, out) \<Longrightarrow> greeter_inv cmd ms g"
proof (induction ms arbitrary: g out rule: rev_induct)
  case Nil
  then have "g = greeter_start cmd curtain down" by simp
  then show ?case using greeter_inv_start by blast
next
  case (snoc m ms)
  obtain g1 out1 where run: "greeter_run ms (greeter_start cmd curtain down) = (g1, out1)" by fastforce
  have g: "g = fst (greeter_step m g1)" using snoc.prems run by (auto simp: greeter_run_snoc split: prod.splits)
  have "length (gt_last g1) \<le> 255" using snoc.IH[OF run] by (simp add: greeter_inv_def)
  then show ?case using greeter_inv_step[OF snoc.IH[OF run]] greeter_step_step unfolding g ok_step_def by blast
qed

lemma greeter_run_said:
  "greeter_run ms (greeter_start cmd curtain down) = (g, out) \<Longrightarrow> e \<in> set out \<Longrightarrow>
     \<exists>pre m post g0 out0. ms = pre @ m # post \<and> greeter_run pre (greeter_start cmd curtain down) = (g0, out0) \<and>
       e \<in> set (snd (greeter_step m g0)) \<and> may_say m g0 (fst (greeter_step m g0)) e"
proof (induction ms arbitrary: g out rule: rev_induct)
  case Nil
  then show ?case by auto
next
  case (snoc m ms)
  obtain g1 out1 where run: "greeter_run ms (greeter_start cmd curtain down) = (g1, out1)" by fastforce
  have out: "out = out1 @ snd (greeter_step m g1)" using snoc.prems(1) run by (auto simp: greeter_run_snoc split: prod.splits)
  show ?case
  proof (cases "e \<in> set out1")
    case True
    from snoc.IH[OF run this] show ?thesis by (metis append_Cons append_assoc)
  next
    case False
    then have e: "e \<in> set (snd (greeter_step m g1))" using snoc.prems(2) out by simp
    have "length (gt_last g1) \<le> 255" using greeter_run_inv[OF run] by (simp add: greeter_inv_def)
    then have "may_say m g1 (fst (greeter_step m g1)) e" using greeter_step_step e unfolding ok_step_def by blast
    then show ?thesis using run e by blast
  qed
qed


section \<open>The screen and the services\<close>

text \<open>A line the screen sends is read whole, by the lock service and by the login bridge.\<close>

definition read_whole :: "string \<Rightarrow> bool" where
  "read_whole l \<longleftrightarrow> (\<forall>bs. read_line (LOCK_MAXFIELD + 15) (l @ LF # bs) [] = Some (l, bs) \<and> from_ui (l @ LF # bs) = Some (l, bs))"

lemma lock_read_line: "LF \<notin> set l \<Longrightarrow> CR \<notin> set l \<Longrightarrow> length l < n \<Longrightarrow> read_line n (l @ LF # bs) buf = Some (cstr (buf @ l), bs)"
proof (induction l arbitrary: n buf)
  case Nil
  then show ?case by (cases n) simp_all
next
  case (Cons c l)
  then show ?case by (cases n) auto
qed

lemma from_ui_max_line: "LF \<notin> set l \<Longrightarrow> CR \<notin> set l \<Longrightarrow> length l < n \<Longrightarrow> from_ui_max n (l @ LF # bs) = Some (l, bs)"
proof (induction l arbitrary: n)
  case (Cons c l)
  then show ?case by (cases n) auto
qed simp

lemma read_whole_line: "single_line l \<Longrightarrow> length l \<le> 517 \<Longrightarrow> read_whole l"
  using lock_read_line[of l 527] from_ui_max_line[of l 2047]
  by (simp add: read_whole_def single_line_def from_ui_def LOCK_MAXFIELD_def cstr_whole)

lemma single_line_word: "single_line s \<Longrightarrow> LF \<notin> set p \<Longrightarrow> CR \<notin> set p \<Longrightarrow> nul_free p \<Longrightarrow> single_line (p @ s)"
  by (simp add: single_line_def)

text \<open>Where a name and a secret come from.\<close>

definition name_from :: "string \<Rightarrow> string option \<Rightarrow> (u8 \<Rightarrow> bool) \<Rightarrow> greeter_msg list \<Rightarrow> string \<Rightarrow> bool" where
  "name_from cmd curtain down ms t \<longleftrightarrow> lock_arg cmd = None \<and> (offered ms t \<or>
     (\<exists>pre m post g0 out0. ms = pre @ m # post \<and> submits m \<and> greeter_run pre (greeter_start cmd curtain down) = (g0, out0) \<and>
        t = take 511 (gt_user g0) \<and> t \<noteq> []))"

definition secret_from :: "string \<Rightarrow> string option \<Rightarrow> (u8 \<Rightarrow> bool) \<Rightarrow> greeter_msg list \<Rightarrow> string \<Rightarrow> bool" where
  "secret_from cmd curtain down ms t \<longleftrightarrow>
     (\<exists>pre m post g0 out0. ms = pre @ m # post \<and> submits m \<and> prompted pre \<and>
        greeter_run pre (greeter_start cmd curtain down) = (g0, out0) \<and> t = take 511 (gt_secret g0))"

lemma greeter_said_cases:
  assumes run: "greeter_run ms (greeter_start cmd curtain down) = (g, out)" and e: "e \<in> set out"
  shows "e = Closing \<or> (\<exists>r. e = Powering r) \<or> (\<exists>s k. e = Key_on s k) \<or> e = Sent ''CANCEL'' \<or>
    (\<exists>t. e = Sent (''USER '' @ t) \<and> name_from cmd curtain down ms t \<and> length t \<le> 511 \<and> (msgs_ok ms \<longrightarrow> single_line cmd \<longrightarrow> single_line t)) \<or>
    (\<exists>t. e = Sent (''REPLY '' @ t) \<and> secret_from cmd curtain down ms t \<and> length t \<le> 511 \<and> (msgs_ok ms \<longrightarrow> single_line cmd \<longrightarrow> single_line t))"
proof -
  obtain pre m post g0 out0 where h: "ms = pre @ m # post" "greeter_run pre (greeter_start cmd curtain down) = (g0, out0)"
    "may_say m g0 (fst (greeter_step m g0)) e" using greeter_run_said[OF run e] by blast
  define g1 where "g1 = fst (greeter_step m g0)"
  have inv: "greeter_inv cmd pre g0" using greeter_run_inv[OF h(2)] .
  have "greeter_run (pre @ [m]) (greeter_start cmd curtain down) = (g1, out0 @ snd (greeter_step m g0))"
    by (simp add: greeter_run_snoc h(2) g1_def split: prod.splits)
  then have inv1: "greeter_inv cmd (pre @ [m]) g1" by (rule greeter_run_inv)
  have ok: "msgs_ok ms \<Longrightarrow> msgs_ok pre \<and> msgs_ok (pre @ [m])" using h(1) by (auto simp: msgs_ok_def)
  consider "e = Closing \<or> (\<exists>r. e = Powering r) \<or> (\<exists>s k. e = Key_on s k) \<or> e = Sent ''CANCEL''" | "e = last_name g1" "gt_last_mode g1"
    | "e = typed_name g0" "submits m" "gt_user g0 \<noteq> []" "gt_lock g0 = None" | "e = typed_secret g0" "submits m" "gt_awaiting g0"
    using h(3)[folded g1_def] unfolding may_say_def by argo
  then show ?thesis
  proof cases
    case 1
    then show ?thesis by blast
  next
    case 2
    have "offered ms (gt_last g1)" "lock_arg cmd = None" using inv1 2(2) h(1) by (auto simp: greeter_inv_def offered_def)
    then have "name_from cmd curtain down ms (gt_last g1)" by (simp add: name_from_def)
    moreover have "length (gt_last g1) \<le> 511" "msgs_ok ms \<longrightarrow> single_line cmd \<longrightarrow> single_line (gt_last g1)"
      using inv1 ok by (auto simp: greeter_inv_def)
    ultimately show ?thesis using 2(1) unfolding last_name_def by blast
  next
    case 3
    have "lock_arg cmd = None" using inv 3(4) by (simp add: greeter_inv_def)
    moreover have "take 511 (gt_user g0) \<noteq> []" using 3(3) by simp
    ultimately have "name_from cmd curtain down ms (take 511 (gt_user g0))" unfolding name_from_def using h(1,2) 3(2) by blast
    moreover have "length (take 511 (gt_user g0)) \<le> 511" by simp
    moreover have "msgs_ok ms \<longrightarrow> single_line cmd \<longrightarrow> single_line (take 511 (gt_user g0))"
      using inv ok single_line_take by (auto simp: greeter_inv_def)
    ultimately show ?thesis using 3(1) unfolding typed_name_def by blast
  next
    case 4
    have "prompted pre" using inv 4(3) by (simp add: greeter_inv_def)
    then have "secret_from cmd curtain down ms (take 511 (gt_secret g0))" unfolding secret_from_def using h(1,2) 4(2) by blast
    moreover have "length (take 511 (gt_secret g0)) \<le> 511" by simp
    moreover have "msgs_ok ms \<longrightarrow> single_line cmd \<longrightarrow> single_line (take 511 (gt_secret g0))"
      using inv ok single_line_take by (auto simp: greeter_inv_def)
    ultimately show ?thesis using 4(1) unfolding typed_secret_def by blast
  qed
qed


text \<open>
  C38.  What is typed at the login and lock screens is what their services get, and nothing
  unasked: whatever messages Windows and the service send, in whatever order, no line
  overruns the buffer it is put together in, each is read back whole by the lock service and
  by the login bridge, a secret goes out only when the service had asked for one and had not
  refused since, and is what was in the box when the person pressed Enter or the button; a
  name is what was in its box then, or the account the bridge offered, and the lock screen
  names nobody.
\<close>

theorem sign_in_faithful:
  assumes run: "greeter_run ms (greeter_start cmd curtain down) = (g, out)" and ok: "msgs_ok ms" "single_line cmd"
  shows "Overrun \<notin> set out \<and>
    (\<forall>l. Sent l \<in> set out \<longrightarrow> read_whole l \<and>
       (l = ''CANCEL'' \<or> (\<exists>t. l = ''USER '' @ t \<and> name_from cmd curtain down ms t) \<or> (\<exists>t. l = ''REPLY '' @ t \<and> secret_from cmd curtain down ms t)))"
proof -
  note said = greeter_said_cases[OF run]
  have "Overrun \<notin> set out" using said[of Overrun] by auto
  moreover have "read_whole l \<and>
      (l = ''CANCEL'' \<or> (\<exists>t. l = ''USER '' @ t \<and> name_from cmd curtain down ms t) \<or> (\<exists>t. l = ''REPLY '' @ t \<and> secret_from cmd curtain down ms t))"
    if sent: "Sent l \<in> set out" for l
  proof -
    have words: "single_line t \<Longrightarrow> single_line (''USER '' @ t)" "single_line t \<Longrightarrow> single_line (''REPLY '' @ t)" for t
      by (simp_all add: single_line_def)
    from said[OF sent] consider "l = ''CANCEL''"
      | t where "l = ''USER '' @ t" "name_from cmd curtain down ms t" "length t \<le> 511" "single_line t"
      | t where "l = ''REPLY '' @ t" "secret_from cmd curtain down ms t" "length t \<le> 511" "single_line t" using ok by auto
    then show ?thesis
    proof cases
      case 1
      then have "read_whole l" by (intro read_whole_line) (simp_all add: single_line_def)
      then show ?thesis using 1 by blast
    next
      case 2
      then have "read_whole l" by (intro read_whole_line) (simp_all add: words[simplified])
      then show ?thesis using 2 by blast
    next
      case 3
      then have "read_whole l" by (intro read_whole_line) (simp_all add: words[simplified])
      then show ?thesis using 3 by blast
    qed
  qed
  ultimately show ?thesis by blast
qed


text \<open>One Enter: the key goes down, was not down before.\<close>

definition ENTER :: greeter_msg where
  "ENTER = Gkey_down False VK_RETURN False False True"

lemma greeter_enter:
  assumes "\<not> gt_held g (vk_byte VK_RETURN)" and "\<not> gt_curtain g"
  shows "greeter_step ENTER g = submit (g\<lparr>gt_pressed := (gt_pressed g)(vk_byte VK_RETURN := True)\<rparr>)"
  using assms by (simp add: ENTER_def greeter_step_def key_taken_def lift_curtain_def)

definition ex_lock_prompt :: string where
  "ex_lock_prompt = ''PROMPT_SECRET Password for alice:''"

definition ex_asked :: "string \<Rightarrow> greeter" where
  "ex_asked pw = fst (greeter_run [Gline ex_lock_prompt, Gtyped Secret_box pw] (greeter_start ''/lock alice'' (Some ''0'') (\<lambda>_. False)))"

lemma ex_asked_run:
  "greeter_run [Gline ex_lock_prompt, Gtyped Secret_box pw] (greeter_start ''/lock alice'' (Some ''0'') (\<lambda>_. False)) = (ex_asked pw, [])"
proof -
  have "is_prompt ex_lock_prompt" "starts ''PROMPT_SECRET '' ex_lock_prompt" by (simp_all add: is_prompt_def ex_lock_prompt_def starts_def)
  then show ?thesis by (simp add: ex_asked_def greeter_step_def greeter_wndproc_def handle_bridge_line_def)
qed

lemma ex_asked_state: "gt_awaiting (ex_asked pw)" "\<not> gt_done (ex_asked pw)" "gt_secret (ex_asked pw) = pw" "\<not> gt_curtain (ex_asked pw)"
  "\<not> gt_held (ex_asked pw) b" "\<not> gt_pressed (ex_asked pw) b"
proof -
  have "starts ''PROMPT_SECRET '' ex_lock_prompt" by (simp add: ex_lock_prompt_def starts_def)
  then have "ex_asked pw = (asked True (drop 14 ex_lock_prompt) (greeter_start ''/lock alice'' (Some ''0'') (\<lambda>_. False)))\<lparr>gt_secret := pw\<rparr>"
    by (simp add: ex_asked_def greeter_step_def greeter_wndproc_def handle_bridge_line_def)
  then show "gt_awaiting (ex_asked pw)" "\<not> gt_done (ex_asked pw)" "gt_secret (ex_asked pw) = pw" "\<not> gt_curtain (ex_asked pw)"
    "\<not> gt_held (ex_asked pw) b" "\<not> gt_pressed (ex_asked pw) b"
    by (simp_all add: asked_def greeter_start_def want_focus_def)
qed

lemma greeter_run_one: "greeter_run [m] g = greeter_step m g"
  by (simp add: case_prod_beta)

lemma ex_asked_enter:
  "greeter_run [ENTER] (ex_asked pw) = (fst (greeter_step ENTER (ex_asked pw)), [Sent (''REPLY '' @ take 511 pw)])"
proof -
  have "snd (greeter_step ENTER (ex_asked pw)) = [typed_secret (ex_asked pw)]"
    using ex_asked_state[of pw] by (simp add: greeter_enter submit_def greeter_line_def typed_secret_def)
  then have "greeter_step ENTER (ex_asked pw) = (fst (greeter_step ENTER (ex_asked pw)), [Sent (''REPLY '' @ take 511 pw)])"
    using ex_asked_state(3)[of pw] by (simp add: prod_eq_iff typed_secret_def)
  then show ?thesis unfolding greeter_run_one .
qed

lemma greeter_up: "greeter_step (Gkey_up k) g = (g\<lparr>gt_pressed := (gt_pressed g)(vk_byte k := False), gt_held := (gt_held g)(vk_byte k := False)\<rparr>, [])"
  by (simp add: greeter_step_def)

theorem sign_in_faithful_witness:
  "\<exists>g. greeter_run [Gline ex_lock_prompt, Gtyped Secret_box ''pw'', ENTER] (greeter_start ''/lock alice'' (Some ''0'') (\<lambda>_. False)) = (g, [Sent ''REPLY pw'']) \<and>
     read_whole ''REPLY pw''"
proof -
  let ?s = "greeter_start ''/lock alice'' (Some ''0'') (\<lambda>_. False)" and ?ms = "[Gline ex_lock_prompt, Gtyped Secret_box ''pw'', ENTER]"
  have "greeter_run ([Gline ex_lock_prompt, Gtyped Secret_box ''pw''] @ [ENTER]) ?s = (fst (greeter_step ENTER (ex_asked ''pw'')), [Sent ''REPLY pw''])"
    unfolding greeter_run_snoc ex_asked_run using ex_asked_enter[of "''pw''"] by (simp add: case_prod_beta)
  then have run: "greeter_run ?ms ?s = (fst (greeter_step ENTER (ex_asked ''pw'')), [Sent ''REPLY pw''])" by (simp only: append.simps)
  have ok: "msgs_ok ?ms" "single_line ''/lock alice''" by (auto simp: msgs_ok_def single_line_def ex_lock_prompt_def ENTER_def)
  show ?thesis using sign_in_faithful[OF run ok] run by (auto simp del: greeter_run.simps)
qed

lemma enter_twice_says:
  assumes run: "greeter_run [Gline ex_lock_prompt, Gtyped Secret_box pw, ENTER, Gkey_up VK_RETURN, ENTER]
      (greeter_start ''/lock alice'' (Some ''0'') (\<lambda>_. False)) = (g, out)"
    and "length pw \<le> 511"
  shows "out = [Sent (''REPLY '' @ pw), Sent ''REPLY '']"
proof -
  let ?s = "greeter_start ''/lock alice'' (Some ''0'') (\<lambda>_. False)" and ?ms = "[Gline ex_lock_prompt, Gtyped Secret_box pw]"
  define g1 where "g1 = fst (greeter_step ENTER (ex_asked pw))"
  define g2 where "g2 = fst (greeter_step (Gkey_up VK_RETURN) g1)"
  have "g1 = (ex_asked pw)\<lparr>gt_pressed := (gt_pressed (ex_asked pw))(vk_byte VK_RETURN := True), gt_status := SIGNING_IN, gt_submit_on := False, gt_secret := []\<rparr>"
    using ex_asked_state[of pw] by (simp add: g1_def greeter_enter submit_def)
  then have g2: "gt_awaiting g2" "\<not> gt_done g2" "gt_secret g2 = []" "\<not> gt_curtain g2" "\<not> gt_held g2 (vk_byte VK_RETURN)"
    using ex_asked_state[of pw] by (simp_all add: g2_def greeter_up)
  have up: "greeter_step (Gkey_up VK_RETURN) g1 = (g2, [])" by (simp add: g2_def greeter_up)
  have again: "snd (greeter_step ENTER g2) = [Sent ''REPLY '']" using g2 by (simp add: greeter_enter submit_def greeter_line_def)
  have "greeter_run (?ms @ [ENTER]) ?s = (g1, [Sent (''REPLY '' @ pw)])"
    unfolding greeter_run_snoc ex_asked_run g1_def using ex_asked_enter[of pw] assms(2) by (simp add: case_prod_beta)
  then have "snd (greeter_run (((?ms @ [ENTER]) @ [Gkey_up VK_RETURN]) @ [ENTER]) ?s) = [Sent (''REPLY '' @ pw), Sent ''REPLY '']"
    unfolding greeter_run_snoc[of "(?ms @ [ENTER]) @ [Gkey_up VK_RETURN]"] greeter_run_snoc[of "?ms @ [ENTER]"] using up again by (simp add: case_prod_beta)
  then show ?thesis using run by (simp only: append.simps snd_conv)
qed

text \<open>The lock service on a wrong secret and one more line.\<close>

lemma lock_checks_two:
  assumes "lk_ui st = Some False" and inp: "lk_in st = (''REPLY '' @ pw) @ LF # ''REPLY '' @ [LF]"
    and "read_whole (''REPLY '' @ pw)" and "\<not> lock_check_password (lk_monitor os) user pw"
  shows "\<exists>st1 fx1 st2 fx2. ui_ready os control user st = (st1, fx1) \<and> ui_ready os control user st1 = (st2, fx2) \<and>
    LkPam user pw \<in> set fx1 \<and> LkPam user [] \<in> set fx2"
proof -
  define fx1 where "fx1 = [LkPam user pw, ui_send ''FAILURE The password is incorrect.'', Sg_Lock.prompt user]"
  define st1 where "st1 = st\<lparr>lk_in := ''REPLY '' @ [LF]\<rparr>"
  have r1: "read_line (LOCK_MAXFIELD + 15) (lk_in st) [] = Some (''REPLY '' @ pw, ''REPLY '' @ [LF])"
    unfolding inp using assms(3) by (simp add: read_whole_def)
  have r2: "read_line (LOCK_MAXFIELD + 15) (''REPLY '' @ [LF]) [] = Some (''REPLY '', [])"
    using read_whole_line[of "''REPLY ''"] by (simp add: read_whole_def single_line_def)
  have u1: "ui_line os control user False (''REPLY '' @ pw) = (False, fx1)" using assms(4) by (simp add: ui_line_def starts_def fx1_def)
  obtain b fx2 where u2: "ui_line os control user False ''REPLY '' = (b, fx2)" by fastforce
  have pam: "LkPam user [] \<in> set fx2" using u2 by (auto simp: ui_line_def starts_def split: if_splits)
  have first: "ui_ready os control user st = (st1, fx1)"
    unfolding ui_ready_def assms(1) option.case r1 prod.case u1 by (simp add: st1_def)
  have st1: "lk_ui st1 = Some False" "lk_in st1 = ''REPLY '' @ [LF]" using assms(1) by (simp_all add: st1_def)
  have "\<exists>st2 fx3. ui_ready os control user st1 = (st2, fx2 @ fx3)"
    unfolding ui_ready_def st1 option.case r2 prod.case u2 by (cases b) (auto split: prod.splits)
  then obtain st2 fx3 where "ui_ready os control user st1 = (st2, fx2 @ fx3)" by blast
  moreover have "LkPam user pw \<in> set fx1" by (simp add: fx1_def)
  ultimately show ?thesis using first pam by (metis UnI1 set_append)
qed

text \<open>
  C40.  Enter pressed twice is two attempts: at the lock screen, a second Enter before the
  service's answer sends an empty secret after the one typed, and when the one typed was
  wrong the lock service has PAM check the empty one too.  (The button is switched off after
  the first time, the key is not.)
\<close>

theorem enter_twice_checked_twice:
  assumes "single_line pw" and "length pw \<le> 511" and "\<not> lock_check_password (lk_monitor os) user pw"
    and "greeter_run [Gline ex_lock_prompt, Gtyped Secret_box pw, ENTER, Gkey_up VK_RETURN, ENTER]
           (greeter_start ''/lock alice'' (Some ''0'') (\<lambda>_. False)) = (g, out)"
    and "lk_ui st = Some False" and "lk_in st = concat (map (\<lambda>e. case e of Sent l \<Rightarrow> l @ [LF] | _ \<Rightarrow> []) out)"
  shows "\<exists>st1 fx1 st2 fx2. ui_ready os control user st = (st1, fx1) \<and> ui_ready os control user st1 = (st2, fx2) \<and>
    LkPam user pw \<in> set fx1 \<and> LkPam user [] \<in> set fx2"
proof (rule lock_checks_two)
  show "lk_in st = (''REPLY '' @ pw) @ LF # ''REPLY '' @ [LF]" using assms(6) enter_twice_says[OF assms(4,2)] by simp
  show "read_whole (''REPLY '' @ pw)" using read_whole_line[of "''REPLY '' @ pw"] assms(1,2) by (simp add: single_line_def)
qed (use assms in simp_all)


theorem enter_twice_checked_twice_witness:
  "\<exists>st1 fx1 st2 fx2. ui_ready (ex_lock_os\<lparr>lk_monitor := \<lambda>_. Some False\<rparr>) ''/c'' ''alice''
       \<lparr>lk_ui = Some False, lk_in = ''REPLY no'' @ [LF] @ ''REPLY '' @ [LF], lk_next = []\<rparr> = (st1, fx1) \<and>
     ui_ready (ex_lock_os\<lparr>lk_monitor := \<lambda>_. Some False\<rparr>) ''/c'' ''alice'' st1 = (st2, fx2) \<and>
     LkPam ''alice'' ''no'' \<in> set fx1 \<and> LkPam ''alice'' [] \<in> set fx2"
proof -
  let ?ms = "[Gline ex_lock_prompt, Gtyped Secret_box ''no'', ENTER, Gkey_up VK_RETURN, ENTER]"
  obtain g out where run: "greeter_run ?ms (greeter_start ''/lock alice'' (Some ''0'') (\<lambda>_. False)) = (g, out)" by (meson surj_pair)
  have out: "out = [Sent (''REPLY '' @ ''no''), Sent ''REPLY '']" by (rule enter_twice_says[OF run]) simp
  show ?thesis
    by (rule enter_twice_checked_twice[OF _ _ _ run]) (simp_all add: single_line_def lock_check_password_def out)
qed

section \<open>Keys held since before\<close>

text \<open>Only keys change which keys are held or pressed.\<close>

lemma keys_kept:
  "gt_held (fst (submit g)) = gt_held g" "gt_pressed (fst (submit g)) = gt_pressed g"
  "gt_held (fst (last_user_mode on g)) = gt_held g" "gt_pressed (fst (last_user_mode on g)) = gt_pressed g"
  "gt_held (fst (failed why g)) = gt_held g" "gt_pressed (fst (failed why g)) = gt_pressed g"
  "gt_held (fst (power_menu chosen g)) = gt_held g" "gt_pressed (fst (power_menu chosen g)) = gt_pressed g"
  by (simp_all add: submit_def last_user_mode_def failed_def power_menu_def Let_def split: option.splits)

lemma line_keys_kept:
  "gt_held (fst (handle_bridge_line l g)) = gt_held g" "gt_pressed (fst (handle_bridge_line l g)) = gt_pressed g"
  by (simp_all add: handle_bridge_line_def asked_def keys_kept)

lemma key_taken_keys:
  "gt_held (fst (key_taken sys k ctrl focused g)) = gt_held g" "gt_pressed (fst (key_taken sys k ctrl focused g)) = gt_pressed g"
  by (simp_all add: key_taken_def keys_kept Let_def)

lemma wndproc_keys_kept: "gt_held (fst (greeter_wndproc m g)) = gt_held g" "gt_pressed (fst (greeter_wndproc m g)) = gt_pressed g"
  by (cases m; simp add: greeter_wndproc_def keys_kept line_keys_kept)+

definition released :: "u8 \<Rightarrow> greeter_msg list \<Rightarrow> bool" where
  "released b ms \<longleftrightarrow> (\<exists>k. Gkey_up k \<in> set ms \<and> vk_byte k = b)"

text \<open>A key went down here, fresh, and has not gone up since.\<close>

definition fresh_press :: "u8 \<Rightarrow> greeter_msg list \<Rightarrow> bool" where
  "fresh_press b ms \<longleftrightarrow> (\<exists>pre sys k ctrl focused post. ms = pre @ Gkey_down sys k False ctrl focused # post \<and> vk_byte k = b \<and> \<not> released b post)"

definition keys_inv :: "(u8 \<Rightarrow> bool) \<Rightarrow> greeter_msg list \<Rightarrow> greeter \<Rightarrow> bool" where
  "keys_inv down ms g \<longleftrightarrow> (\<forall>b. (b \<noteq> 0 \<longrightarrow> down b \<longrightarrow> \<not> released b ms \<longrightarrow> gt_held g b) \<and> (gt_pressed g b \<longrightarrow> fresh_press b ms))"

lemma fresh_press_now: "fresh_press (vk_byte k) (ms @ [Gkey_down sys k False ctrl focused])"
  unfolding fresh_press_def
  by (intro exI[of _ ms] exI[of _ sys] exI[of _ k] exI[of _ ctrl] exI[of _ focused] exI[of _ "[]"]) (simp add: released_def)

lemma fresh_press_snoc:
  assumes "fresh_press b ms" and "\<forall>k. m = Gkey_up k \<longrightarrow> vk_byte k \<noteq> b"
  shows "fresh_press b (ms @ [m])"
proof -
  obtain pre sys k ctrl focused post where h: "ms = pre @ Gkey_down sys k False ctrl focused # post" "vk_byte k = b" "\<not> released b post"
    using assms(1) unfolding fresh_press_def by blast
  have "ms @ [m] = pre @ Gkey_down sys k False ctrl focused # (post @ [m])" "\<not> released b (post @ [m])"
    using h(1,3) assms(2) by (auto simp: released_def)
  then show ?thesis unfolding fresh_press_def using h(2) by blast
qed

lemma keys_inv_step:
  assumes inv: "keys_inv down ms g"
  shows "keys_inv down (ms @ [m]) (fst (greeter_step m g))"
proof -
  note i = inv[unfolded keys_inv_def, rule_format]
  have rel: "released b ms \<Longrightarrow> released b (ms @ [m])" for b by (auto simp: released_def)
  have keep: "keys_inv down (ms @ [m]) g'" if same: "gt_held g' = gt_held g" "gt_pressed g' = gt_pressed g" and m: "\<forall>k. m \<noteq> Gkey_up k" for g'
    unfolding keys_inv_def using i rel fresh_press_snoc same m by metis
  show ?thesis
  proof (cases m)
    case (Gkey_up k)
    show ?thesis unfolding keys_inv_def
    proof (intro allI conjI impI)
      fix b assume "b \<noteq> 0" "down b" "\<not> released b (ms @ [m])"
      then show "gt_held (fst (greeter_step m g)) b" using i[of b] rel Gkey_up by (auto simp: greeter_up released_def)
    next
      fix b assume "gt_pressed (fst (greeter_step m g)) b"
      then have "vk_byte k \<noteq> b" "gt_pressed g b" by (auto simp: Gkey_up greeter_up split: if_splits)
      then show "fresh_press b (ms @ [m])" using i[of b] fresh_press_snoc Gkey_up by blast
    qed
  next
    case (Gkey_down sys k was_down ctrl focused)
    show ?thesis unfolding keys_inv_def
    proof (intro allI conjI impI)
      fix b assume "b \<noteq> 0" "down b" "\<not> released b (ms @ [m])"
      then have "gt_held g b" using i rel by blast
      then show "gt_held (fst (greeter_step m g)) b" by (simp add: Gkey_down greeter_step_def key_taken_keys)
    next
      fix b assume b: "gt_pressed (fst (greeter_step m g)) b"
      show "fresh_press b (ms @ [m])"
      proof (cases "gt_pressed g b")
        case True
        then show ?thesis using i fresh_press_snoc Gkey_down by blast
      next
        case False
        then have "b = vk_byte k" "\<not> was_down" using b by (auto simp: Gkey_down greeter_step_def key_taken_keys split: if_splits)
        then show ?thesis using fresh_press_now Gkey_down by simp
      qed
    qed
  qed (rule keep; simp add: greeter_step_def wndproc_keys_kept)+
qed

lemma keys_run_inv: "keys_inv down ms (fst (greeter_run ms (greeter_start cmd curtain down)))"
proof (induction ms rule: rev_induct)
  case Nil
  then show ?case by (simp add: keys_inv_def greeter_start_def)
next
  case (snoc m ms)
  show ?case using keys_inv_step[OF snoc.IH, of m] by (simp add: greeter_run_snoc case_prod_beta)
qed

text \<open>
  C39.  A key held since before the screen came up is not typing: whatever keys go down and
  up, one is taken -- it lifts the curtain, signs in or goes on to a text box -- only if it
  was not down when the screen appeared or has gone up since, and, when it was already down
  before this message, only if the screen saw it go down and not come up.
\<close>

theorem held_keys_ignored:
  assumes "greeter_run ms (greeter_start cmd curtain down) = (g, out)"
    and "greeter_step (Gkey_down sys k was_down ctrl focused) g = (g', out')" and "out' \<noteq> [] \<or> gt_curtain g' \<noteq> gt_curtain g"
  shows "(vk_byte k \<noteq> 0 \<longrightarrow> down (vk_byte k) \<longrightarrow> released (vk_byte k) ms) \<and> (was_down \<longrightarrow> fresh_press (vk_byte k) ms)"
proof -
  have inv: "keys_inv down ms g" using keys_run_inv[of down ms cmd curtain] assms(1) by simp
  have "\<not> (gt_held g (vk_byte k) \<or> was_down \<and> \<not> gt_pressed g (vk_byte k))"
    using assms(2,3) by (auto simp: greeter_step_def split: if_splits)
  then show ?thesis using inv unfolding keys_inv_def by blast
qed


theorem held_keys_ignored_witness:
  "greeter_step (Gkey_down False 76 True False True) (greeter_start ''/lock alice'' None (\<lambda>b. b = 76)) =
     ((greeter_start ''/lock alice'' None (\<lambda>b. b = 76)), []) \<and>
   (\<exists>g out g' out'. greeter_run [Gkey_up 76] (greeter_start ''/lock alice'' None (\<lambda>b. b = 76)) = (g, out) \<and>
      greeter_step (Gkey_down False 76 False False True) g = (g', out') \<and> out' = [Key_on False 76] \<and> released 76 [Gkey_up 76])"
proof -
  let ?s = "greeter_start ''/lock alice'' None (\<lambda>b. b = 76)"
  have b: "vk_byte 76 = 76" by (simp add: vk_byte_def)
  have held: "gt_held ?s 76" "\<not> gt_pressed ?s 76" "gt_curtain ?s" by (simp_all add: greeter_start_def)
  have first: "greeter_step (Gkey_down False 76 True False True) ?s = (?s, [])"
    using held by (simp add: greeter_step_def b fun_upd_idem)
  define g where "g = fst (greeter_step (Gkey_up 76) ?s)"
  have run: "greeter_run [Gkey_up 76] ?s = (g, [])" by (simp add: g_def greeter_up)
  have g: "\<not> gt_held g 76" "gt_curtain g" using held by (simp_all add: g_def greeter_up b)
  define g' where "g' = lift_curtain (g\<lparr>gt_pressed := (gt_pressed g)(76 := True)\<rparr>)"
  have step: "greeter_step (Gkey_down False 76 False False True) g = (g', [Key_on False 76])"
    using g by (simp add: greeter_step_def b key_taken_def g'_def LIFT_ONLY_def key_defs VK_A_def)
  have "released 76 [Gkey_up 76]" using held_keys_ignored[OF run step] by (simp add: b)
  then show ?thesis using first run step by blast
qed

section \<open>The security screen and the lock service\<close>

text \<open>Whatever is chosen, the lock service gives the compositor exactly one command for it.\<close>

lemma sas_run_known:
  "sas_run ms s = (s', out) \<Longrightarrow> e \<in> set out \<Longrightarrow> (\<exists>sys k. e = Key_on sys k) \<or> (\<exists>c. e = Sent (''SAS '' @ choice_word c))"
proof (induction ms arbitrary: s s' out)
  case (Cons m ms)
  have "greeter_line (''SAS '' @ choice_word c) = Sent (''SAS '' @ choice_word c)" for c by (cases c) (simp_all add: greeter_line_def)
  then have line: "snd (sas_choose c s) = [Sent (''SAS '' @ choice_word c)]" for c s by (simp add: sas_choose_def del: append.simps)
  have "e \<in> set (snd (sas_step m s)) \<Longrightarrow> (\<exists>sys k. e = Key_on sys k) \<or> (\<exists>c. e = Sent (''SAS '' @ choice_word c))"
    by (cases m) (auto simp: sas_step_def line simp del: append.simps choice_word.simps split: if_splits)
  moreover have "out = snd (sas_step m s) @ snd (sas_run ms (fst (sas_step m s)))" using Cons.prems(1) by (auto simp: case_prod_beta)
  then have "e \<in> set (snd (sas_step m s)) \<or> e \<in> set (snd (sas_run ms (fst (sas_step m s))))" using Cons.prems(2) by simp
  ultimately show ?case using Cons.IH[OF prod.collapse[symmetric]] by blast
qed simp

lemma sas_choice_obeyed: "\<exists>cmd. sas_line (''SAS '' @ choice_word c) = [LkControl cmd]"
  by (cases c) (simp_all add: sas_line_def)

text \<open>
  A prompt already on its way when the person turns to another account is taken for theirs:
  the screen then waits for a secret of the account that was cancelled.
\<close>

lemma stale_prompt_taken:
  assumes "gt_lock g = None" and "\<not> gt_done g" and "is_prompt l" and "starts ''PROMPT_SECRET '' l"
  shows "gt_awaiting (fst (greeter_run [Gline ''LASTUSER bob'', Gcommand GID_OTHER None, Gline l] g)) \<and>
    \<not> gt_last_mode (fst (greeter_run [Gline ''LASTUSER bob'', Gcommand GID_OTHER None, Gline l] g))"
proof -
  define g1 where "g1 = fst (greeter_step (Gline ''LASTUSER bob'') g)"
  define g2 where "g2 = fst (greeter_step (Gcommand GID_OTHER None) g1)"
  have ids: "GID_OTHER \<noteq> GID_SUBMIT" "GID_OTHER \<noteq> GID_POWER" by (simp_all add: GID_OTHER_def GID_SUBMIT_def GID_POWER_def)
  have "\<not> gt_last_mode g2" by (simp add: g2_def greeter_step_def greeter_wndproc_def ids last_user_mode_def Let_def)
  moreover have "fst (greeter_step (Gline l) g2) = asked True (drop 14 l) g2"
    using assms(4) by (simp add: greeter_step_def greeter_wndproc_def handle_bridge_line_def)
  ultimately show ?thesis by (simp add: g1_def[symmetric] g2_def[symmetric] case_prod_beta asked_def)
qed

end
