(* ===== verification/Sg_Lockctl.thy ===== *)
theory Sg_Lockctl
  imports Sg_Prelude
begin

text \<open>
  One command to the compositor, \<open>greeter/sg-lockctl.c\<close>: the arguments it takes, the line it
  sends and what it makes of the answer.  The compositor's answer is the list of pieces in
  which it is read, each of at most 255 bytes; the output file is a pair of flags.
\<close>

definition all_digits :: "string \<Rightarrow> bool" where
  "all_digits s \<longleftrightarrow> s \<noteq> [] \<and> list_all isdigit s"

definition LIST_COMMANDS :: "string list" where
  "LIST_COMMANDS = [''WINDOWS'', ''XWINDOWS'']"

text \<open>The file of \<open>--out\<close>, and the arguments that remain.\<close>

definition lockctl_out :: "string list \<Rightarrow> string list \<times> string option" where
  "lockctl_out args =
     (case args of
        [c, opt, f] \<Rightarrow> if opt = ''--out'' \<and> c \<in> set LIST_COMMANDS \<and> take 1 f = ''/'' \<and> length f < 4096 then ([c], Some f) else (args, None)
      | _ \<Rightarrow> (args, None))"

definition lockctl_command :: "string list \<Rightarrow> string option" where
  "lockctl_command args =
     (case args of
        [c, display, window] \<Rightarrow>
          if (c = ''ACTIVATE'' \<or> c = ''MINIMIZE'') \<and> all_digits display \<and> all_digits window \<and> length display < 6 \<and> length window < 11
          then Some (snprintf_s 48 (c @ '' '' @ display @ '' '' @ window @ [LF])) else None
      | [c, window] \<Rightarrow>
          if c \<in> {''XACTIVATE'', ''XMINIMIZE'', ''XCLOSE'', ''XKILL''} \<and> all_digits window \<and> length window < 11
          then Some (snprintf_s 48 (c @ '' '' @ window @ [LF])) else None
      | [c] \<Rightarrow> if length c \<le> 16 then Some (snprintf_s 48 (c @ [LF])) else None
      | _ \<Rightarrow> None)"

text \<open>
  The system: the socket's path, whether it is connected and written, the pieces of the
  answer, whether the file can be opened, closed and renamed.
\<close>

record lockctl_os =
  lc_path :: "string option"
  lc_connect :: bool
  lc_write :: bool
  lc_pieces :: "bytes list"
  lc_open :: bool
  lc_close :: bool
  lc_rename :: bool

text \<open>What was sent, what was printed (or put into the part file) and whether the file was put in place.\<close>

record lockctl_result =
  lr_status :: nat
  lr_sent :: string
  lr_text :: string
  lr_file :: "string option"

definition lockctl_ends :: "nat \<Rightarrow> string \<Rightarrow> lockctl_result" where
  "lockctl_ends status sent = \<lparr>lr_status = status, lr_sent = sent, lr_text = [], lr_file = None\<rparr>"

definition lockctl_status :: "string list \<Rightarrow> bytes list \<Rightarrow> nat" where
  "lockctl_status args pieces =
     (if pieces = [] then 1
      else if length args = 1 \<and> hd args \<in> set LIST_COMMANDS then 0
      else if take 2 (cstr (hd pieces)) = ''OK'' then 0 else 1)"

definition lockctl :: "lockctl_os \<Rightarrow> string list \<Rightarrow> lockctl_result" where
  "lockctl os argv =
     (case lockctl_out argv of
        (args, out) \<Rightarrow>
          (case (lockctl_command args, lc_path os) of
             (Some cmd, Some path) \<Rightarrow>
               if length path \<ge> 108 then lockctl_ends 2 []
               else if \<not> lc_connect os then lockctl_ends 1 []
               else if \<not> lc_write os then lockctl_ends 1 []
               else if out \<noteq> None \<and> \<not> lc_open os then lockctl_ends 1 cmd
               else let text = concat (map cstr (lc_pieces os))
                    in if out \<noteq> None \<and> (\<not> lc_close os \<or> lc_pieces os = [] \<or> \<not> lc_rename os)
                       then \<lparr>lr_status = 1, lr_sent = cmd, lr_text = text, lr_file = None\<rparr>
                       else \<lparr>lr_status = lockctl_status args (lc_pieces os), lr_sent = cmd, lr_text = text, lr_file = out\<rparr>
           | _ \<Rightarrow> lockctl_ends 2 []))"

section \<open>What reaches the socket\<close>

definition spaced :: "string list \<Rightarrow> string" where
  "spaced ws = concat (map (\<lambda>w. w @ '' '') (butlast ws)) @ last ws"

lemma lockctl_command_words:
  assumes "lockctl_command args = Some cmd"
  shows "cmd = spaced args @ [LF] \<and> list_all all_digits (tl args)"
proof -
  consider c where "args = [c]" | c window where "args = [c, window]" | c display window where "args = [c, display, window]"
    using assms by (auto simp: lockctl_command_def split: list.splits)
  then show ?thesis
    by cases (use assms in \<open>auto simp: lockctl_command_def spaced_def split: if_splits\<close>)
qed

text \<open>
  Besides the command itself only numbers reach the compositor, each word as it was given;
  the file asked for appears only with the whole of an answer in it, and success is reported
  only of an answer.
\<close>

lemma lockctl_numbers_only:
  assumes "lockctl os argv = r"
  shows "(lr_sent r \<noteq> [] \<longrightarrow> lr_sent r = spaced (fst (lockctl_out argv)) @ [LF] \<and> list_all all_digits (tl (fst (lockctl_out argv)))) \<and>
    (\<forall>f. lr_file r = Some f \<longrightarrow> take 1 f = ''/'' \<and> lc_pieces os \<noteq> [] \<and> lr_text r = concat (map cstr (lc_pieces os))) \<and>
    (lr_status r = 0 \<longrightarrow> lc_pieces os \<noteq> [] \<and> lr_sent r \<noteq> [])"
proof -
  obtain args out where out: "lockctl_out argv = (args, out)" by fastforce
  have named: "\<forall>f. out = Some f \<longrightarrow> take 1 f = ''/''" using out by (auto simp: lockctl_out_def split: list.splits if_splits)
  show ?thesis
  proof (cases "lockctl_command args")
    case None
    then show ?thesis using assms out by (auto simp: lockctl_def lockctl_ends_def)
  next
    case (Some cmd)
    note sent = lockctl_command_words[OF Some]
    consider "lr_sent r = []" "lr_status r \<noteq> 0" "lr_file r = None" | "lr_sent r = cmd" "lr_status r \<noteq> 0" "lr_file r = None"
      | "lr_sent r = cmd" "lr_file r = out" "lr_text r = concat (map cstr (lc_pieces os))" "lr_status r = lockctl_status args (lc_pieces os)"
        "out \<noteq> None \<longrightarrow> lc_pieces os \<noteq> []"
      using assms unfolding lockctl_def out prod.case Some option.case
      by (cases "lc_path os") (auto simp: lockctl_ends_def Let_def split: if_splits)
    then show ?thesis using sent named out by cases (auto simp: lockctl_status_def split: if_splits)
  qed
qed

end
