(* ===== verification/Spec2Isabelle.thy ===== *)
theory Spec2Isabelle
  imports Sg_Prelude Sg_Planar Sg_Wire Sg_Monitor Sg_Logon Sg_Consent Sg_Launch Sg_Broker Sg_Elevate Sg_Elevated_Run Sg_Lock Sg_Rdp Sg_Monad Sg_Greet Sg_Netmount Sg_Stream Sg_Screen Sg_Pamcheck Sg_Saver Sg_Procagent Sg_Setup_Bridge Sg_Polimport Sg_Password Sg_Keyring Sg_Prompt Sg_Greeter Sg_Lockctl
begin

text \<open>
  Verification of the session daemons and tools of sg-session.
\<close>

end
